(* ===== verification/Prelude.thy ===== *)
theory Prelude
  imports Main "HOL-Library.Char_ord" "HOL-Library.Code_Target_Nat"
begin

text \<open>
  Shared automation and generic facts.  Python's \<open>str\<close> is modelled by \<^typ>\<open>string\<close>: a list of
  code points below 256 (Latin-1, the character set of HTTP headers).  The first part
  holds the string operations of Python's standard library that the program calls, the
  second part fixed-width and variable-width positional notation (used for dates, UUIDs, ports
  and JSON numbers), the third part generic facts on lists, and on \<^term>\<open>filter\<close> used as a
  relational \<open>SELECT\<close>.
\<close>

named_theorems invariant_intros
  \<open>preservation of a component's invariant, one rule per operation\<close>

section \<open>Python string operations\<close>

type_synonym pystr = string

definition code :: "char \<Rightarrow> nat" where
  "code c = of_char c"

lemma code_inject [simp]: "code c = code c' \<longleftrightarrow> c = c'"
  by (simp add: code_def)

definition is_ascii_digit :: "char \<Rightarrow> bool" where
  "is_ascii_digit c \<longleftrightarrow> 48 \<le> code c \<and> code c \<le> 57"

definition is_ascii_alpha :: "char \<Rightarrow> bool" where
  "is_ascii_alpha c \<longleftrightarrow> (65 \<le> code c \<and> code c \<le> 90) \<or> (97 \<le> code c \<and> code c \<le> 122)"

text \<open>\<open>str.isupper\<close>, \<open>str.isdigit\<close> and \<open>str.isspace\<close> on one Latin-1 character.\<close>

definition py_isupper :: "char \<Rightarrow> bool" where
  "py_isupper c \<longleftrightarrow> (65 \<le> code c \<and> code c \<le> 90) \<or> (192 \<le> code c \<and> code c \<le> 222 \<and> code c \<noteq> 215)"

definition py_isdigit :: "char \<Rightarrow> bool" where
  "py_isdigit c \<longleftrightarrow> is_ascii_digit c \<or> code c \<in> {178, 179, 185}"

definition py_isspace :: "char \<Rightarrow> bool" where
  "py_isspace c \<longleftrightarrow> (9 \<le> code c \<and> code c \<le> 13) \<or> (28 \<le> code c \<and> code c \<le> 32)
     \<or> code c = 133 \<or> code c = 160"

definition lower_char :: "char \<Rightarrow> char" where
  "lower_char c = (if py_isupper c then char_of (code c + 32) else c)"

definition py_lower :: "pystr \<Rightarrow> pystr" where
  "py_lower s = map lower_char s"

text \<open>\<open>s.strip()\<close>, \<open>s.lstrip(chars)\<close>, \<open>s.partition(c)\<close>, \<open>s.rpartition(c)\<close>, \<open>s.split(c)\<close>.\<close>

definition lstrip_by :: "(char \<Rightarrow> bool) \<Rightarrow> pystr \<Rightarrow> pystr" where
  "lstrip_by p s = dropWhile p s"

definition py_strip :: "pystr \<Rightarrow> pystr" where
  "py_strip s = rev (dropWhile py_isspace (rev (dropWhile py_isspace s)))"

definition partition_at :: "char \<Rightarrow> pystr \<Rightarrow> pystr \<times> bool \<times> pystr" where
  "partition_at c s =
     (takeWhile (\<lambda>x. x \<noteq> c) s, c \<in> set s, tl (dropWhile (\<lambda>x. x \<noteq> c) s))"

definition rpartition_tail :: "char \<Rightarrow> pystr \<Rightarrow> pystr" where
  "rpartition_tail c s = rev (takeWhile (\<lambda>x. x \<noteq> c) (rev s))"

fun split_on :: "char \<Rightarrow> pystr \<Rightarrow> pystr list" where
  "split_on c [] = [[]]"
| "split_on c (x # xs) =
     (if x = c then [] # split_on c xs
      else (case split_on c xs of [] \<Rightarrow> [[x]] | y # ys \<Rightarrow> (x # y) # ys))"

lemma split_on_nonempty [simp]: "split_on c s \<noteq> []"
  by (induction s) (auto split: list.splits)

lemma split_on_no_sep: "c \<notin> set s \<Longrightarrow> split_on c s = [s]"
  by (induction s) auto

lemma split_on_append_sep:
  "c \<notin> set s \<Longrightarrow> split_on c (s @ c # t) = s # split_on c t"
  by (induction s) auto

lemma hd_split_on: "hd (split_on c s) = takeWhile (\<lambda>x. x \<noteq> c) s"
  by (induction s) (auto split: list.splits)

lemma partition_at_append:
  "c \<notin> set s \<Longrightarrow> partition_at c (s @ c # t) = (s, True, t)"
  by (induction s) (auto simp: partition_at_def)

lemma partition_at_absent: "c \<notin> set s \<Longrightarrow> partition_at c s = (s, False, [])"
  by (induction s) (auto simp: partition_at_def)

lemma takeWhile_neq_absent: "c \<notin> set s \<Longrightarrow> takeWhile (\<lambda>x. x \<noteq> c) s = s"
  by (induction s) auto

lemma rpartition_tail_absent: "c \<notin> set s \<Longrightarrow> rpartition_tail c s = s"
  by (simp add: rpartition_tail_def takeWhile_neq_absent)

lemma lower_char_ascii_id: "\<not> py_isupper c \<Longrightarrow> lower_char c = c"
  by (simp add: lower_char_def)

lemma py_lower_id: "\<forall>c \<in> set s. \<not> py_isupper c \<Longrightarrow> py_lower s = s"
  by (induction s) (auto simp: py_lower_def lower_char_def)

section \<open>Positional notation\<close>

text \<open>\<open>fixed_digits b w n\<close>: the last \<open>w\<close> digits of \<open>n\<close> in base \<open>b\<close>, most significant first.\<close>

fun fixed_digits :: "nat \<Rightarrow> nat \<Rightarrow> nat \<Rightarrow> nat list" where
  "fixed_digits b 0 n = []"
| "fixed_digits b (Suc w) n = fixed_digits b w (n div b) @ [n mod b]"

definition digits_value :: "nat \<Rightarrow> nat list \<Rightarrow> nat" where
  "digits_value b ds = foldl (\<lambda>a d. a * b + d) 0 ds"

fun var_digits :: "nat \<Rightarrow> nat \<Rightarrow> nat list" where
  "var_digits b n = (if b < 2 \<or> n < b then [n] else var_digits b (n div b) @ [n mod b])"

declare var_digits.simps [simp del]

lemma length_fixed_digits [simp]: "length (fixed_digits b w n) = w"
  by (induction w arbitrary: n) auto

lemma fixed_digits_less: "0 < b \<Longrightarrow> d \<in> set (fixed_digits b w n) \<Longrightarrow> d < b"
  by (induction w arbitrary: n) auto

lemma digits_value_snoc [simp]: "digits_value b (ds @ [d]) = digits_value b ds * b + d"
  by (simp add: digits_value_def)

lemma digits_value_Nil [simp]: "digits_value b [] = 0"
  by (simp add: digits_value_def)

lemma digits_value_fixed: "digits_value b (fixed_digits b w n) = n mod b ^ w"
proof (induction w arbitrary: n)
  case 0
  then show ?case by simp
next
  case (Suc w)
  have "n mod (b * b ^ w) = b * (n div b mod b ^ w) + n mod b"
    by (rule mod_mult2_eq)
  with Suc show ?case by (simp add: mult.commute)
qed

lemma digits_value_var: "2 \<le> b \<Longrightarrow> digits_value b (var_digits b n) = n"
proof (induction n rule: less_induct)
  case (less n)
  show ?case
  proof (cases "n < b")
    case True
    then show ?thesis by (simp add: var_digits.simps [of b n] digits_value_def)
  next
    case False
    with less.prems have "n div b < n" by (intro div_less_dividend) auto
    with less have "digits_value b (var_digits b (n div b)) = n div b" by blast
    with False less.prems show ?thesis by (simp add: var_digits.simps [of b n])
  qed
qed

lemma var_digits_nonempty [simp]: "var_digits b n \<noteq> []"
  by (subst var_digits.simps) simp

lemma var_digits_less: "2 \<le> b \<Longrightarrow> d \<in> set (var_digits b n) \<Longrightarrow> d < b"
proof (induction n rule: less_induct)
  case (less n)
  show ?case
  proof (cases "n < b")
    case True
    with less.prems show ?thesis by (simp add: var_digits.simps [of b n])
  next
    case False
    with less.prems have "n div b < n" by (intro div_less_dividend) auto
    from less.IH [OF this] less.prems False show ?thesis
      by (auto simp: var_digits.simps [of b n])
  qed
qed

lemma hd_var_digits: "2 \<le> b \<Longrightarrow> 0 < n \<Longrightarrow> hd (var_digits b n) \<noteq> 0"
proof (induction n rule: less_induct)
  case (less n)
  show ?case
  proof (cases "n < b")
    case True
    with less.prems show ?thesis by (simp add: var_digits.simps [of b n])
  next
    case False
    with less.prems have "n div b < n" "0 < n div b"
      by (auto simp: div_greater_zero_iff intro: div_less_dividend)
    from less.IH [OF this(1)] this(2) less.prems False show ?thesis
      by (simp add: var_digits.simps [of b n] hd_append)
  qed
qed

lemma length_var_digits: "2 \<le> b \<Longrightarrow> n < b ^ Suc w \<Longrightarrow> length (var_digits b n) \<le> Suc w"
proof (induction w arbitrary: n)
  case 0
  then show ?case by (simp add: var_digits.simps [of b n])
next
  case (Suc w)
  then have "n div b < b ^ Suc w"
    by (simp add: less_mult_imp_div_less mult.commute)
  from Suc.IH [OF Suc.prems(1) this] show ?case
    by (simp add: var_digits.simps [of b n])
qed

text \<open>Digits as characters: lower-case letters after \<open>9\<close>.\<close>

definition digit_char :: "nat \<Rightarrow> char" where
  "digit_char d = (if d < 10 then char_of (48 + d) else char_of (87 + d))"

text \<open>The value of a digit in a base up to 16, upper- or lower-case.\<close>

definition digit_of :: "nat \<Rightarrow> char \<Rightarrow> nat option" where
  "digit_of b c =
     (let v = (if is_ascii_digit c then Some (code c - 48)
               else if 97 \<le> code c \<and> code c \<le> 102 then Some (code c - 87)
               else if 65 \<le> code c \<and> code c \<le> 70 then Some (code c - 55)
               else None)
      in (case v of Some d \<Rightarrow> if d < b then Some d else None | None \<Rightarrow> None))"

fun read_digits :: "nat \<Rightarrow> pystr \<Rightarrow> nat list option" where
  "read_digits b [] = Some []"
| "read_digits b (c # cs) =
     (case digit_of b c of
        None \<Rightarrow> None
      | Some d \<Rightarrow> (case read_digits b cs of None \<Rightarrow> None | Some ds \<Rightarrow> Some (d # ds)))"

definition read_number :: "nat \<Rightarrow> pystr \<Rightarrow> nat option" where
  "read_number b s = (if s = [] then None else map_option (digits_value b) (read_digits b s))"

definition show_fixed :: "nat \<Rightarrow> nat \<Rightarrow> nat \<Rightarrow> pystr" where
  "show_fixed b w n = map digit_char (fixed_digits b w n)"

definition show_nat :: "nat \<Rightarrow> pystr" where
  "show_nat n = map digit_char (var_digits 10 n)"

lemma code_digit_char: "d < 16 \<Longrightarrow> code (digit_char d) = (if d < 10 then 48 + d else 87 + d)"
  by (auto simp: digit_char_def code_def)

lemma digit_of_digit_char: "d < b \<Longrightarrow> b \<le> 16 \<Longrightarrow> digit_of b (digit_char d) = Some d"
  by (auto simp: digit_of_def code_digit_char is_ascii_digit_def)

lemma read_digits_map:
  "\<forall>d \<in> set ds. d < b \<Longrightarrow> b \<le> 16 \<Longrightarrow> read_digits b (map digit_char ds) = Some ds"
  by (induction ds) (auto simp: digit_of_digit_char)

lemma read_show_fixed:
  assumes "0 < b" "b \<le> 16" "0 < w"
  shows "read_number b (show_fixed b w n) = Some (n mod b ^ w)"
proof -
  have "read_digits b (show_fixed b w n) = Some (fixed_digits b w n)"
    unfolding show_fixed_def
    by (rule read_digits_map) (use assms in \<open>auto dest: fixed_digits_less\<close>)
  moreover have "show_fixed b w n \<noteq> []"
    using assms(3) by (simp add: show_fixed_def flip: length_greater_0_conv)
  ultimately show ?thesis by (simp add: read_number_def digits_value_fixed)
qed

lemma read_show_nat: "read_number 10 (show_nat n) = Some n"
proof -
  have "read_digits 10 (show_nat n) = Some (var_digits 10 n)"
    unfolding show_nat_def
    by (rule read_digits_map) (auto dest: var_digits_less [rotated])
  then show ?thesis by (simp add: read_number_def show_nat_def digits_value_var)
qed

lemma length_show_fixed [simp]: "length (show_fixed b w n) = w"
  by (simp add: show_fixed_def)

lemma show_nat_nonempty [simp]: "show_nat n \<noteq> []"
  by (simp add: show_nat_def)

lemma show_nat_digit: "c \<in> set (show_nat n) \<Longrightarrow> is_ascii_digit c"
  by (auto simp: show_nat_def is_ascii_digit_def code_digit_char dest!: var_digits_less [rotated])

lemma length_show_nat: "n < 10 ^ Suc w \<Longrightarrow> length (show_nat n) \<le> Suc w"
  by (simp add: show_nat_def length_var_digits)

lemma hd_show_nat: "0 < n \<Longrightarrow> hd (show_nat n) \<noteq> CHR ''0''"
proof -
  assume "0 < n"
  then have "hd (var_digits 10 n) \<noteq> 0" by (simp add: hd_var_digits)
  moreover have "hd (var_digits 10 n) < 10"
    by (rule var_digits_less [of 10 _ n]) auto
  ultimately have "code (hd (show_nat n)) \<noteq> code (CHR ''0'')"
    by (simp add: show_nat_def hd_map code_digit_char) (simp add: code_def)
  then show ?thesis by simp
qed

lemma show_nat_0: "show_nat 0 = ''0''"
proof -
  have "code (digit_char 0) = code (CHR ''0'')"
    by (subst code_digit_char) (simp_all add: code_def)
  then show ?thesis by (simp add: show_nat_def var_digits.simps [of 10 0])
qed

lemma show_fixed_char:
  "0 < b \<Longrightarrow> c \<in> set (show_fixed b w n) \<Longrightarrow> \<exists>d < b. c = digit_char d"
  by (auto simp: show_fixed_def dest: fixed_digits_less)

section \<open>Lists as tables\<close>

text \<open>
  \<open>the_one xs\<close>: SQLAlchemy's \<open>scalar_one_or_none\<close> on the rows of a result; more than one
  row raises \<open>MultipleResultsFound\<close>.
\<close>

datatype 'a one_result = NoRow | OneRow 'a | ManyRows

fun the_one :: "'a list \<Rightarrow> 'a one_result" where
  "the_one [] = NoRow"
| "the_one [x] = OneRow x"
| "the_one (x # y # zs) = ManyRows"

definition upd_where :: "('a \<Rightarrow> bool) \<Rightarrow> ('a \<Rightarrow> 'a) \<Rightarrow> 'a list \<Rightarrow> 'a list" where
  "upd_where p f xs = map (\<lambda>x. if p x then f x else x) xs"

lemma distinct_singleton: "distinct xs \<Longrightarrow> set xs = {x} \<Longrightarrow> xs = [x]"
  by (cases xs; cases "tl xs") auto

lemma filter_at_most_one:
  assumes "distinct (map f xs)" "x \<in> set xs" "P x" "\<And>y. y \<in> set xs \<Longrightarrow> P y \<Longrightarrow> f y = f x"
  shows "filter P xs = [x]"
proof (rule distinct_singleton)
  from assms(1) have inj: "inj_on f (set xs)" and "distinct xs"
    by (auto simp: distinct_map)
  then show "distinct (filter P xs)" by simp
  have "y = x" if "y \<in> set xs" "P y" for y
    using inj that assms(2) assms(4) [OF that] by (auto dest: inj_onD)
  then have "y \<in> set (filter P xs) \<longleftrightarrow> y = x" for y
    using assms(2,3) unfolding set_filter by blast
  then show "set (filter P xs) = {x}" by blast
qed

lemma the_one_filter_eq_OneRow:
  assumes "distinct (map f xs)" "x \<in> set xs" "P x" "\<And>y. y \<in> set xs \<Longrightarrow> P y \<Longrightarrow> f y = f x"
  shows "the_one (filter P xs) = OneRow x"
proof -
  have "filter P xs = [x]" by (rule filter_at_most_one) (fact assms)+
  then show ?thesis by simp
qed

lemma the_one_OneRow_iff: "the_one xs = OneRow x \<longleftrightarrow> xs = [x]"
  by (cases xs rule: the_one.cases) auto

lemma the_one_NoRow_iff [simp]: "the_one xs = NoRow \<longleftrightarrow> xs = []"
  by (cases xs rule: the_one.cases) auto

lemma the_one_filter_OneRowD:
  "the_one (filter P xs) = OneRow x \<Longrightarrow> x \<in> set xs \<and> P x"
proof -
  assume "the_one (filter P xs) = OneRow x"
  then have "x \<in> set (filter P xs)" by (simp add: the_one_OneRow_iff)
  then show ?thesis by simp
qed

lemma the_one_not_many:
  assumes "distinct (map f xs)" "\<And>x y. x \<in> set xs \<Longrightarrow> y \<in> set xs \<Longrightarrow> P x \<Longrightarrow> P y \<Longrightarrow> f x = f y"
  shows "the_one (filter P xs) \<noteq> ManyRows"
proof (cases "filter P xs = []")
  case True
  then show ?thesis by simp
next
  case False
  then obtain x where "x \<in> set xs" "P x" by (auto simp: filter_empty_conv)
  then have "the_one (filter P xs) = OneRow x"
    using the_one_filter_eq_OneRow [OF assms(1), of x P] assms(2) by blast
  then show ?thesis by simp
qed

lemma set_upd_where: "set (upd_where p f xs) = (\<lambda>x. if p x then f x else x) ` set xs"
  by (simp add: upd_where_def)

lemma map_upd_where:
  "(\<And>x. x \<in> set xs \<Longrightarrow> p x \<Longrightarrow> g (f x) = g x) \<Longrightarrow> map g (upd_where p f xs) = map g xs"
  by (simp add: upd_where_def)

lemma find_append:
  "find P (xs @ ys) = (case find P xs of None \<Rightarrow> find P ys | Some x \<Rightarrow> Some x)"
  by (induction xs) auto

lemma length_upd_where [simp]: "length (upd_where p f xs) = length xs"
  by (simp add: upd_where_def)

end
