(* ===== verification/Py_Time.thy ===== *)
theory Py_Time
  imports Prelude "HOL-Library.Monad_Syntax"
begin

text \<open>
  The part of Python's \<open>datetime\<close> that the program uses.  An aware UTC datetime is the number
  of microseconds since \<open>0001-01-01T00:00:00+00:00\<close> (\<open>instant\<close>), so that \<open>+ timedelta\<close>,
  \<open>- timedelta\<close> and the comparisons are those of \<^typ>\<open>int\<close>.  \<open>isoformat\<close> and
  \<open>fromisoformat\<close> go through the calendar as CPython's \<open>ord_to_ymd\<close> and \<open>ymd_to_ord\<close> do; the
  reader is the inverse of the format that \<open>isoformat\<close> writes for UTC, the only one the program
  reads back.  A datetime from a request may be naive; comparing it with an aware one raises
  \<open>TypeError\<close>.
\<close>

type_synonym instant = int

datatype py_datetime = Aware instant | Naive int

definition usec :: int where "usec = 1000000"

definition timedelta_seconds :: "int \<Rightarrow> int" where
  "timedelta_seconds s = s * usec"

definition timedelta_minutes :: "int \<Rightarrow> int" where
  "timedelta_minutes m = m * 60 * usec"

definition timedelta_days :: "int \<Rightarrow> int" where
  "timedelta_days d = d * 86400 * usec"

text \<open>The calendar date of an instant, \<open>func.date(...)\<close> and \<open>.date()\<close>, as a day number.\<close>

definition day_of :: "instant \<Rightarrow> int" where
  "day_of t = t div (86400 * usec)"

section \<open>The calendar\<close>

definition is_leap :: "nat \<Rightarrow> bool" where
  "is_leap y \<longleftrightarrow> y mod 4 = 0 \<and> (y mod 100 \<noteq> 0 \<or> y mod 400 = 0)"

definition days_before_year :: "nat \<Rightarrow> nat" where
  "days_before_year y = (let p = y - 1 in p * 365 + p div 4 - p div 100 + p div 400)"

definition month_starts :: "nat list" where
  "month_starts = [0, 0, 31, 59, 90, 120, 151, 181, 212, 243, 273, 304, 334]"

definition days_before_month :: "bool \<Rightarrow> nat \<Rightarrow> nat" where
  "days_before_month leap m = month_starts ! m + (if m > 2 \<and> leap then 1 else 0)"

definition days_in_month :: "bool \<Rightarrow> nat \<Rightarrow> nat" where
  "days_in_month leap m =
     (if m = 2 \<and> leap then 29
      else [0, 31, 28, 31, 30, 31, 30, 31, 31, 30, 31, 30, 31] ! m)"

definition month_day :: "bool \<Rightarrow> nat \<Rightarrow> nat \<times> nat" where
  "month_day leap n =
     (let m = (n + 50) div 32; pre = days_before_month leap m
      in if pre > n
         then (m - 1, n - (pre - days_in_month leap (m - 1)) + 1)
         else (m, n - pre + 1))"

text \<open>Day number (\<open>toordinal() - 1\<close>) to year, month and day.\<close>

definition ord_to_ymd :: "nat \<Rightarrow> nat \<times> nat \<times> nat" where
  "ord_to_ymd ord =
     (let n400 = ord div 146097; r400 = ord mod 146097;
          n100 = r400 div 36524; r100 = r400 mod 36524;
          n4 = r100 div 1461; r4 = r100 mod 1461;
          n1 = r4 div 365; n = r4 mod 365;
          year = n400 * 400 + 1 + n100 * 100 + n4 * 4 + n1
      in if n1 = 4 \<or> n100 = 4 then (year - 1, 12, 31)
         else (let (m, d) = month_day (n1 = 3 \<and> (n4 \<noteq> 24 \<or> n100 = 3)) n in (year, m, d)))"

definition ymd_to_ord :: "nat \<Rightarrow> nat \<Rightarrow> nat \<Rightarrow> nat" where
  "ymd_to_ord y m d = days_before_year y + days_before_month (is_leap y) m + d - 1"

lemma days_before_year_parts:
  assumes "b < 4" "c < 25" "d < 4"
  shows "days_before_year (a * 400 + 1 + b * 100 + c * 4 + d) = 146097 * a + 36524 * b + 1461 * c + 365 * d"
proof -
  let ?p = "a * 400 + b * 100 + c * 4 + d"
  have "?p = (a * 100 + b * 25 + c) * 4 + d" by simp
  then have q4: "?p div 4 = a * 100 + b * 25 + c" using assms by (metis div_mult_self3 div_less add.commute add_0 zero_neq_numeral)
  have "?p = (a * 4 + b) * 100 + (c * 4 + d)" "c * 4 + d < 100" using assms by simp_all
  then have q100: "?p div 100 = a * 4 + b" by (metis div_mult_self3 div_less add.commute add_0 zero_neq_numeral)
  have "?p = a * 400 + (b * 100 + c * 4 + d)" "b * 100 + c * 4 + d < 400" using assms by simp_all
  then have q400: "?p div 400 = a" by (metis div_mult_self3 div_less add.commute add_0 zero_neq_numeral)
  have "a * 400 + 1 + b * 100 + c * 4 + d - 1 = ?p" by simp
  then show ?thesis
    unfolding days_before_year_def Let_def by (simp only: q4 q100 q400) simp
qed

lemma is_leap_parts:
  assumes "b < 4" "c < 25" "d < 4"
  shows "is_leap (a * 400 + 1 + b * 100 + c * 4 + d) \<longleftrightarrow> d = 3 \<and> (c \<noteq> 24 \<or> b = 3)"
proof -
  let ?y = "a * 400 + 1 + b * 100 + c * 4 + d"
  have "?y = (a * 100 + b * 25 + c) * 4 + (d + 1)" by simp
  then have m4: "?y mod 4 = (d + 1) mod 4" by (metis mod_mult_self3)
  have "?y = (a * 4 + b) * 100 + (c * 4 + d + 1)" by simp
  then have m100: "?y mod 100 = (c * 4 + d + 1) mod 100" by (metis mod_mult_self3)
  have "?y = a * 400 + (b * 100 + c * 4 + d + 1)" by simp
  then have m400: "?y mod 400 = (b * 100 + c * 4 + d + 1) mod 400" by (metis mod_mult_self3)
  have top: "x mod k = 0 \<longleftrightarrow> x = k" if "0 < x" "x \<le> k" for x k :: nat
    using that by (cases "x = k") auto
  have "(d + 1) mod 4 = 0 \<longleftrightarrow> d = 3"
    using top [of "d + 1" 4] assms by auto
  moreover have "(c * 4 + d + 1) mod 100 = 0 \<longleftrightarrow> c = 24 \<and> d = 3"
  proof -
    have "c * 4 + d + 1 = 100 \<longleftrightarrow> c = 24 \<and> d = 3" using assms by linarith
    then show ?thesis using top [of "c * 4 + d + 1" 100] assms by linarith
  qed
  moreover have "(b * 100 + c * 4 + d + 1) mod 400 = 0 \<longleftrightarrow> b = 3 \<and> c = 24 \<and> d = 3"
  proof -
    have "b * 100 + c * 4 + d + 1 = 400 \<longleftrightarrow> b = 3 \<and> c = 24 \<and> d = 3" using assms by linarith
    then show ?thesis using top [of "b * 100 + c * 4 + d + 1" 400] assms by linarith
  qed
  ultimately show ?thesis
    unfolding is_leap_def m4 m100 m400 by metis
qed

lemma month_day:
  assumes "n < 365" "month_day leap n = (m, d)"
  shows "days_before_month leap m + d = n + 1 \<and> 1 \<le> m \<and> m \<le> 12 \<and> 1 \<le> d \<and> d \<le> days_in_month leap m"
proof -
  define k where "k = (n + 50) div 32"
  have k: "k * 32 \<le> n + 50" "n + 50 < k * 32 + 32" by (simp_all add: k_def)
  with assms(1) have "0 < k" "k < 13" by linarith+
  then have "k \<in> {1, 2, 3, 4, 5, 6, 7, 8, 9, 10, 11, 12}" by simp arith
  moreover have "month_day leap n = (let pre = days_before_month leap k
      in if pre > n then (k - 1, n - (pre - days_in_month leap (k - 1)) + 1) else (k, n - pre + 1))"
    by (simp add: month_day_def k_def Let_def)
  ultimately show ?thesis
    using k assms
    by (elim insertE emptyE; cases leap;
        auto simp: Let_def days_before_month_def days_in_month_def month_starts_def split: if_splits)
qed

lemma ord_to_ymd_valid:
  assumes "ord_to_ymd ord = (y, m, d)"
  shows "ymd_to_ord y m d = ord \<and> 1 \<le> m \<and> m \<le> 12 \<and> 1 \<le> d \<and> d \<le> days_in_month (is_leap y) m"
proof -
  define a where "a = ord div 146097"
  define r where "r = ord mod 146097"
  define b where "b = r div 36524"
  define s where "s = r mod 36524"
  define c where "c = s div 1461"
  define t where "t = s mod 1461"
  define e where "e = t div 365"
  define n where "n = t mod 365"
  have parts: "ord = a * 146097 + r" "r < 146097" "r = b * 36524 + s" "s < 36524"
    "s = c * 1461 + t" "t < 1461" "t = e * 365 + n" "n < 365"
    by (simp_all add: a_def r_def b_def s_def c_def t_def e_def n_def)
  then have bounds: "b \<le> 4" "c \<le> 24" "e \<le> 4" by linarith+
  have b4: "s = 0" if "b = 4" using parts that by linarith
  have e4: "n = 0" if "e = 4" using parts that by linarith
  have eq: "ord_to_ymd ord =
      (if e = 4 \<or> b = 4 then (a * 400 + 1 + b * 100 + c * 4 + e - 1, 12, 31)
       else (let (m, d) = month_day (e = 3 \<and> (c \<noteq> 24 \<or> b = 3)) n
             in (a * 400 + 1 + b * 100 + c * 4 + e, m, d)))"
    by (simp add: ord_to_ymd_def Let_def a_def r_def b_def s_def c_def t_def e_def n_def)
  show ?thesis
  proof (cases "e = 4 \<or> b = 4")
    case True
    then have y: "y = a * 400 + 1 + b * 100 + c * 4 + e - 1" and md: "m = 12" "d = 31"
      using assms eq by auto
    have "\<exists>b' c'. b' < 4 \<and> c' < 25 \<and> (c' \<noteq> 24 \<or> b' = 3) \<and> y = a * 400 + 1 + b' * 100 + c' * 4 + 3 \<and>
        ord = a * 146097 + b' * 36524 + c' * 1461 + 3 * 365 + 365"
    proof (cases "b = 4")
      case True
      then have "c = 0" "e = 0" using b4 parts by auto
      with True b4 parts y show ?thesis by (intro exI [of _ 3] exI [of _ 24]) auto
    next
      case False
      with \<open>e = 4 \<or> b = 4\<close> have "e = 4" by simp
      moreover have "c \<noteq> 24" using parts \<open>e = 4\<close> by auto
      ultimately show ?thesis
        using False e4 parts y bounds by (intro exI [of _ b] exI [of _ c]) auto
    qed
    then obtain b' c' where b': "b' < 4" "c' < 25" "c' \<noteq> 24 \<or> b' = 3"
      "y = a * 400 + 1 + b' * 100 + c' * 4 + 3"
      "ord = a * 146097 + b' * 36524 + c' * 1461 + 3 * 365 + 365"
      by blast
    then have "is_leap y" "days_before_year y = 146097 * a + 36524 * b' + 1461 * c' + 365 * 3"
      using is_leap_parts [of b' c' 3 a] days_before_year_parts [of b' c' 3 a] by simp_all
    then show ?thesis
      using b' md
      by (simp add: ymd_to_ord_def days_before_month_def days_in_month_def month_starts_def)
  next
    case False
    then have be: "b < 4" "e < 4" "c < 25" using bounds by auto
    obtain m' d' where md: "month_day (e = 3 \<and> (c \<noteq> 24 \<or> b = 3)) n = (m', d')" by fastforce
    then have y: "y = a * 400 + 1 + b * 100 + c * 4 + e" "m = m'" "d = d'"
      using assms eq False by auto
    have leap: "is_leap y \<longleftrightarrow> e = 3 \<and> (c \<noteq> 24 \<or> b = 3)"
      and dby: "days_before_year y = 146097 * a + 36524 * b + 1461 * c + 365 * e"
      using is_leap_parts [OF be(1,3,2)] days_before_year_parts [OF be(1,3,2)] y by auto
    from month_day [OF parts(8) md [folded leap]] show ?thesis
      using parts y dby by (auto simp: ymd_to_ord_def)
  qed
qed

lemma ord_to_ymd_year:
  assumes "ord_to_ymd ord = (y, m, d)" "ord < 3652059"
  shows "1 \<le> y \<and> y \<le> 9999"
proof -
  from ord_to_ymd_valid [OF assms(1)] have "days_before_year y < 3652059"
    using assms(2) by (auto simp: ymd_to_ord_def)
  moreover have "days_before_year y \<ge> 3652059" if "y \<ge> 10000"
  proof -
    have "y - 1 \<ge> 9999" using that by simp
    then show ?thesis unfolding days_before_year_def Let_def by linarith
  qed
  moreover have "y \<noteq> 0"
    using assms(1) by (auto simp: ord_to_ymd_def Let_def split: if_splits prod.splits)
  ultimately show ?thesis by fastforce
qed

section \<open>ISO format\<close>

definition max_instant :: instant where
  "max_instant = 3652059 * 86400 * usec"

definition join_time :: "nat \<Rightarrow> nat \<Rightarrow> nat \<Rightarrow> nat \<Rightarrow> nat \<Rightarrow> instant" where
  "join_time ord h mi s us = int ((((ord * 24 + h) * 60 + mi) * 60 + s) * 1000000 + us)"

definition isoformat :: "instant \<Rightarrow> pystr" where
  "isoformat t =
     (let us = nat t mod 1000000; secs = nat t div 1000000;
          (y, m, d) = ord_to_ymd (secs div 60 div 60 div 24)
      in show_fixed 10 4 y @ ''-'' @ show_fixed 10 2 m @ ''-'' @ show_fixed 10 2 d @ ''T'' @
         show_fixed 10 2 (secs div 60 div 60 mod 24) @ '':'' @ show_fixed 10 2 (secs div 60 mod 60) @ '':'' @
         show_fixed 10 2 (secs mod 60) @
         (if us = 0 then [] else ''.'' @ show_fixed 10 6 us) @ ''+00:00'')"

definition read_field :: "nat \<Rightarrow> pystr \<Rightarrow> (nat \<times> pystr) option" where
  "read_field w s =
     (if length s < w then None
      else (case read_number 10 (take w s) of None \<Rightarrow> None | Some n \<Rightarrow> Some (n, drop w s)))"

definition expect :: "pystr \<Rightarrow> pystr \<Rightarrow> pystr option" where
  "expect p s = (if take (length p) s = p then Some (drop (length p) s) else None)"

text \<open>The fraction of a second, present or not, and then the UTC offset up to the end.\<close>

definition read_fraction :: "pystr \<Rightarrow> nat option" where
  "read_fraction s =
     (if s = ''+00:00'' then Some 0
      else do {
        s \<leftarrow> expect ''.'' s;
        (us, s) \<leftarrow> read_field 6 s;
        if s = ''+00:00'' then Some us else None
      })"

definition fromisoformat :: "pystr \<Rightarrow> instant option" where
  "fromisoformat s =
     do {
       (y, s) \<leftarrow> read_field 4 s; s \<leftarrow> expect ''-'' s;
       (m, s) \<leftarrow> read_field 2 s; s \<leftarrow> expect ''-'' s;
       (d, s) \<leftarrow> read_field 2 s; s \<leftarrow> expect ''T'' s;
       (h, s) \<leftarrow> read_field 2 s; s \<leftarrow> expect '':'' s;
       (mi, s) \<leftarrow> read_field 2 s; s \<leftarrow> expect '':'' s;
       (sec, s) \<leftarrow> read_field 2 s;
       us \<leftarrow> read_fraction s;
       if 1 \<le> y \<and> 1 \<le> m \<and> m \<le> 12 \<and> 1 \<le> d \<and> d \<le> days_in_month (is_leap y) m
          \<and> h < 24 \<and> mi < 60 \<and> sec < 60
       then Some (join_time (ymd_to_ord y m d) h mi sec us)
       else None
     }"

lemma read_field_show: "0 < w \<Longrightarrow> n < 10 ^ w \<Longrightarrow> read_field w (show_fixed 10 w n @ s) = Some (n, s)"
  by (simp add: read_field_def read_show_fixed)

lemma expect_append [simp]: "expect p (p @ s) = Some s"
  by (simp add: expect_def)

lemma expect_Cons [simp]: "expect [c] (c # s) = Some s"
  by (simp add: expect_def)

lemma read_fraction_show:
  "us < 1000000 \<Longrightarrow>
    read_fraction ((if us = 0 then [] else ''.'' @ show_fixed 10 6 us) @ ''+00:00'') = Some us"
  by (simp add: read_fraction_def read_field_show)

lemma join_split_time:
  "join_time (n div 1000000 div 60 div 60 div 24) (n div 1000000 div 60 div 60 mod 24)
     (n div 1000000 div 60 mod 60) (n div 1000000 mod 60) (n mod 1000000) = int n"
  unfolding join_time_def by (simp only: div_mult_mod_eq)

lemma days_in_month_le: "m \<le> 12 \<Longrightarrow> days_in_month leap m \<le> 31"
  by (cases leap; simp add: days_in_month_def le_Suc_eq numeral_eq_Suc; auto)

theorem fromiso_iso:
  assumes "0 \<le> t" "t < max_instant"
  shows "fromisoformat (isoformat t) = Some t"
proof -
  define n where "n = nat t"
  define ord where "ord = n div 1000000 div 60 div 60 div 24"
  obtain y m d where ymd: "ord_to_ymd ord = (y, m, d)" by (metis prod_cases3)
  have "n < 3652059 * 86400 * 1000000"
    using assms by (simp add: n_def max_instant_def usec_def)
  then have "ord < 3652059"
    by (simp add: ord_def div_mult2_eq [symmetric] less_mult_imp_div_less)
  then have y: "1 \<le> y" "y < 10000" using ord_to_ymd_year [OF ymd] by auto
  have v: "ymd_to_ord y m d = ord" "1 \<le> m" "m \<le> 12" "1 \<le> d" "d \<le> days_in_month (is_leap y) m"
    using ord_to_ymd_valid [OF ymd] by auto
  then have "d < 100" using days_in_month_le [of m "is_leap y"] by linarith
  moreover have "read_fraction ((if n mod 1000000 = 0 then [] else ''.'' @ show_fixed 10 6 (n mod 1000000)) @ ''+00:00'')
      = Some (n mod 1000000)"
    by (rule read_fraction_show) simp
  ultimately have "fromisoformat (isoformat t) =
      Some (join_time ord (n div 1000000 div 60 div 60 mod 24) (n div 1000000 div 60 mod 60)
        (n div 1000000 mod 60) (n mod 1000000))"
    using v y ymd unfolding isoformat_def fromisoformat_def Let_def n_def [symmetric] ord_def [symmetric]
    by (simp add: read_field_show del: append_Cons append.simps) 
  then show ?thesis
    using assms(1) join_split_time [of n] by (simp add: ord_def n_def)
qed

end
