(* ===== verification/Py_Json.thy ===== *)
theory Py_Json
  imports Prelude "HOL-Library.AList"
begin

text \<open>
  Python's \<open>json.dumps\<close> and \<open>json.loads\<close> on the values the program stores in Redis:
  \<open>None\<close>, booleans, integers, floats with one decimal (\<open>JDec n\<close> is \<open>n / 10\<close>, the result of
  \<open>round(x, 1)\<close>), strings, lists and dictionaries with string keys in insertion order.
  \<open>dumps\<close> uses the default separators and \<open>ensure_ascii\<close>; \<open>loads\<close> reads with white space, all
  escapes and duplicate keys (the last value wins).  A text outside this fragment (an exponent, more
  decimals, a code point above 255) is \<^const>\<open>None\<close>, as a text that is not JSON is.
\<close>

datatype json =
    JNull
  | JBool bool
  | JInt int
  | JDec int
  | JStr pystr
  | JArr "json list"
  | JObj "(pystr \<times> json) list"

section \<open>Writing\<close>

abbreviation (input) quote :: char where "quote \<equiv> CHR 0x22"

abbreviation (input) backslash :: char where "backslash \<equiv> CHR 0x5C"

definition escape_char :: "char \<Rightarrow> pystr" where
  "escape_char c =
     (if c = quote then [backslash, quote]
      else if c = backslash then [backslash, backslash]
      else if code c = 8 then [backslash, CHR ''b'']
      else if code c = 12 then [backslash, CHR ''f'']
      else if code c = 10 then [backslash, CHR ''n'']
      else if code c = 13 then [backslash, CHR ''r'']
      else if code c = 9 then [backslash, CHR ''t'']
      else if 32 \<le> code c \<and> code c \<le> 126 then [c]
      else [backslash, CHR ''u''] @ show_fixed 16 4 (code c))"

definition dumps_str :: "pystr \<Rightarrow> pystr" where
  "dumps_str s = quote # concat (map escape_char s) @ [quote]"

definition show_int :: "int \<Rightarrow> pystr" where
  "show_int i = (if i < 0 then CHR ''-'' # show_nat (nat (- i)) else show_nat (nat i))"

definition show_dec :: "int \<Rightarrow> pystr" where
  "show_dec n =
     (if n < 0 then ''-'' else []) @ show_nat (nat \<bar>n\<bar> div 10) @ ''.'' @ show_fixed 10 1 (nat \<bar>n\<bar> mod 10)"

fun dumps :: "json \<Rightarrow> pystr"
  and dumps_elems :: "json list \<Rightarrow> pystr"
  and dumps_members :: "(pystr \<times> json) list \<Rightarrow> pystr" where
  "dumps JNull = ''null''"
| "dumps (JBool b) = (if b then ''true'' else ''false'')"
| "dumps (JInt i) = show_int i"
| "dumps (JDec n) = show_dec n"
| "dumps (JStr s) = dumps_str s"
| "dumps (JArr xs) = CHR ''['' # dumps_elems xs @ '']''"
| "dumps (JObj kvs) = CHR ''{'' # dumps_members kvs @ ''}''"
| "dumps_elems [] = []"
| "dumps_elems [x] = dumps x"
| "dumps_elems (x # y # xs) = dumps x @ '', '' @ dumps_elems (y # xs)"
| "dumps_members [] = []"
| "dumps_members [(k, v)] = dumps_str k @ '': '' @ dumps v"
| "dumps_members ((k, v) # kv # kvs) = dumps_str k @ '': '' @ dumps v @ '', '' @ dumps_members (kv # kvs)"

section \<open>Reading\<close>

definition is_json_space :: "char \<Rightarrow> bool" where
  "is_json_space c \<longleftrightarrow> code c \<in> {9, 10, 13, 32}"

definition skip_ws :: "pystr \<Rightarrow> pystr" where
  "skip_ws s = dropWhile is_json_space s"

definition unescape :: "char \<Rightarrow> char option" where
  "unescape c =
     (if c \<in> {quote, backslash, CHR ''/''} then Some c
      else if c = CHR ''b'' then Some (char_of (8::nat))
      else if c = CHR ''f'' then Some (char_of (12::nat))
      else if c = CHR ''n'' then Some (char_of (10::nat))
      else if c = CHR ''r'' then Some (char_of (13::nat))
      else if c = CHR ''t'' then Some (char_of (9::nat))
      else None)"

definition cons_fst :: "char \<Rightarrow> (pystr \<times> pystr) option \<Rightarrow> (pystr \<times> pystr) option" where
  "cons_fst c r = map_option (\<lambda>(s, rest). (c # s, rest)) r"

text \<open>After the opening quote, up to the closing one.\<close>

function (sequential) parse_str :: "pystr \<Rightarrow> (pystr \<times> pystr) option" where
  "parse_str [] = None"
| "parse_str (c # s) =
     (if c = quote then Some ([], s)
      else if c = backslash then
        (if s = [] then None
         else if hd s = CHR ''u'' then
           (if length s < 5 then None
            else (case read_number 16 (take 4 (tl s)) of
                    None \<Rightarrow> None
                  | Some n \<Rightarrow> if n < 256 then cons_fst (char_of n) (parse_str (drop 5 s)) else None))
         else (case unescape (hd s) of None \<Rightarrow> None | Some x \<Rightarrow> cons_fst x (parse_str (tl s))))
      else if code c < 32 then None
      else cons_fst c (parse_str s))"
  by pat_completeness auto
termination
  by (relation "measure length") auto

declare parse_str.simps(2) [simp del]

definition parse_unsigned :: "bool \<Rightarrow> pystr \<Rightarrow> (json \<times> pystr) option" where
  "parse_unsigned neg u =
     (let ds = takeWhile is_ascii_digit u; r = dropWhile is_ascii_digit u
      in case read_number 10 ds of
           None \<Rightarrow> None
         | Some n \<Rightarrow>
             if length ds > 1 \<and> hd ds = CHR ''0'' then None
             else if r \<noteq> [] \<and> hd r = CHR ''.'' then
               (let fs = takeWhile is_ascii_digit (tl r)
                in case read_number 10 fs of
                     None \<Rightarrow> None
                   | Some f \<Rightarrow>
                       if length fs = 1
                       then Some (JDec (if neg then - int (n * 10 + f) else int (n * 10 + f)),
                                  dropWhile is_ascii_digit (tl r))
                       else None)
             else Some (JInt (if neg then - int n else int n), r))"

definition parse_number :: "pystr \<Rightarrow> (json \<times> pystr) option" where
  "parse_number s =
     (if s \<noteq> [] \<and> hd s = CHR ''-'' then parse_unsigned True (tl s) else parse_unsigned False s)"

definition dict_of :: "(pystr \<times> json) list \<Rightarrow> (pystr \<times> json) list" where
  "dict_of kvs = foldl (\<lambda>d (k, v). AList.update k v d) [] kvs"

definition strip_prefix :: "pystr \<Rightarrow> pystr \<Rightarrow> pystr option" where
  "strip_prefix p s = (if take (length p) s = p then Some (drop (length p) s) else None)"

fun parse_value :: "nat \<Rightarrow> pystr \<Rightarrow> (json \<times> pystr) option"
  and parse_elems :: "nat \<Rightarrow> pystr \<Rightarrow> (json list \<times> pystr) option"
  and parse_members :: "nat \<Rightarrow> pystr \<Rightarrow> ((pystr \<times> json) list \<times> pystr) option" where
  "parse_value 0 s = None"
| "parse_value (Suc f) s =
     (case skip_ws s of
        [] \<Rightarrow> None
      | c # r \<Rightarrow>
          if c = quote then map_option (\<lambda>(x, rest). (JStr x, rest)) (parse_str r)
          else if c = CHR ''['' then
            (if take 1 (skip_ws r) = '']'' then Some (JArr [], drop 1 (skip_ws r))
             else map_option (\<lambda>(xs, rest). (JArr xs, rest)) (parse_elems f r))
          else if c = CHR ''{'' then
            (if take 1 (skip_ws r) = ''}'' then Some (JObj [], drop 1 (skip_ws r))
             else map_option (\<lambda>(kvs, rest). (JObj (dict_of kvs), rest)) (parse_members f r))
          else (case strip_prefix ''null'' (c # r) of Some rest \<Rightarrow> Some (JNull, rest)
          | None \<Rightarrow> (case strip_prefix ''true'' (c # r) of Some rest \<Rightarrow> Some (JBool True, rest)
          | None \<Rightarrow> (case strip_prefix ''false'' (c # r) of Some rest \<Rightarrow> Some (JBool False, rest)
          | None \<Rightarrow> parse_number (c # r)))))"
| "parse_elems 0 s = None"
| "parse_elems (Suc f) s =
     (case parse_value f s of
        None \<Rightarrow> None
      | Some (x, r) \<Rightarrow>
          (case skip_ws r of
             [] \<Rightarrow> None
           | c # r' \<Rightarrow>
               if c = CHR '']'' then Some ([x], r')
               else if c = CHR '','' then
                 map_option (\<lambda>(xs, rest). (x # xs, rest)) (parse_elems f r')
               else None))"
| "parse_members 0 s = None"
| "parse_members (Suc f) s =
     (case skip_ws s of
        [] \<Rightarrow> None
      | q # r \<Rightarrow>
          if q \<noteq> quote then None
          else (case parse_str r of
                  None \<Rightarrow> None
                | Some (k, r1) \<Rightarrow>
                    if take 1 (skip_ws r1) \<noteq> '':'' then None
                    else (case parse_value f (drop 1 (skip_ws r1)) of
                            None \<Rightarrow> None
                          | Some (v, r2) \<Rightarrow>
                              (case skip_ws r2 of
                                 [] \<Rightarrow> None
                               | c # r3 \<Rightarrow>
                                   if c = CHR ''}'' then Some ([(k, v)], r3)
                                   else if c = CHR '','' then
                                     map_option (\<lambda>(kvs, rest). ((k, v) # kvs, rest)) (parse_members f r3)
                                   else None))))"

definition loads :: "pystr \<Rightarrow> json option" where
  "loads s =
     (case parse_value (Suc (length s)) s of
        Some (v, r) \<Rightarrow> if skip_ws r = [] then Some v else None
      | None \<Rightarrow> None)"

text \<open>Dictionary access: \<open>d.get(k)\<close> is \<open>JNull\<close> (Python's \<open>None\<close>) for an absent key.\<close>

fun obj_lookup :: "json \<Rightarrow> pystr \<Rightarrow> json option" where
  "obj_lookup (JObj kvs) k = map_of kvs k"
| "obj_lookup _ k = None"

definition obj_get :: "json \<Rightarrow> pystr \<Rightarrow> json" where
  "obj_get j k = (case obj_lookup j k of Some v \<Rightarrow> v | None \<Rightarrow> JNull)"

fun str_or_null :: "pystr option \<Rightarrow> json" where
  "str_or_null None = JNull"
| "str_or_null (Some s) = JStr s"

section \<open>Reading back what was written\<close>

text \<open>Dictionaries have distinct keys.\<close>

fun json_wf :: "json \<Rightarrow> bool" where
  "json_wf (JArr xs) = list_all json_wf xs"
| "json_wf (JObj kvs) = (distinct (map fst kvs) \<and> list_all (\<lambda>(k, v). json_wf v) kvs)"
| "json_wf _ = True"

lemma code_less: "code c < 256"
  by (simp add: code_def)

lemma char_of_code [simp]: "char_of (code c) = c"
  by (simp add: code_def)

lemma code_char_of: "n < 256 \<Longrightarrow> code (char_of n) = n"
  by (simp add: code_def)

lemma parse_str_unicode:
  "parse_str (backslash # CHR ''u'' # show_fixed 16 4 (code c) @ t) = cons_fst c (parse_str t)"
proof -
  have "read_number 16 (show_fixed 16 4 (code c)) = Some (code c)"
    using code_less [of c] by (simp add: read_show_fixed)
  moreover have "take 4 (show_fixed 16 4 (code c) @ t) = show_fixed 16 4 (code c)"
    "drop 4 (show_fixed 16 4 (code c) @ t) = t"
    by simp_all
  ultimately show ?thesis
    using code_less [of c] by (simp add: parse_str.simps(2) [of backslash] numeral_eq_Suc)
qed

lemma parse_str_escape: "parse_str (escape_char c @ t) = cons_fst c (parse_str t)"
proof -
  have num: "code c = n \<longleftrightarrow> c = char_of n" if "n < 256" for n
    using that code_char_of [of n] by (metis char_of_code)
  show ?thesis
  proof (cases "escape_char c = [backslash, CHR ''u''] @ show_fixed 16 4 (code c)")
    case True
    then show ?thesis by (simp add: parse_str_unicode)
  next
    case False
    then show ?thesis
      by (auto simp: escape_char_def num parse_str.simps(2) unescape_def split: if_splits)
  qed
qed

lemma parse_dumps_str:
  "parse_str (concat (map escape_char s) @ quote # rest) = Some (s, rest)"
  by (induction s) (simp_all add: parse_str.simps(2) parse_str_escape cons_fst_def)

definition json_stop :: "pystr \<Rightarrow> bool" where
  "json_stop rest \<longleftrightarrow> rest = [] \<or> hd rest \<in> {CHR '','', CHR '']'', CHR ''}''}"

lemma stop_simps [simp]:
  "json_stop []" "json_stop (CHR '','' # s)" "json_stop (CHR '']'' # s)" "json_stop (CHR ''}'' # s)"
  by (simp_all add: json_stop_def)

lemma digits_then:
  assumes "rest = [] \<or> \<not> is_ascii_digit (hd rest)"
  shows "takeWhile is_ascii_digit (show_nat n @ rest) = show_nat n"
    and "dropWhile is_ascii_digit (show_nat n @ rest) = rest"
proof -
  have "\<forall>c \<in> set (show_nat n). is_ascii_digit c" by (auto dest: show_nat_digit)
  then show "takeWhile is_ascii_digit (show_nat n @ rest) = show_nat n"
    "dropWhile is_ascii_digit (show_nat n @ rest) = rest"
    using assms by (cases rest; simp add: takeWhile_append2)+
qed

lemma json_stop_number: "json_stop rest \<Longrightarrow> rest = [] \<or> \<not> is_ascii_digit (hd rest) \<and> hd rest \<noteq> CHR ''.''"
  by (auto simp: json_stop_def is_ascii_digit_def code_def)

lemma show_nat_no_zero: "\<not> (length (show_nat n) > 1 \<and> hd (show_nat n) = CHR ''0'')"
  by (cases "n = 0") (auto simp: show_nat_0 hd_show_nat)

lemma show_nat_Cons:
  obtains c cs where "show_nat n = c # cs" "is_ascii_digit c"
proof -
  have "show_nat n = hd (show_nat n) # tl (show_nat n)" "is_ascii_digit (hd (show_nat n))"
    using show_nat_digit [of "hd (show_nat n)" n] by simp_all
  then show ?thesis using that by blast
qed

lemma hd_show_nat_digit: "hd (show_nat n @ r) \<noteq> CHR ''-''" "show_nat n @ r \<noteq> []"
proof -
  obtain c cs where "show_nat n = c # cs" "is_ascii_digit c" by (rule show_nat_Cons)
  then show "hd (show_nat n @ r) \<noteq> CHR ''-''" "show_nat n @ r \<noteq> []"
    by (auto simp: is_ascii_digit_def code_def)
qed

lemma parse_unsigned_int:
  assumes "json_stop rest"
  shows "parse_unsigned neg (show_nat n @ rest) = Some (JInt (if neg then - int n else int n), rest)"
proof -
  have "\<not> (rest \<noteq> [] \<and> hd rest = CHR ''.'')" using json_stop_number [OF assms] by auto
  moreover have "rest = [] \<or> \<not> is_ascii_digit (hd rest)" using json_stop_number [OF assms] by auto
  ultimately show ?thesis
    using show_nat_no_zero [of n]
    by (auto simp: parse_unsigned_def Let_def digits_then read_show_nat)
qed

lemma parse_number_int:
  "json_stop rest \<Longrightarrow> parse_number (show_int i @ rest) = Some (JInt i, rest)"
  using hd_show_nat_digit [of "nat i" rest]
  by (simp add: show_int_def parse_number_def parse_unsigned_int)

lemma show_fixed_digit1: "d < 10 \<Longrightarrow> show_fixed 10 1 d = show_nat d"
  by (simp add: show_fixed_def show_nat_def var_digits.simps [of 10 d])

lemma parse_unsigned_dec:
  assumes "json_stop rest" "b < 10"
  shows "parse_unsigned neg (show_nat a @ CHR ''.'' # show_nat b @ rest)
    = Some (JDec (if neg then - int (a * 10 + b) else int (a * 10 + b)), rest)"
proof -
  have l: "length (show_nat b) = 1" using show_fixed_digit1 [OF assms(2)] by (metis length_show_fixed)
  have r: "rest = [] \<or> \<not> is_ascii_digit (hd rest)" using json_stop_number [OF assms(1)] by auto
  have dot: "takeWhile is_ascii_digit (show_nat a @ CHR ''.'' # s) = show_nat a"
    "dropWhile is_ascii_digit (show_nat a @ CHR ''.'' # s) = CHR ''.'' # s" for s
    by (rule digits_then; simp add: is_ascii_digit_def code_def)+
  show ?thesis
    using show_nat_no_zero [of a]
    by (auto simp: parse_unsigned_def Let_def l dot digits_then [OF r] read_show_nat)
qed

lemma parse_number_dec:
  assumes "json_stop rest"
  shows "parse_number (show_dec n @ rest) = Some (JDec n, rest)"
proof -
  let ?a = "nat \<bar>n\<bar> div 10" and ?b = "nat \<bar>n\<bar> mod 10"
  have b: "show_fixed 10 1 ?b = show_nat ?b" by (rule show_fixed_digit1) simp
  have v: "int (?a * 10 + ?b) = \<bar>n\<bar>" by simp
  show ?thesis
    using hd_show_nat_digit [of ?a "[]"] hd_show_nat_digit [of "nat n div 10" "[]"] v
    by (simp add: show_dec_def parse_number_def b parse_unsigned_dec [OF assms] del: One_nat_def)
qed

lemma dict_of_distinct: "distinct (map fst kvs) \<Longrightarrow> dict_of kvs = kvs"
proof -
  have upd: "k \<notin> fst ` set d \<Longrightarrow> AList.update k v d = d @ [(k, v)]" for k v and d :: "(pystr \<times> json) list"
    by (induction d) auto
  have "distinct (map fst (d @ kvs)) \<Longrightarrow> foldl (\<lambda>d (k, v). AList.update k v d) d kvs = d @ kvs" for d
    by (induction kvs arbitrary: d) (auto simp: upd)
  then show "distinct (map fst kvs) \<Longrightarrow> dict_of kvs = kvs" by (simp add: dict_of_def)
qed

lemma dumps_start:
  obtains c cs where "dumps v = c # cs" "\<not> is_json_space c" "c \<noteq> CHR '']''" "c \<noteq> CHR ''}''"
proof -
  have "dumps v \<noteq> [] \<and> \<not> is_json_space (hd (dumps v)) \<and> hd (dumps v) \<noteq> CHR '']'' \<and> hd (dumps v) \<noteq> CHR ''}''"
  proof (cases v)
    case (JInt i)
    obtain c cs where "show_nat (nat i) = c # cs" "is_ascii_digit c" by (rule show_nat_Cons)
    with JInt show ?thesis by (auto simp: show_int_def is_json_space_def is_ascii_digit_def code_def)
  next
    case (JDec n)
    obtain c cs where "show_nat (nat \<bar>n\<bar> div 10) = c # cs" "is_ascii_digit c" by (rule show_nat_Cons)
    with JDec show ?thesis by (auto simp: show_dec_def is_json_space_def is_ascii_digit_def code_def)
  qed (auto simp: dumps_str_def is_json_space_def code_def)
  then show ?thesis using that by (metis list.collapse)
qed

lemma skip_ws_id: "s = [] \<or> \<not> is_json_space (hd s) \<Longrightarrow> skip_ws s = s"
  by (cases s) (auto simp: skip_ws_def)

lemma skip_ws_dumps [simp]: "skip_ws (dumps v @ r) = dumps v @ r"
proof -
  obtain c cs where "dumps v = c # cs" "\<not> is_json_space c" by (rule dumps_start)
  then show ?thesis by (simp add: skip_ws_def)
qed

lemma skip_ws_simps [simp]:
  "skip_ws [] = []" "skip_ws (CHR '','' # s) = CHR '','' # s" "skip_ws (CHR '']'' # s) = CHR '']'' # s"
  "skip_ws (CHR ''}'' # s) = CHR ''}'' # s" "skip_ws (CHR '':'' # s) = CHR '':'' # s"
  "skip_ws (quote # s) = quote # s" "skip_ws (CHR '' '' # s) = skip_ws s"
  by (simp_all add: skip_ws_def is_json_space_def code_def)

lemma parse_value_space [simp]: "parse_value f (CHR '' '' # s) = parse_value f s"
  by (cases f) simp_all

lemma parse_elems_space [simp]: "parse_elems f (CHR '' '' # s) = parse_elems f s"
  by (cases f) simp_all

lemma parse_members_space [simp]: "parse_members f (CHR '' '' # s) = parse_members f s"
  by (cases f) simp_all

lemma dumps_elems_start:
  assumes "xs \<noteq> []"
  obtains c cs where "dumps_elems xs = c # cs" "\<not> is_json_space c" "c \<noteq> CHR '']''"
proof -
  obtain x ys where xs: "xs = x # ys" using assms by (cases xs) auto
  obtain c cs where "dumps x = c # cs" "\<not> is_json_space c" "c \<noteq> CHR '']''" by (rule dumps_start)
  then show ?thesis using that xs by (cases ys) auto
qed

lemma dumps_members_start:
  assumes "kvs \<noteq> []"
  obtains cs where "dumps_members kvs = quote # cs"
  using assms that by (cases kvs rule: dumps_members.cases) (auto simp: dumps_str_def)

lemma parse_number_start:
  assumes "v = JInt i \<or> v = JDec n" "json_stop rest"
  shows "parse_value (Suc f) (dumps v @ rest) = Some (v, rest)"
proof -
  obtain c cs where c: "dumps v = c # cs" "\<not> is_json_space c" by (rule dumps_start)
  have "is_ascii_digit c \<or> c = CHR ''-''"
  proof -
    obtain d ds where "show_nat (nat i) = d # ds" "is_ascii_digit d" by (rule show_nat_Cons)
    moreover obtain e es where "show_nat (nat \<bar>n\<bar> div 10) = e # es" "is_ascii_digit e" by (rule show_nat_Cons)
    ultimately show ?thesis
      using assms(1) c by (auto simp: show_int_def show_dec_def split: if_splits)
  qed
  then have "c \<noteq> quote" "c \<noteq> CHR ''[''" "c \<noteq> CHR ''{''" "c \<noteq> CHR ''n''" "c \<noteq> CHR ''t''" "c \<noteq> CHR ''f''"
    by (auto simp: is_ascii_digit_def code_def)
  moreover have "parse_number (dumps v @ rest) = Some (v, rest)"
    using assms parse_number_int parse_number_dec by auto
  ultimately show ?thesis
    using c by (simp add: skip_ws_id strip_prefix_def)
qed

lemma parse_dumps:
  "json_wf v \<Longrightarrow> json_stop rest \<Longrightarrow> length (dumps v) < f \<Longrightarrow>
    parse_value f (dumps v @ rest) = Some (v, rest)"
  "list_all json_wf xs \<Longrightarrow> xs \<noteq> [] \<Longrightarrow> Suc (length (dumps_elems xs)) < f \<Longrightarrow>
    parse_elems f (dumps_elems xs @ CHR '']'' # rest) = Some (xs, rest)"
  "list_all (\<lambda>(k, v). json_wf v) kvs \<Longrightarrow> kvs \<noteq> [] \<Longrightarrow> Suc (length (dumps_members kvs)) < f \<Longrightarrow>
    parse_members f (dumps_members kvs @ CHR ''}'' # rest) = Some (kvs, rest)"
proof (induction v and xs and kvs arbitrary: f rest and f rest and f rest
    rule: dumps_dumps_elems_dumps_members.induct)
  case 1
  then show ?case by (cases f) (simp_all add: skip_ws_def is_json_space_def code_def strip_prefix_def)
next
  case (2 b)
  then show ?case by (cases f) (simp_all add: skip_ws_def is_json_space_def code_def strip_prefix_def)
next
  case (3 i)
  then show ?case using parse_number_start [of "JInt i" i undefined] by (cases f) simp_all
next
  case (4 n)
  then show ?case using parse_number_start [of "JDec n" undefined n] by (cases f) simp_all
next
  case (5 s)
  then show ?case by (cases f) (simp_all add: dumps_str_def parse_dumps_str)
next
  case (6 xs)
  obtain g where f: "f = Suc g" using 6 by (cases f) auto
  have ws: "skip_ws (CHR ''['' # s) = CHR ''['' # s" for s
    by (simp add: skip_ws_def is_json_space_def code_def)
  show ?case
  proof (cases "xs = []")
    case True
    then show ?thesis by (simp add: f ws)
  next
    case False
    obtain c cs where "dumps_elems xs = c # cs" "\<not> is_json_space c" "c \<noteq> CHR '']''"
      using False by (rule dumps_elems_start)
    then have "take 1 (skip_ws (dumps_elems xs @ CHR '']'' # rest)) \<noteq> '']''"
      by (simp add: skip_ws_id)
    with 6 False show ?thesis by (simp add: f ws)
  qed
next
  case (7 kvs)
  obtain g where f: "f = Suc g" using 7 by (cases f) auto
  have ws: "skip_ws (CHR ''{'' # s) = CHR ''{'' # s" for s
    by (simp add: skip_ws_def is_json_space_def code_def)
  show ?case
  proof (cases "kvs = []")
    case True
    then show ?thesis by (simp add: f ws)
  next
    case False
    obtain cs where cs: "dumps_members kvs = quote # cs"
      using False by (rule dumps_members_start)
    with 7 False show ?thesis by (simp add: f ws dict_of_distinct)
  qed
next
  case 8
  then show ?case by simp
next
  case (9 x)
  obtain g where f: "f = Suc g" using 9 by (cases f) auto
  with 9 show ?case by simp
next
  case (10 x y xs)
  obtain g where f: "f = Suc g" using 10 by (cases f) auto
  with 10 show ?case by simp
next
  case 11
  then show ?case by simp
next
  case (12 k v)
  obtain g where f: "f = Suc g" using 12 by (cases f) auto
  with 12 show ?case by (simp add: dumps_str_def parse_dumps_str)
next
  case (13 k v kv kvs)
  obtain g where f: "f = Suc g" using 13 by (cases f) auto
  with 13 show ?case by (simp add: dumps_str_def parse_dumps_str)
qed

theorem loads_dumps: "json_wf v \<Longrightarrow> loads (dumps v) = Some v"
  using parse_dumps(1) [of v "[]" "Suc (length (dumps v))"] by (simp add: loads_def)

end
