(* ===== verification/Redis.thy ===== *)
theory Redis
  imports App_Core Py_Time Py_Json
begin

text \<open>
  The Redis server, which is not part of the repository.  The commands the code sends are the
  fields of a record that every definition of the caches takes as an argument; the first argument
  of a command is the server's clock.  The locale \<open>redis_server\<close> states what the command
  reference promises, through the observation \<open>look r t k\<close>: the value a client finds under \<open>k\<close> at
  time \<open>t\<close> if no further command is sent.  The last section discharges the locale on a store that
  keeps every value with its deadline.
\<close>

section \<open>Values and commands\<close>

datatype redis_value =
    RStr pystr
  | RList "pystr list"
  | RZset "(pystr \<times> instant) list"

record 'r redis_ops =
  redis_get :: "instant \<Rightarrow> pystr \<Rightarrow> 'r \<Rightarrow> pystr option"
  redis_setex :: "instant \<Rightarrow> pystr \<Rightarrow> int \<Rightarrow> pystr \<Rightarrow> 'r \<Rightarrow> 'r"
  redis_delete :: "pystr list \<Rightarrow> 'r \<Rightarrow> 'r"
  redis_incr :: "instant \<Rightarrow> pystr \<Rightarrow> 'r \<Rightarrow> int \<times> 'r"
  redis_expire :: "instant \<Rightarrow> pystr \<Rightarrow> int \<Rightarrow> 'r \<Rightarrow> 'r"
  redis_rpush :: "instant \<Rightarrow> pystr \<Rightarrow> pystr \<Rightarrow> 'r \<Rightarrow> 'r"
  redis_llen :: "instant \<Rightarrow> pystr \<Rightarrow> 'r \<Rightarrow> int"
  redis_lmpop :: "instant \<Rightarrow> pystr \<Rightarrow> nat \<Rightarrow> 'r \<Rightarrow> pystr list option \<times> 'r"
  redis_zremrangebyscore :: "instant \<Rightarrow> pystr \<Rightarrow> instant \<Rightarrow> 'r \<Rightarrow> 'r"
  redis_zcard :: "instant \<Rightarrow> pystr \<Rightarrow> 'r \<Rightarrow> int"
  redis_zadd :: "instant \<Rightarrow> pystr \<Rightarrow> instant \<Rightarrow> pystr \<Rightarrow> 'r \<Rightarrow> 'r"

text \<open>The members of a list or sorted set: an absent key is an empty collection.\<close>

fun list_items :: "redis_value option \<Rightarrow> pystr list" where
  "list_items (Some (RList xs)) = xs"
| "list_items _ = []"

fun zset_items :: "redis_value option \<Rightarrow> (pystr \<times> instant) list" where
  "zset_items (Some (RZset zs)) = zs"
| "zset_items _ = []"

fun is_list :: "redis_value option \<Rightarrow> bool" where
  "is_list None = True"
| "is_list (Some (RList xs)) = (xs \<noteq> [])"
| "is_list _ = False"

fun is_zset :: "redis_value option \<Rightarrow> bool" where
  "is_zset None = True"
| "is_zset (Some (RZset zs)) = (zs \<noteq> [])"
| "is_zset _ = False"

definition wrap_list :: "pystr list \<Rightarrow> redis_value option" where
  "wrap_list xs = (if xs = [] then None else Some (RList xs))"

definition wrap_zset :: "(pystr \<times> instant) list \<Rightarrow> redis_value option" where
  "wrap_zset zs = (if zs = [] then None else Some (RZset zs))"

lemma items_wrap [simp]:
  "list_items (wrap_list xs) = xs" "zset_items (wrap_zset zs) = zs"
  "is_list (wrap_list xs)" "is_zset (wrap_zset zs)"
  by (auto simp: wrap_list_def wrap_zset_def)

lemma wrap_items: "is_list v \<Longrightarrow> wrap_list (list_items v) = v"
  "is_zset v \<Longrightarrow> wrap_zset (zset_items v) = v"
  by (cases v rule: is_list.cases; simp add: wrap_list_def)
    (cases v rule: is_zset.cases; simp add: wrap_zset_def)

section \<open>What the command reference promises\<close>

text \<open>
  \<open>lasting r t k\<close>: the key carries no deadline after \<open>t\<close>.  \<open>persist u v\<close> is \<open>v\<close> as long as the
  key, observed as \<open>u\<close>, has not expired: commands that modify a value keep its deadline.
\<close>

definition persist :: "'a option \<Rightarrow> 'b option \<Rightarrow> 'b option" where
  "persist u v = (if u = None then None else v)"

lemma persist_simps [simp]:
  "persist None v = None" "persist (Some x) v = v" "persist u None = None"
  by (auto simp: persist_def)

locale redis_server =
  fixes R :: "('r, 'x) redis_ops_scheme"
    and look :: "'r \<Rightarrow> instant \<Rightarrow> pystr \<Rightarrow> redis_value option"
  assumes look_fades: "look r t' k = Some v \<Longrightarrow> t \<le> t' \<Longrightarrow> look r t k = Some v"
    and get_hit: "look r t k = Some (RStr s) \<Longrightarrow> redis_get R t k r = Some s"
    and get_miss: "look r t k = None \<Longrightarrow> redis_get R t k r = None"
    and get_cong: "look r t k = look r' t' k' \<Longrightarrow> redis_get R t k r = redis_get R t' k' r'"
    and look_setex: "0 < ttl \<Longrightarrow> t \<le> t' \<Longrightarrow>
      look (redis_setex R t k ttl s r) t' k' =
        (if k' = k then if t' < t + timedelta_seconds ttl then Some (RStr s) else None
         else look r t' k')"
    and look_delete: "look (redis_delete R ks r) t' k' = (if k' \<in> set ks then None else look r t' k')"
    and incr_fresh: "look r t k = None \<Longrightarrow> fst (redis_incr R t k r) = 1"
    and incr_value: "look r t k = Some (RStr (show_int n)) \<Longrightarrow> fst (redis_incr R t k r) = n + 1"
    and look_incr_fresh: "look r t k = None \<Longrightarrow> t \<le> t' \<Longrightarrow>
      look (snd (redis_incr R t k r)) t' k = Some (RStr (show_int 1))"
    and look_incr: "look r t k = Some (RStr (show_int n)) \<Longrightarrow> t \<le> t' \<Longrightarrow>
      look (snd (redis_incr R t k r)) t' k = persist (look r t' k) (Some (RStr (show_int (n + 1))))"
    and look_incr_other: "k' \<noteq> k \<Longrightarrow> t \<le> t' \<Longrightarrow> look (snd (redis_incr R t k r)) t' k' = look r t' k'"
    and look_expire: "t \<le> t' \<Longrightarrow>
      look (redis_expire R t k ttl r) t' k' =
        (if k' = k then if t' < t + timedelta_seconds ttl then look r t k else None else look r t' k')"
    and look_rpush: "is_list (look r t k) \<Longrightarrow> t \<le> t' \<Longrightarrow>
      look (redis_rpush R t k x r) t' k =
        (if look r t k = None then Some (RList [x])
         else persist (look r t' k) (Some (RList (list_items (look r t k) @ [x]))))"
    and look_rpush_other: "k' \<noteq> k \<Longrightarrow> t \<le> t' \<Longrightarrow> look (redis_rpush R t k x r) t' k' = look r t' k'"
    and llen: "is_list (look r t k) \<Longrightarrow> redis_llen R t k r = int (length (list_items (look r t k)))"
    and lmpop_value: "is_list (look r t k) \<Longrightarrow> 0 < cnt \<Longrightarrow> fst (redis_lmpop R t k cnt r) =
      (if look r t k = None then None else Some (take cnt (list_items (look r t k))))"
    and look_lmpop: "is_list (look r t k) \<Longrightarrow> 0 < cnt \<Longrightarrow> t \<le> t' \<Longrightarrow>
      look (snd (redis_lmpop R t k cnt r)) t' k =
        persist (look r t' k) (wrap_list (drop cnt (list_items (look r t k))))"
    and look_lmpop_other: "k' \<noteq> k \<Longrightarrow> t \<le> t' \<Longrightarrow>
      look (snd (redis_lmpop R t k cnt r)) t' k' = look r t' k'"
    and look_zrem: "is_zset (look r t k) \<Longrightarrow> t \<le> t' \<Longrightarrow>
      look (redis_zremrangebyscore R t k lo r) t' k =
        persist (look r t' k) (wrap_zset (filter (\<lambda>(m, sc). lo < sc) (zset_items (look r t k))))"
    and look_zrem_other: "k' \<noteq> k \<Longrightarrow> t \<le> t' \<Longrightarrow>
      look (redis_zremrangebyscore R t k lo r) t' k' = look r t' k'"
    and zcard: "is_zset (look r t k) \<Longrightarrow> redis_zcard R t k r = int (length (zset_items (look r t k)))"
    and look_zadd: "is_zset (look r t k) \<Longrightarrow> t \<le> t' \<Longrightarrow>
      look (redis_zadd R t k sc m r) t' k =
        (if look r t k = None then Some (RZset [(m, sc)])
         else persist (look r t' k) (Some (RZset (AList.update m sc (zset_items (look r t k))))))"
    and look_zadd_other: "k' \<noteq> k \<Longrightarrow> t \<le> t' \<Longrightarrow> look (redis_zadd R t k sc m r) t' k' = look r t' k'"
begin

lemma look_gone: "look r t k = None \<Longrightarrow> t \<le> t' \<Longrightarrow> look r t' k = None"
  using look_fades [of r t' k _ t] by (cases "look r t' k") auto

lemma look_same: "look r t' k = None \<or> look r t' k = look r t k" if "t \<le> t'"
  using look_fades [OF _ that, of r k] by (cases "look r t' k") auto

lemma look_set_expire: "look r t k = Some v \<Longrightarrow> t \<le> t' \<Longrightarrow>
    look (redis_expire R t k ttl r) t' k = (if t' < t + timedelta_seconds ttl then Some v else None)"
  by (simp add: look_expire)

end

section \<open>A store with deadlines\<close>

text \<open>
  Every key has a value and an optional deadline; an expired entry is invisible, and a write to it
  starts afresh.
\<close>

type_synonym keyspace = "pystr \<Rightarrow> (redis_value \<times> instant option) option"

fun alive :: "instant \<Rightarrow> instant option \<Rightarrow> bool" where
  "alive t None = True"
| "alive t (Some d) = (t < d)"

definition store_look :: "keyspace \<Rightarrow> instant \<Rightarrow> pystr \<Rightarrow> redis_value option" where
  "store_look ks t k = (case ks k of None \<Rightarrow> None | Some (v, d) \<Rightarrow> if alive t d then Some v else None)"

text \<open>\<open>store_modify\<close> keeps the deadline of a live key and gives a new key none.\<close>

definition store_modify :: "instant \<Rightarrow> pystr \<Rightarrow> (redis_value option \<Rightarrow> redis_value option) \<Rightarrow> keyspace \<Rightarrow> keyspace" where
  "store_modify t k f ks =
     (case store_look ks t k of
        None \<Rightarrow> ks(k := map_option (\<lambda>v. (v, None)) (f None))
      | Some u \<Rightarrow> ks(k := map_option (\<lambda>v. (v, snd (the (ks k)))) (f (Some u))))"

fun string_of_value :: "redis_value option \<Rightarrow> pystr option" where
  "string_of_value (Some (RStr s)) = Some s"
| "string_of_value _ = None"

definition int_of_str :: "pystr \<Rightarrow> int option" where
  "int_of_str s =
     (if s \<noteq> [] \<and> hd s = CHR ''-'' then map_option (\<lambda>n. - int n) (read_number 10 (tl s))
      else map_option int (read_number 10 s))"

definition counter_of :: "redis_value option \<Rightarrow> int" where
  "counter_of v = (case string_of_value v of None \<Rightarrow> 0 | Some s \<Rightarrow> (case int_of_str s of None \<Rightarrow> 0 | Some n \<Rightarrow> n))"

definition store_expire :: "instant \<Rightarrow> pystr \<Rightarrow> int \<Rightarrow> keyspace \<Rightarrow> keyspace" where
  "store_expire t k ttl ks =
     (case store_look ks t k of
        None \<Rightarrow> ks(k := None)
      | Some v \<Rightarrow> ks(k := Some (v, Some (t + timedelta_seconds ttl))))"

definition store_ops :: "keyspace redis_ops" where
  "store_ops =
     \<lparr>redis_get = (\<lambda>t k ks. string_of_value (store_look ks t k)),
      redis_setex = (\<lambda>t k ttl s ks. ks(k := Some (RStr s, Some (t + timedelta_seconds ttl)))),
      redis_delete = (\<lambda>keys ks k. if k \<in> set keys then None else ks k),
      redis_incr = (\<lambda>t k ks.
        (counter_of (store_look ks t k) + 1,
         store_modify t k (\<lambda>v. Some (RStr (show_int (counter_of v + 1)))) ks)),
      redis_expire = store_expire,
      redis_rpush = (\<lambda>t k x. store_modify t k (\<lambda>v. Some (RList (list_items v @ [x])))),
      redis_llen = (\<lambda>t k ks. int (length (list_items (store_look ks t k)))),
      redis_lmpop = (\<lambda>t k n ks.
        (if store_look ks t k = None then None else Some (take n (list_items (store_look ks t k))),
         store_modify t k (\<lambda>v. wrap_list (drop n (list_items v))) ks)),
      redis_zremrangebyscore = (\<lambda>t k s. store_modify t k (\<lambda>v. wrap_zset (filter (\<lambda>(m, sc). s < sc) (zset_items v)))),
      redis_zcard = (\<lambda>t k ks. int (length (zset_items (store_look ks t k)))),
      redis_zadd = (\<lambda>t k s m. store_modify t k (\<lambda>v. Some (RZset (AList.update m s (zset_items v)))))\<rparr>"

lemma store_look_modify:
  assumes "t \<le> t'" shows "store_look (store_modify t k f ks) t' k' =
    (if k' = k then if store_look ks t k = None then f None else persist (store_look ks t' k) (f (store_look ks t k))
     else store_look ks t' k')"
proof -
  have "alive t d" if "alive t' d" for d using that assms by (cases d) auto
  then show ?thesis
    by (auto simp: store_modify_def store_look_def map_option_case split: option.splits)
qed

lemma store_fades: "store_look ks t' k = Some v \<Longrightarrow> t \<le> t' \<Longrightarrow> store_look ks t k = Some v"
proof -
  have "alive t d" if "alive t' d" "t \<le> t'" for d using that by (cases d) auto
  then show "store_look ks t' k = Some v \<Longrightarrow> t \<le> t' \<Longrightarrow> store_look ks t k = Some v"
    by (auto simp: store_look_def split: option.splits if_splits)
qed

lemma int_of_show_int: "int_of_str (show_int n) = Some n"
proof (cases "n < 0")
  case True
  then show ?thesis by (simp add: int_of_str_def show_int_def read_show_nat)
next
  case False
  have "hd (show_nat (nat n)) \<noteq> CHR ''-''"
    using hd_show_nat_digit(1) [of "nat n" "[]"] by simp
  with False show ?thesis by (simp add: int_of_str_def show_int_def read_show_nat)
qed

lemma store_look_upd [simp]:
  "store_look (ks(k := e)) t k' = (if k' = k then store_look (\<lambda>_. e) t k else store_look ks t k')"
  "store_look (\<lambda>_. None) t k = None"
  "store_look (\<lambda>_. Some (v, d)) t k = (if alive t d then Some v else None)"
  by (simp_all add: store_look_def)

lemma store_look_if [simp]:
  "store_look (\<lambda>k. if k \<in> K then None else ks k) t k' = (if k' \<in> K then None else store_look ks t k')"
  by (simp add: store_look_def)

interpretation store: redis_server store_ops store_look
proof
  fix ks :: keyspace and t t' :: instant and k :: pystr and v :: redis_value
  show "store_look ks t' k = Some v \<Longrightarrow> t \<le> t' \<Longrightarrow> store_look ks t k = Some v"
    by (rule store_fades)
next
  fix ks :: keyspace and t t' ttl :: int and k k' :: pystr
  show "t \<le> t' \<Longrightarrow> store_look (redis_expire store_ops t k ttl ks) t' k' =
      (if k' = k then if t' < t + timedelta_seconds ttl then store_look ks t k else None else store_look ks t' k')"
    by (auto simp: store_ops_def store_expire_def split: option.splits)
next
  fix ks :: keyspace and t t' :: instant and k :: pystr and lo :: instant
  assume "t \<le> t'"
  then have "store_look ks t' k = None" if "store_look ks t k = None"
    using store_fades [of ks t' k _ t] that by (cases "store_look ks t' k") auto
  then show "store_look (redis_zremrangebyscore store_ops t k lo ks) t' k =
      persist (store_look ks t' k) (wrap_zset (filter (\<lambda>(m, sc). lo < sc) (zset_items (store_look ks t k))))"
    using \<open>t \<le> t'\<close> by (auto simp: store_ops_def store_look_modify wrap_zset_def)
next
  fix ks :: keyspace and t t' :: instant and k :: pystr and cnt :: nat
  assume "t \<le> t'"
  then have "store_look ks t' k = None" if "store_look ks t k = None"
    using store_fades [of ks t' k _ t] that by (cases "store_look ks t' k") auto
  then show "store_look (snd (redis_lmpop store_ops t k cnt ks)) t' k =
      persist (store_look ks t' k) (wrap_list (drop cnt (list_items (store_look ks t k))))"
    using \<open>t \<le> t'\<close> by (auto simp: store_ops_def store_look_modify wrap_list_def)
qed (auto simp: store_ops_def store_look_modify counter_of_def int_of_show_int)

end
