(* ===== verification/Url_Cache.thy ===== *)
theory Url_Cache
  imports Redis
begin

text \<open>
  \<open>app/cache/url_cache.py\<close>: the cache-aside layer in front of the table of links.  The locale
  \<open>ttl_cache\<close> is the contract of every cache of the service (links, summaries, QR images): what a
  lookup returns after a write, after an invalidation and after time has passed.  \<open>touch_cache\<close>
  adds the operation that may prolong an entry.  The client lemmas about what a cache can hold at
  all are proved once in these locales.
\<close>

section \<open>The contract of a cache\<close>

text \<open>
  \<open>holds get P t r\<close>: whatever the cache returns at \<open>t\<close> satisfies \<open>P\<close>, key by key.  This is the
  shape of every statement about stale data.
\<close>

definition holds :: "(instant \<Rightarrow> pystr \<Rightarrow> 'r \<Rightarrow> 'v option result) \<Rightarrow> (pystr \<Rightarrow> 'v \<Rightarrow> bool) \<Rightarrow> instant \<Rightarrow> 'r \<Rightarrow> bool" where
  "holds get P t r \<longleftrightarrow> (\<forall>c. get t c r = Inr None \<or> (\<exists>v. get t c r = Inr (Some v) \<and> P c v))"

locale ttl_cache =
  fixes get :: "instant \<Rightarrow> pystr \<Rightarrow> 'r \<Rightarrow> 'v option result"
    and put :: "instant \<Rightarrow> pystr \<Rightarrow> 'v \<Rightarrow> 'r \<Rightarrow> 'r"
    and drop_key :: "pystr \<Rightarrow> 'r \<Rightarrow> 'r"
    and storable :: "'v \<Rightarrow> bool"
    and lifetime :: int
  assumes get_put_same: "storable v \<Longrightarrow> t \<le> t' \<Longrightarrow>
      get t' c (put t c v r) = Inr (if t' < t + lifetime then Some v else None)"
    and get_put_other: "c' \<noteq> c \<Longrightarrow> t \<le> t' \<Longrightarrow> get t' c' (put t c v r) = get t' c' r"
    and get_drop: "get t' c' (drop_key c r) = (if c' = c then Inr None else get t' c' r)"
    and get_fades: "t \<le> t' \<Longrightarrow> get t' c r = Inr None \<or> get t' c r = get t c r"
begin

lemma holdsI: "(\<And>c. get t c r = Inr None \<or> (\<exists>v. get t c r = Inr (Some v) \<and> P c v)) \<Longrightarrow> holds get P t r"
  by (simp add: holds_def)

lemma holds_later: "holds get P t r \<Longrightarrow> t \<le> t' \<Longrightarrow> holds get P t' r"
  unfolding holds_def by (metis get_fades)

lemma holds_put:
  assumes "holds get P t r" "storable v" "P c v" "t \<le> t'"
  shows "holds get P t' (put t c v r)"
proof (rule holdsI)
  fix c'
  show "get t' c' (put t c v r) = Inr None \<or>
      (\<exists>u. get t' c' (put t c v r) = Inr (Some u) \<and> P c' u)"
  proof (cases "c' = c")
    case True
    then show ?thesis using assms by (simp add: get_put_same)
  next
    case False
    then show ?thesis
      using holds_later [OF assms(1,4)] assms(4) by (simp add: get_put_other holds_def)
  qed
qed

lemma holds_drop: "holds get P t r \<Longrightarrow> holds get P t (drop_key c r)"
  by (simp add: holds_def get_drop)

text \<open>Dropping a key is what allows the predicate to change there.\<close>

lemma holds_drop_change:
  "holds get P t r \<Longrightarrow> (\<And>c' v. c' \<noteq> c \<Longrightarrow> P c' v \<Longrightarrow> Q c' v) \<Longrightarrow> holds get Q t (drop_key c r)"
  unfolding holds_def by (metis get_drop)

lemma holds_mono: "holds get P t r \<Longrightarrow> (\<And>c v. P c v \<Longrightarrow> Q c v) \<Longrightarrow> holds get Q t r"
  unfolding holds_def by metis

lemma holdsE:
  assumes "holds get P t r"
  obtains "get t c r = Inr None" | v where "get t c r = Inr (Some v)" "P c v"
  using assms by (auto simp: holds_def)

lemma holds_congr: "(\<And>c. get t c r' = get t c r) \<Longrightarrow> holds get P t r \<Longrightarrow> holds get P t r'"
  by (simp add: holds_def)

end

locale touch_cache = ttl_cache get put drop_key storable lifetime
  for get :: "instant \<Rightarrow> pystr \<Rightarrow> 'r \<Rightarrow> 'v option result"
    and put :: "instant \<Rightarrow> pystr \<Rightarrow> 'v \<Rightarrow> 'r \<Rightarrow> 'r"
    and drop_key :: "pystr \<Rightarrow> 'r \<Rightarrow> 'r"
    and storable :: "'v \<Rightarrow> bool"
    and lifetime :: int +
  fixes touch :: "instant \<Rightarrow> pystr \<Rightarrow> 'r \<Rightarrow> 'r"
  assumes get_touch: "t \<le> t' \<Longrightarrow>
      get t' c' (touch t c r) = get t' c' r \<or> get t' c' (touch t c r) = get t c' r \<or>
      get t' c' (touch t c r) = Inr None"
begin

lemma holds_touch: "holds get P t r \<Longrightarrow> t \<le> t' \<Longrightarrow> holds get P t' (touch t c r)"
  unfolding holds_def by (metis get_touch get_fades)

end

section \<open>\<open>URLCache\<close>\<close>

definition url_key :: "pystr \<Rightarrow> pystr" where
  "url_key short_code = ''url:'' @ short_code"

definition hot_key :: "pystr \<Rightarrow> pystr" where
  "hot_key short_code = ''hot:'' @ short_code"

definition url_cache_get :: "('r, 'x) redis_ops_scheme \<Rightarrow> instant \<Rightarrow> pystr \<Rightarrow> 'r \<Rightarrow> json option result" where
  "url_cache_get R now short_code r =
     (case redis_get R now (url_key short_code) r of
        None \<Rightarrow> Inr None
      | Some raw \<Rightarrow> (case loads raw of None \<Rightarrow> Inl PyValueError | Some v \<Rightarrow> Inr (Some v)))"

definition url_cache_set ::
  "('r, 'x) redis_ops_scheme \<Rightarrow> settings \<Rightarrow> instant \<Rightarrow> pystr \<Rightarrow> json \<Rightarrow> int option \<Rightarrow> 'r \<Rightarrow> 'r" where
  "url_cache_set R cfg now short_code data ttl_arg r =
     (let ttl = (case ttl_arg of Some n \<Rightarrow> if n = 0 then URL_CACHE_TTL cfg else n | None \<Rightarrow> URL_CACHE_TTL cfg)
      in redis_setex R now (url_key short_code) ttl (dumps data) r)"

definition url_cache_delete :: "('r, 'x) redis_ops_scheme \<Rightarrow> pystr \<Rightarrow> 'r \<Rightarrow> 'r" where
  "url_cache_delete R short_code r = redis_delete R [url_key short_code, hot_key short_code] r"

definition track_click ::
  "('r, 'x) redis_ops_scheme \<Rightarrow> settings \<Rightarrow> instant \<Rightarrow> pystr \<Rightarrow> 'r \<Rightarrow> int \<times> 'r" where
  "track_click R cfg now short_code r =
     (let (count, r1) = redis_incr R now (hot_key short_code) r;
          r2 = redis_expire R now (hot_key short_code) 3600 r1;
          r3 = (if count \<ge> HOT_URL_CLICK_THRESHOLD cfg
                then redis_expire R now (url_key short_code) (URL_CACHE_TTL cfg * 2) r2 else r2)
      in (count, r3))"

definition invalidate_many :: "('r, 'x) redis_ops_scheme \<Rightarrow> pystr list \<Rightarrow> 'r \<Rightarrow> 'r" where
  "invalidate_many R short_codes r =
     (if short_codes \<noteq> [] then redis_delete R (map url_key short_codes @ map hot_key short_codes) r
      else r)"

lemma cache_keys_distinct [simp]:
  "url_key a = url_key b \<longleftrightarrow> a = b" "hot_key a = hot_key b \<longleftrightarrow> a = b"
  "url_key a \<noteq> hot_key b" "hot_key b \<noteq> url_key a"
  by (simp_all add: url_key_def hot_key_def)

section \<open>Redis keeps the contract\<close>

text \<open>
  The settings a deployment must satisfy for \<open>SETEX\<close> and \<open>EXPIRE\<close> to be accepted.
\<close>

locale shortener_redis = redis_server +
  fixes cfg :: settings
  assumes ttl_positive: "0 < URL_CACHE_TTL cfg" "0 < ANALYTICS_CACHE_TTL cfg" "0 < QR_CACHE_TTL cfg"
begin

lemma url_get_miss: "look r t (url_key c) = None \<Longrightarrow> url_cache_get R t c r = Inr None"
  by (simp add: url_cache_get_def get_miss)

lemma url_get_hit:
  "json_wf d \<Longrightarrow> look r t (url_key c) = Some (RStr (dumps d)) \<Longrightarrow> url_cache_get R t c r = Inr (Some d)"
  by (simp add: url_cache_get_def get_hit loads_dumps)

lemma url_get_cong:
  "look r t (url_key c) = look r' t' (url_key c') \<Longrightarrow> url_cache_get R t c r = url_cache_get R t' c' r'"
  unfolding url_cache_get_def by (simp add: get_cong [of r t "url_key c" r' t' "url_key c'"])

lemma look_track:
  assumes "t \<le> t'" "k \<noteq> hot_key c"
  shows "look (snd (track_click R cfg t c r)) t' k =
    (if k = url_key c \<and> fst (track_click R cfg t c r) \<ge> HOT_URL_CLICK_THRESHOLD cfg
     then if t' < t + timedelta_seconds (URL_CACHE_TTL cfg * 2) then look r t k else None
     else look r t' k)"
proof -
  obtain n r1 where i: "redis_incr R t (hot_key c) r = (n, r1)" by force
  define r2 where "r2 = redis_expire R t (hot_key c) 3600 r1"
  have r1: "look r1 u k = look r u k" if "t \<le> u" for u
    using look_incr_other [of k "hot_key c" t u r] that assms(2) i by simp
  have "look r2 u k = look r u k" if "t \<le> u" for u
    using r1 that assms(2) by (simp add: r2_def look_expire)
  moreover have "track_click R cfg t c r =
      (n, if HOT_URL_CLICK_THRESHOLD cfg \<le> n then redis_expire R t (url_key c) (URL_CACHE_TTL cfg * 2) r2 else r2)"
    by (simp add: track_click_def i r2_def)
  ultimately show ?thesis using assms(1) by (auto simp: look_expire)
qed

end

sublocale shortener_redis \<subseteq> url_cache:
  touch_cache "url_cache_get R" "\<lambda>t c d. url_cache_set R cfg t c d None" "url_cache_delete R" json_wf
    "timedelta_seconds (URL_CACHE_TTL cfg)" "\<lambda>t c r. snd (track_click R cfg t c r)"
proof
  fix t t' :: instant and c :: pystr and v r assume a: "json_wf v" "t \<le> t'"
  then have "look (url_cache_set R cfg t c v None r) t' (url_key c) =
      (if t' < t + timedelta_seconds (URL_CACHE_TTL cfg) then Some (RStr (dumps v)) else None)"
    using ttl_positive by (simp add: url_cache_set_def look_setex)
  with a show "url_cache_get R t' c (url_cache_set R cfg t c v None r) =
      Inr (if t' < t + timedelta_seconds (URL_CACHE_TTL cfg) then Some v else None)"
    using url_get_hit [of v "url_cache_set R cfg t c v None r" t' c]
      url_get_miss [of "url_cache_set R cfg t c v None r" t' c] by (simp split: if_splits)
next
  fix t t' :: instant and c c' :: pystr and v r assume "c' \<noteq> c" "t \<le> t'"
  then show "url_cache_get R t' c' (url_cache_set R cfg t c v None r) = url_cache_get R t' c' r"
    using ttl_positive by (intro url_get_cong) (simp add: url_cache_set_def look_setex)
next
  fix t' :: instant and c' c :: pystr and r
  show "url_cache_get R t' c' (url_cache_delete R c r) =
      (if c' = c then Inr None else url_cache_get R t' c' r)"
    by (simp add: url_get_miss url_cache_delete_def look_delete)
      (intro impI url_get_cong, simp add: look_delete)
next
  fix t t' :: instant and c :: pystr and r assume "t \<le> t'"
  then show "url_cache_get R t' c r = Inr None \<or> url_cache_get R t' c r = url_cache_get R t c r"
    using look_same [of t t' r "url_key c"] url_get_miss url_get_cong by metis
next
  fix t t' :: instant and c c' :: pystr and r assume t: "t \<le> t'"
  let ?r = "snd (track_click R cfg t c r)"
  have "look ?r t' (url_key c') = look r t' (url_key c') \<or> look ?r t' (url_key c') = look r t (url_key c')
      \<or> look ?r t' (url_key c') = None"
    using look_track [OF t, of "url_key c'" c r] by auto
  then show "url_cache_get R t' c' ?r = url_cache_get R t' c' r \<or>
      url_cache_get R t' c' ?r = url_cache_get R t c' r \<or> url_cache_get R t' c' ?r = Inr None"
    using url_get_miss url_get_cong by metis
qed

context shortener_redis
begin

lemma read_after_write:
  assumes "json_wf data" and "now \<le> later"
  shows "url_cache_get R later k' (url_cache_set R cfg now k data None r) =
    (if k' = k
     then Inr (if later < now + timedelta_seconds (URL_CACHE_TTL cfg) then Some data else None)
     else url_cache_get R later k' r)"
  using url_cache.get_put_same [OF assms] url_cache.get_put_other [OF _ assms(2)] by simp

lemma after_delete:
  "url_cache_get R t k' (url_cache_delete R k r) = (if k' = k then Inr None else url_cache_get R t k' r)"
  by (rule url_cache.get_drop)

lemma after_invalidate:
  "url_cache_get R t k' (invalidate_many R ks r) = (if k' \<in> set ks then Inr None else url_cache_get R t k' r)"
proof (cases "k' \<in> set ks")
  case True
  then have "ks \<noteq> []" by auto
  with True show ?thesis by (simp add: url_get_miss invalidate_many_def look_delete)
next
  case False
  then have "look (invalidate_many R ks r) t (url_key k') = look r t (url_key k')"
    by (auto simp: invalidate_many_def look_delete)
  from url_get_cong [OF this] False show ?thesis by simp
qed

definition hot_count :: "'a \<Rightarrow> instant \<Rightarrow> pystr \<Rightarrow> int \<Rightarrow> bool" where
  "hot_count r t c n \<longleftrightarrow> look r t (hot_key c) = (if n = 0 then None else Some (RStr (show_int n)))"

lemma track_count:
  assumes "hot_count r t c n" "0 \<le> n"
  shows "fst (track_click R cfg t c r) = n + 1"
  using assms incr_fresh [of r t "hot_key c"] incr_value [of r t "hot_key c" n]
  by (cases "n = 0") (auto simp: hot_count_def track_click_def Let_def split: prod.splits)

lemma track_counter:
  assumes "hot_count r t c n" "0 \<le> n" "t \<le> t'"
  shows "hot_count (snd (track_click R cfg t c r)) t' c (if t' < t + timedelta_seconds 3600 then n + 1 else 0)"
proof -
  obtain m r1 where i: "redis_incr R t (hot_key c) r = (m, r1)" by force
  have "look r1 t (hot_key c) = Some (RStr (show_int (n + 1)))"
  proof (cases "n = 0")
    case True
    then show ?thesis
      using assms look_incr_fresh [of r t "hot_key c" t] i by (simp add: hot_count_def)
  next
    case False
    then show ?thesis
      using assms look_incr [of r t "hot_key c" n t] i by (simp add: hot_count_def)
  qed
  then show ?thesis
    using assms by (auto simp: hot_count_def track_click_def i look_expire Let_def)
qed

lemma track_payload:
  assumes "hot_count r t c n" "0 \<le> n" "t \<le> t'"
  shows "url_cache_get R t' c (snd (track_click R cfg t c r)) =
    (if HOT_URL_CLICK_THRESHOLD cfg \<le> n + 1
     then if t' < t + timedelta_seconds (URL_CACHE_TTL cfg * 2) then url_cache_get R t c r else Inr None
     else url_cache_get R t' c r)"
proof -
  let ?r = "snd (track_click R cfg t c r)"
  have "look ?r t' (url_key c) =
      (if HOT_URL_CLICK_THRESHOLD cfg \<le> n + 1
       then if t' < t + timedelta_seconds (URL_CACHE_TTL cfg * 2) then look r t (url_key c) else None
       else look r t' (url_key c))"
    using look_track [OF assms(3), of "url_key c" c r] track_count [OF assms(1,2)] by simp
  then show ?thesis
    using url_get_miss [of ?r t' c] url_get_cong [of ?r t' c r t c] url_get_cong [of ?r t' c r t' c]
    by (simp split: if_splits)
qed

end

interpretation store_cache: shortener_redis store_ops store_look default_settings
  by unfold_locales (simp_all add: default_settings_def)

section \<open>Properties\<close>

text \<open>
  Read after write: for its time to live a stored payload is what a lookup returns, whatever
  was cached before, afterwards the lookup misses, and the entries of other codes are untouched.
\<close>

lemma url_cache_read_after_write:
  assumes "shortener_redis R look cfg" and "json_wf data" and "now \<le> later"
  shows "url_cache_get R later k' (url_cache_set R cfg now k data None r) =
    (if k' = k
     then Inr (if later < now + timedelta_seconds (URL_CACHE_TTL cfg) then Some data else None)
     else url_cache_get R later k' r)"
  using shortener_redis.read_after_write [OF assms] .

text \<open>
  An invalidated code misses from then on, whatever was stored, and no other code is affected;
  this holds for the single and for the bulk invalidation.
\<close>

lemma url_cache_invalidation:
  assumes "shortener_redis R look cfg"
  shows "url_cache_get R later k' (url_cache_delete R k r) =
      (if k' = k then Inr None else url_cache_get R later k' r) \<and>
    url_cache_get R later k' (invalidate_many R ks r) =
      (if k' \<in> set ks then Inr None else url_cache_get R later k' r)"
  using shortener_redis.after_delete [OF assms] shortener_redis.after_invalidate [OF assms] by blast

text \<open>
  Hot links: the \<open>n\<close>-th click since the last pause of an hour returns \<open>n\<close>; from the threshold on,
  every click gives a cached payload twice the normal time to live, counted from the click, and
  below the threshold its lifetime stays what it was.
\<close>

lemma track_click_hot:
  assumes "shortener_redis R look cfg" and "0 \<le> n" and "now \<le> later"
    and "look r now (hot_key k) = (if n = 0 then None else Some (RStr (show_int n)))"
  defines "r' \<equiv> snd (track_click R cfg now k r)"
  shows "fst (track_click R cfg now k r) = n + 1 \<and>
    look r' later (hot_key k) =
      (if later < now + timedelta_seconds 3600 then Some (RStr (show_int (n + 1))) else None) \<and>
    url_cache_get R later k r' =
      (if HOT_URL_CLICK_THRESHOLD cfg \<le> n + 1
       then if later < now + timedelta_seconds (URL_CACHE_TTL cfg * 2) then url_cache_get R now k r
            else Inr None
       else url_cache_get R later k r)"
proof -
  have h: "shortener_redis.hot_count look r now k n"
    using assms(4) by (simp add: shortener_redis.hot_count_def [OF assms(1)])
  show ?thesis
    using shortener_redis.track_count [OF assms(1) h assms(2)]
      shortener_redis.track_counter [OF assms(1) h assms(2,3)]
      shortener_redis.track_payload [OF assms(1) h assms(2,3)] assms(2)
    by (simp add: r'_def shortener_redis.hot_count_def [OF assms(1)] split: if_splits)
qed

end
