(* ===== verification/Analytics_Cache.thy ===== *)
theory Analytics_Cache
  imports Url_Cache
begin

text \<open>
  \<open>app/cache/analytics_cache.py\<close>: the queue of click events and the cache of summaries.  The queue is
  stated as the interface \<open>event_queue\<close>: a relation between the server's state and the list of waiting
  events, which pushes extend at the end and pops shorten at the front.
\<close>

section \<open>The contract of a queue\<close>

datatype 'e queue_op = Push 'e | Pop nat

text \<open>A history of pushes and pops at increasing times; the popped events in order.\<close>

fun history_ok :: "('e \<Rightarrow> bool) \<Rightarrow> instant \<Rightarrow> (instant \<times> 'e queue_op) list \<Rightarrow> bool" where
  "history_ok ok t [] = True"
| "history_ok ok t ((t', Push e) # h) = (t \<le> t' \<and> ok e \<and> history_ok ok t' h)"
| "history_ok ok t ((t', Pop n) # h) = (t \<le> t' \<and> 0 < n \<and> history_ok ok t' h)"

fun run_queue :: "(instant \<Rightarrow> 'e \<Rightarrow> 'r \<Rightarrow> 'r) \<Rightarrow> (instant \<Rightarrow> nat \<Rightarrow> 'r \<Rightarrow> 'e list result \<times> 'r) \<Rightarrow>
  (instant \<times> 'e queue_op) list \<Rightarrow> 'r \<Rightarrow> 'e list \<times> 'r" where
  "run_queue push pop [] r = ([], r)"
| "run_queue push pop ((t, Push e) # h) r = run_queue push pop h (push t e r)"
| "run_queue push pop ((t, Pop n) # h) r =
     (case pop t n r of
        (Inr es, r') \<Rightarrow> (let (out, r'') = run_queue push pop h r' in (es @ out, r''))
      | (Inl _, r') \<Rightarrow> run_queue push pop h r')"

fun pushed :: "(instant \<times> 'e queue_op) list \<Rightarrow> 'e list" where
  "pushed [] = []"
| "pushed ((t, Push e) # h) = e # pushed h"
| "pushed ((t, Pop n) # h) = pushed h"

locale event_queue =
  fixes push :: "instant \<Rightarrow> 'e \<Rightarrow> 'r \<Rightarrow> 'r"
    and pop :: "instant \<Rightarrow> nat \<Rightarrow> 'r \<Rightarrow> 'e list result \<times> 'r"
    and size_of :: "instant \<Rightarrow> 'r \<Rightarrow> int"
    and storable :: "'e \<Rightarrow> bool"
    and queued :: "'r \<Rightarrow> instant \<Rightarrow> 'e list \<Rightarrow> bool"
  assumes queued_later: "queued r t es \<Longrightarrow> t \<le> t' \<Longrightarrow> queued r t' es"
    and queued_push: "queued r t es \<Longrightarrow> storable e \<Longrightarrow> queued (push t e r) t (es @ [e])"
    and pop_front: "queued r t es \<Longrightarrow> 0 < n \<Longrightarrow> fst (pop t n r) = Inr (take n es)"
    and queued_pop: "queued r t es \<Longrightarrow> 0 < n \<Longrightarrow> queued (snd (pop t n r)) t (drop n es)"
    and size_queued: "queued r t es \<Longrightarrow> size_of t r = int (length es)"
begin

lemma run_queue_fifo:
  assumes "queued r t es" "history_ok storable t h"
  shows "\<exists>t' rest. queued (snd (run_queue push pop h r)) t' rest \<and> t \<le> t' \<and>
    fst (run_queue push pop h r) @ rest = es @ pushed h"
  using assms
proof (induction h arbitrary: r t es rule: pushed.induct)
  case 1
  then show ?case by auto
next
  case (2 t1 e h)
  then have "queued (push t1 e r) t1 (es @ [e])" "history_ok storable t1 h"
    by (auto intro: queued_push queued_later)
  from "2.IH" [OF this] "2.prems" show ?case by (auto intro: order_trans)
next
  case (3 t1 n h)
  then have q: "queued r t1 es" "0 < n" "history_ok storable t1 h" "t \<le> t1"
    by (auto intro: queued_later)
  obtain res r' where p: "pop t1 n r = (res, r')" by (cases "pop t1 n r")
  with pop_front [OF q(1,2)] queued_pop [OF q(1,2)]
  have "res = Inr (take n es)" "queued r' t1 (drop n es)" by auto
  moreover from "3.IH" [OF this(2) q(3)]
  obtain t' rest where "queued (snd (run_queue push pop h r')) t' rest" "t1 \<le> t'"
      "fst (run_queue push pop h r') @ rest = drop n es @ pushed h"
    by blast
  ultimately show ?case
    using p q(4) by (intro exI [of _ t'] exI [of _ rest]) (auto simp: split_beta)
qed

end

section \<open>\<open>AnalyticsCache\<close>\<close>

definition queue_key :: pystr where
  "queue_key = ''analytics:queue''"

definition summary_key :: "pystr \<Rightarrow> pystr" where
  "summary_key short_code = ''analytics:summary:'' @ short_code"

definition push_event :: "('r, 'x) redis_ops_scheme \<Rightarrow> instant \<Rightarrow> json \<Rightarrow> 'r \<Rightarrow> 'r" where
  "push_event R now event r = redis_rpush R now queue_key (dumps event) r"

fun loads_all :: "pystr list \<Rightarrow> json list result" where
  "loads_all [] = Inr []"
| "loads_all (s # ss) =
     (case loads s of
        None \<Rightarrow> Inl PyValueError
      | Some v \<Rightarrow> (case loads_all ss of Inl e \<Rightarrow> Inl e | Inr vs \<Rightarrow> Inr (v # vs)))"

definition pop_events :: "('r, 'x) redis_ops_scheme \<Rightarrow> instant \<Rightarrow> nat \<Rightarrow> 'r \<Rightarrow> json list result \<times> 'r" where
  "pop_events R now count r =
     (case redis_lmpop R now queue_key count r of
        (None, r') \<Rightarrow> (Inr [], r')
      | (Some raw_events, r') \<Rightarrow> (loads_all raw_events, r'))"

definition queue_length :: "('r, 'x) redis_ops_scheme \<Rightarrow> instant \<Rightarrow> 'r \<Rightarrow> int" where
  "queue_length R now r = redis_llen R now queue_key r"

definition get_cached_summary :: "('r, 'x) redis_ops_scheme \<Rightarrow> instant \<Rightarrow> pystr \<Rightarrow> 'r \<Rightarrow> json option result" where
  "get_cached_summary R now short_code r =
     (case redis_get R now (summary_key short_code) r of
        None \<Rightarrow> Inr None
      | Some raw \<Rightarrow>
          if raw = [] then Inr None
          else (case loads raw of None \<Rightarrow> Inl PyValueError | Some v \<Rightarrow> Inr (Some v)))"

definition set_cached_summary ::
  "('r, 'x) redis_ops_scheme \<Rightarrow> settings \<Rightarrow> instant \<Rightarrow> pystr \<Rightarrow> json \<Rightarrow> 'r \<Rightarrow> 'r" where
  "set_cached_summary R cfg now short_code data r =
     redis_setex R now (summary_key short_code) (ANALYTICS_CACHE_TTL cfg) (dumps data) r"

definition invalidate_summary :: "('r, 'x) redis_ops_scheme \<Rightarrow> pystr \<Rightarrow> 'r \<Rightarrow> 'r" where
  "invalidate_summary R short_code r = redis_delete R [summary_key short_code] r"

text \<open>The caches and the queue use disjoint parts of the key space.\<close>

lemma key_space [simp]:
  "queue_key \<noteq> url_key c" "queue_key \<noteq> hot_key c" "queue_key \<noteq> summary_key c"
  "url_key c \<noteq> queue_key" "hot_key c \<noteq> queue_key" "summary_key c \<noteq> queue_key"
  "summary_key c \<noteq> url_key c'" "summary_key c \<noteq> hot_key c'"
  "url_key c' \<noteq> summary_key c" "hot_key c' \<noteq> summary_key c"
  "summary_key c = summary_key c' \<longleftrightarrow> c = c'"
  by (simp_all add: queue_key_def url_key_def hot_key_def summary_key_def)

lemma loads_all_dumps: "list_all json_wf es \<Longrightarrow> loads_all (map dumps es) = Inr es"
  by (induction es) (simp_all add: loads_dumps)

lemma dumps_nonempty: "dumps v \<noteq> []"
proof
  assume "dumps v = []"
  moreover have "loads [] = None" by (simp add: loads_def skip_ws_def)
  ultimately show False using dumps_start [of v] by simp
qed

section \<open>Redis keeps the contracts\<close>

context redis_server
begin

definition events_queued :: "'r \<Rightarrow> instant \<Rightarrow> json list \<Rightarrow> bool" where
  "events_queued r t es \<longleftrightarrow> list_all json_wf es \<and> (\<forall>t' \<ge> t. look r t' queue_key = wrap_list (map dumps es))"

lemma queued_look: "events_queued r t es \<Longrightarrow> t \<le> t' \<Longrightarrow> look r t' queue_key = wrap_list (map dumps es)"
  by (simp add: events_queued_def)

lemma queued_frame:
  "events_queued r t es \<Longrightarrow> (\<And>t'. t \<le> t' \<Longrightarrow> look r' t' queue_key = look r t' queue_key) \<Longrightarrow>
   events_queued r' t es"
  by (simp add: events_queued_def)

lemma persist_wrap:
  "persist (wrap_list (map f xs)) (wrap_list (map f (drop n xs))) = wrap_list (map f (drop n xs))"
  by (auto simp: wrap_list_def)

end

sublocale redis_server \<subseteq> queue: event_queue "push_event R" "pop_events R" "queue_length R" json_wf events_queued
proof
  fix r t es and t' :: instant assume "events_queued r t es" "t \<le> t'"
  then show "events_queued r t' es" by (simp add: events_queued_def)
next
  fix r t es e assume q: "events_queued r t es" and e: "json_wf e"
  have "look (push_event R t e r) u queue_key = wrap_list (map dumps (es @ [e]))" if "t \<le> u" for u
    using queued_look [OF q] look_rpush [of r t queue_key u "dumps e"] that
    by (cases "es = []") (auto simp: push_event_def wrap_list_def)
  then show "events_queued (push_event R t e r) t (es @ [e])"
    using q e by (simp add: events_queued_def)
next
  fix r t es and n :: nat assume q: "events_queued r t es" and n: "0 < n"
  have l: "look r t queue_key = wrap_list (map dumps es)" and wf: "list_all json_wf es"
    using q by (simp_all add: events_queued_def)
  have v: "fst (redis_lmpop R t queue_key n r) = (if es = [] then None else Some (take n (map dumps es)))"
    using lmpop_value [of r t queue_key n] n l by (simp add: wrap_list_def)
  have "list_all json_wf (take n es)"
    using wf by (metis append_take_drop_id list_all_append)
  from loads_all_dumps [OF this]
  show "fst (pop_events R t n r) = Inr (take n es)"
    using v by (auto simp: pop_events_def take_map split: prod.splits option.splits if_splits)
  have "snd (pop_events R t n r) = snd (redis_lmpop R t queue_key n r)"
    by (auto simp: pop_events_def split: prod.splits option.splits)
  moreover have "look (snd (redis_lmpop R t queue_key n r)) u queue_key = wrap_list (map dumps (drop n es))"
    if "t \<le> u" for u
    using look_lmpop [of r t queue_key n u] n l that queued_look [OF q that]
    by (simp add: persist_wrap drop_map)
  moreover have "list_all json_wf (drop n es)"
    using wf by (metis append_take_drop_id list_all_append)
  ultimately show "events_queued (snd (pop_events R t n r)) t (drop n es)"
    by (simp add: events_queued_def)
next
  fix r t es assume "events_queued r t es"
  then show "queue_length R t r = int (length es)"
    using queued_look [of r t es t] by (simp add: queue_length_def llen)
qed

context redis_server
begin

lemma queue_history:
  assumes "events_queued r t es" "history_ok json_wf t h"
  shows "\<exists>t' rest. events_queued (snd (run_queue (push_event R) (pop_events R) h r)) t' rest \<and>
    fst (run_queue (push_event R) (pop_events R) h r) @ rest = es @ pushed h"
  using queue.run_queue_fifo [OF assms] by blast

end

sublocale shortener_redis \<subseteq> summaries:
  ttl_cache "get_cached_summary R" "set_cached_summary R cfg" "invalidate_summary R" json_wf
    "timedelta_seconds (ANALYTICS_CACHE_TTL cfg)"
proof
  have cong: "look r t (summary_key c) = look r' t' (summary_key c') \<Longrightarrow>
      get_cached_summary R t c r = get_cached_summary R t' c' r'" for r r' t t' c c'
    unfolding get_cached_summary_def by (simp add: get_cong [of r t "summary_key c" r' t' "summary_key c'"])
  have miss: "look r t (summary_key c) = None \<Longrightarrow> get_cached_summary R t c r = Inr None" for r t c
    by (simp add: get_cached_summary_def get_miss)
  {
    fix t t' :: instant and c :: pystr and v r assume a: "json_wf v" "t \<le> t'"
    let ?r = "set_cached_summary R cfg t c v r"
    have "look ?r t' (summary_key c) =
        (if t' < t + timedelta_seconds (ANALYTICS_CACHE_TTL cfg) then Some (RStr (dumps v)) else None)"
      using a ttl_positive by (simp add: set_cached_summary_def look_setex)
    then show "get_cached_summary R t' c ?r =
        Inr (if t' < t + timedelta_seconds (ANALYTICS_CACHE_TTL cfg) then Some v else None)"
      using miss [of ?r t' c] get_hit [of ?r t' "summary_key c"] a
      by (simp add: get_cached_summary_def loads_dumps dumps_nonempty split: if_splits)
  next
    fix t t' :: instant and c c' :: pystr and v r assume "c' \<noteq> c" "t \<le> t'"
    then show "get_cached_summary R t' c' (set_cached_summary R cfg t c v r) = get_cached_summary R t' c' r"
      using ttl_positive by (intro cong) (simp add: set_cached_summary_def look_setex)
  next
    fix t' :: instant and c' c :: pystr and r
    show "get_cached_summary R t' c' (invalidate_summary R c r) =
        (if c' = c then Inr None else get_cached_summary R t' c' r)"
      by (simp add: miss invalidate_summary_def look_delete) (intro impI cong, simp add: look_delete)
  next
    fix t t' :: instant and c :: pystr and r assume "t \<le> t'"
    then show "get_cached_summary R t' c r = Inr None \<or> get_cached_summary R t' c r = get_cached_summary R t c r"
      using look_same [of t t' r "summary_key c"] miss cong by metis
  }
qed

section \<open>Properties\<close>

text \<open>
  The queue neither loses, duplicates nor reorders events: after any history of pushes and pops
  the popped events followed by those still waiting are the pushed ones, in the order of the pushes.
\<close>

lemma analytics_queue_fifo:
  assumes "redis_server R look" and "\<And>u. t \<le> u \<Longrightarrow> look r u queue_key = None"
    and "history_ok json_wf t h"
  shows "\<exists>t' rest. redis_server.events_queued look (snd (run_queue (push_event R) (pop_events R) h r)) t' rest \<and>
    fst (run_queue (push_event R) (pop_events R) h r) @ rest = pushed h"
proof -
  have "redis_server.events_queued look r t []"
    using assms(2) by (simp add: redis_server.events_queued_def [OF assms(1)] wrap_list_def)
  from redis_server.queue_history [OF assms(1) this assms(3)] show ?thesis by auto
qed

end
