(* ===== verification/Database.thy ===== *)
theory Database
  imports App_Core Py_Time Py_Json
begin

text \<open>
  The PostgreSQL schema of \<open>app/models\<close> and \<open>app/db/base.py\<close> (created by
  \<open>alembic/versions/0001\<close>): one record per table, a table as the list of its rows in insertion
  order, and the statements the repositories send, with the constraints the schema declares.  A
  violated constraint is an error value; rows are only added when primary keys, unique columns,
  foreign keys and column widths allow it.
\<close>

section \<open>Tables\<close>

record base_row =
  row_id :: uuid
  created_at :: instant
  updated_at :: instant

datatype user_role = USER | ADMIN

definition role_value :: "user_role \<Rightarrow> pystr" where
  "role_value r = (case r of USER \<Rightarrow> ''user'' | ADMIN \<Rightarrow> ''admin'')"

record user = base_row +
  email :: pystr
  hashed_password :: pystr
  full_name :: "pystr option"
  role :: pystr
  u_is_active :: bool
  is_verified :: bool

record short_url = base_row +
  original_url :: pystr
  short_code :: pystr
  custom_alias :: "pystr option"
  title :: "pystr option"
  owner_id :: "uuid option"
  is_active :: bool
  is_public :: bool
  expires_at :: "instant option"
  click_count :: int

record click_row = base_row +
  short_url_id :: uuid
  visitor_hash :: "pystr option"
  country :: "pystr option"
  city :: "pystr option"
  referrer :: "pystr option"
  user_agent :: "pystr option"
  browser :: "pystr option"
  os :: "pystr option"
  device :: "pystr option"

record snapshot_row = base_row +
  sn_short_url_id :: uuid
  snapshot_date :: int
  total_clicks :: int
  unique_visitors :: int
  country_data :: json
  browser_data :: json
  os_data :: json
  device_data :: json
  referrer_data :: json

record refresh_row = base_row +
  user_id :: uuid
  token_hash :: pystr
  rt_expires_at :: instant
  is_revoked :: bool
  rt_user_agent :: "pystr option"
  ip_address :: "pystr option"

record database =
  users :: "user list"
  short_urls :: "short_url list"
  click_events :: "click_row list"
  snapshots :: "snapshot_row list"
  refresh_tokens :: "refresh_row list"

section \<open>Constraints of the schema\<close>

fun varchar :: "nat \<Rightarrow> pystr option \<Rightarrow> bool" where
  "varchar n None = True"
| "varchar n (Some s) = (length s \<le> n)"

definition user_columns :: "user \<Rightarrow> bool" where
  "user_columns u \<longleftrightarrow> varchar 255 (Some (email u)) \<and> varchar 255 (Some (hashed_password u)) \<and>
     varchar 255 (full_name u) \<and> varchar 20 (Some (role u))"

definition short_url_columns :: "short_url \<Rightarrow> bool" where
  "short_url_columns u \<longleftrightarrow> varchar 50 (Some (short_code u)) \<and> varchar 50 (custom_alias u) \<and>
     varchar 255 (title u)"

definition click_columns :: "click_row \<Rightarrow> bool" where
  "click_columns e \<longleftrightarrow> varchar 64 (visitor_hash e) \<and> varchar 2 (country e) \<and> varchar 100 (city e) \<and>
     varchar 2048 (referrer e) \<and> varchar 512 (user_agent e) \<and> varchar 50 (browser e) \<and>
     varchar 50 (os e) \<and> varchar 20 (device e)"

definition refresh_columns :: "refresh_row \<Rightarrow> bool" where
  "refresh_columns t \<longleftrightarrow> varchar 64 (Some (token_hash t)) \<and> varchar 512 (rt_user_agent t) \<and>
     varchar 45 (ip_address t)"

text \<open>A nullable unique column: the values that are not \<open>NULL\<close> are distinct.\<close>

definition unique_col :: "('a \<Rightarrow> 'k option) \<Rightarrow> 'a list \<Rightarrow> bool" where
  "unique_col f xs = distinct (filter (\<lambda>k. k \<noteq> None) (map f xs))"

fun null_or_in :: "'k option \<Rightarrow> 'k list \<Rightarrow> bool" where
  "null_or_in None ks = True"
| "null_or_in (Some k) ks = (k \<in> set ks)"

definition users_ok :: "user list \<Rightarrow> bool" where
  "users_ok us \<longleftrightarrow> distinct (map row_id us) \<and> distinct (map email us) \<and> list_all user_columns us"

definition short_urls_ok :: "user list \<Rightarrow> short_url list \<Rightarrow> bool" where
  "short_urls_ok us ss \<longleftrightarrow> distinct (map row_id ss) \<and> distinct (map short_code ss) \<and>
     unique_col custom_alias ss \<and> list_all short_url_columns ss \<and>
     list_all (\<lambda>s. null_or_in (owner_id s) (map row_id us)) ss"

definition clicks_ok :: "short_url list \<Rightarrow> click_row list \<Rightarrow> bool" where
  "clicks_ok ss es \<longleftrightarrow> distinct (map row_id es) \<and> list_all click_columns es \<and>
     list_all (\<lambda>e. short_url_id e \<in> set (map row_id ss)) es"

definition snapshots_ok :: "short_url list \<Rightarrow> snapshot_row list \<Rightarrow> bool" where
  "snapshots_ok ss ns \<longleftrightarrow> distinct (map row_id ns) \<and>
     distinct (map (\<lambda>n. (sn_short_url_id n, snapshot_date n)) ns) \<and>
     list_all (\<lambda>n. sn_short_url_id n \<in> set (map row_id ss)) ns"

definition tokens_ok :: "user list \<Rightarrow> refresh_row list \<Rightarrow> bool" where
  "tokens_ok us ts \<longleftrightarrow> distinct (map row_id ts) \<and> distinct (map token_hash ts) \<and>
     list_all refresh_columns ts \<and> list_all (\<lambda>t. user_id t \<in> set (map row_id us)) ts"

definition schema_ok :: "database \<Rightarrow> bool" where
  "schema_ok db \<longleftrightarrow> users_ok (users db) \<and> short_urls_ok (users db) (short_urls db) \<and>
     clicks_ok (short_urls db) (click_events db) \<and> snapshots_ok (short_urls db) (snapshots db) \<and>
     tokens_ok (users db) (refresh_tokens db)"

definition empty_database :: database where
  "empty_database = \<lparr>users = [], short_urls = [], click_events = [], snapshots = [], refresh_tokens = []\<rparr>"

section \<open>Statements\<close>

text \<open>
  \<open>INSERT\<close>: widths first, then the unique columns and foreign keys.  The table after the insertion is
  checked against the constraints that the new row can violate.
\<close>

definition insert_user :: "user \<Rightarrow> database \<Rightarrow> database result" where
  "insert_user u db =
     (if \<not> user_columns u then Inl DataError
      else if row_id u \<in> set (map row_id (users db)) \<or> email u \<in> set (map email (users db))
      then Inl IntegrityError
      else Inr (db\<lparr>users := users db @ [u]\<rparr>))"

definition insert_short_url :: "short_url \<Rightarrow> database \<Rightarrow> database result" where
  "insert_short_url s db =
     (if \<not> short_url_columns s then Inl DataError
      else if row_id s \<in> set (map row_id (short_urls db)) \<or>
              short_code s \<in> set (map short_code (short_urls db)) \<or>
              (custom_alias s \<noteq> None \<and> custom_alias s \<in> set (map custom_alias (short_urls db))) \<or>
              \<not> null_or_in (owner_id s) (map row_id (users db))
      then Inl IntegrityError
      else Inr (db\<lparr>short_urls := short_urls db @ [s]\<rparr>))"

definition insert_click :: "click_row \<Rightarrow> database \<Rightarrow> database result" where
  "insert_click e db =
     (if \<not> click_columns e then Inl DataError
      else if row_id e \<in> set (map row_id (click_events db)) \<or>
              short_url_id e \<notin> set (map row_id (short_urls db))
      then Inl IntegrityError
      else Inr (db\<lparr>click_events := click_events db @ [e]\<rparr>))"

definition insert_snapshot :: "snapshot_row \<Rightarrow> database \<Rightarrow> database result" where
  "insert_snapshot n db =
     (if row_id n \<in> set (map row_id (snapshots db)) \<or>
         (sn_short_url_id n, snapshot_date n) \<in> set (map (\<lambda>n. (sn_short_url_id n, snapshot_date n)) (snapshots db)) \<or>
         sn_short_url_id n \<notin> set (map row_id (short_urls db))
      then Inl IntegrityError
      else Inr (db\<lparr>snapshots := snapshots db @ [n]\<rparr>))"

definition insert_token :: "refresh_row \<Rightarrow> database \<Rightarrow> database result" where
  "insert_token t db =
     (if \<not> refresh_columns t then Inl DataError
      else if row_id t \<in> set (map row_id (refresh_tokens db)) \<or>
              token_hash t \<in> set (map token_hash (refresh_tokens db)) \<or>
              user_id t \<notin> set (map row_id (users db))
      then Inl IntegrityError
      else Inr (db\<lparr>refresh_tokens := refresh_tokens db @ [t]\<rparr>))"

text \<open>
  \<open>UPDATE short_urls \<dots> WHERE id = i\<close> of the columns that no key uses, and \<open>DELETE\<close> of a
  link, which the foreign keys \<open>ON DELETE CASCADE\<close> extend to its events and snapshots.
\<close>

definition update_short_url :: "uuid \<Rightarrow> (short_url \<Rightarrow> short_url) \<Rightarrow> database \<Rightarrow> database" where
  "update_short_url i f db = db\<lparr>short_urls := upd_where (\<lambda>s. row_id s = i) f (short_urls db)\<rparr>"

definition delete_short_url :: "uuid \<Rightarrow> database \<Rightarrow> database" where
  "delete_short_url i db =
     db\<lparr>short_urls := filter (\<lambda>s. row_id s \<noteq> i) (short_urls db),
        click_events := filter (\<lambda>e. short_url_id e \<noteq> i) (click_events db),
        snapshots := filter (\<lambda>n. sn_short_url_id n \<noteq> i) (snapshots db)\<rparr>"

definition update_tokens :: "(refresh_row \<Rightarrow> bool) \<Rightarrow> (refresh_row \<Rightarrow> refresh_row) \<Rightarrow> database \<Rightarrow> database" where
  "update_tokens p f db = db\<lparr>refresh_tokens := upd_where p f (refresh_tokens db)\<rparr>"

text \<open>\<open>Result.scalar_one_or_none()\<close>.\<close>

definition scalar_one_or_none :: "'a list \<Rightarrow> 'a option result" where
  "scalar_one_or_none rows =
     (case the_one rows of NoRow \<Rightarrow> Inr None | OneRow x \<Rightarrow> Inr (Some x) | ManyRows \<Rightarrow> Inl MultipleResultsFound)"

lemma scalar_simps [simp]:
  "scalar_one_or_none [] = Inr None" "scalar_one_or_none [x] = Inr (Some x)"
  by (simp_all add: scalar_one_or_none_def)

lemma find_filter: "find P xs = (case filter P xs of [] \<Rightarrow> None | x # _ \<Rightarrow> Some x)"
  by (induction xs) auto

lemma scalar_unique:
  assumes "distinct (map f xs)" "\<And>x y. x \<in> set xs \<Longrightarrow> y \<in> set xs \<Longrightarrow> P x \<Longrightarrow> P y \<Longrightarrow> f x = f y"
  shows "scalar_one_or_none (filter P xs) = Inr (find P xs)"
proof (cases "filter P xs")
  case Nil
  then show ?thesis by (simp add: find_filter)
next
  case (Cons x rest)
  then have "x \<in> set (filter P xs)" by simp
  then have x: "x \<in> set xs" "P x" by simp_all
  have "filter P xs = [x]"
    by (rule filter_at_most_one [where f = f]) (fact assms(1) x | rule assms(2) [OF _ x(1) _ x(2)])+
  then show ?thesis by (simp add: find_filter)
qed

text \<open>A lookup by a unique column, with a further condition.\<close>

lemma find_key:
  assumes "distinct (map f xs)"
  shows "find (\<lambda>x. f x = k \<and> P x) xs = Some x \<longleftrightarrow> x \<in> set xs \<and> f x = k \<and> P x"
  using assms by (induction xs) auto

lemma find_None: "find P xs = None \<longleftrightarrow> \<not> (\<exists>x \<in> set xs. P x)"
  by (induction xs) auto

lemma scalar_key:
  assumes "distinct (map f xs)"
  shows "scalar_one_or_none (filter (\<lambda>x. f x = k \<and> P x) xs) = Inr (find (\<lambda>x. f x = k \<and> P x) xs)"
  by (rule scalar_unique [OF assms]) auto

section \<open>The statements keep the constraints\<close>

lemma upd_where_keeps:
  assumes "\<And>x. g (f x) = g x" "\<And>x. x \<in> set xs \<Longrightarrow> Q x \<Longrightarrow> Q (f x)" "list_all Q xs"
  shows "map g (upd_where p f xs) = map g xs" "list_all Q (upd_where p f xs)"
  using assms by (auto simp: map_upd_where list_all_iff set_upd_where)

lemma list_all_mono_in: "list_all P xs \<Longrightarrow> (\<And>x. x \<in> set xs \<Longrightarrow> P x \<Longrightarrow> Q x) \<Longrightarrow> list_all Q xs"
  by (simp add: list_all_iff)

lemma null_or_in_mono: "null_or_in k xs \<Longrightarrow> set xs \<subseteq> set ys \<Longrightarrow> null_or_in k ys"
  by (cases k) auto

lemma null_or_in_iff: "null_or_in k xs \<longleftrightarrow> (\<forall>v. k = Some v \<longrightarrow> v \<in> set xs)"
  by (cases k) auto

lemma unique_col_snoc:
  "unique_col f (xs @ [x]) \<longleftrightarrow> unique_col f xs \<and> (f x \<noteq> None \<longrightarrow> f x \<notin> set (map f xs))"
  by (auto simp: unique_col_def)

lemma unique_col_filter: "unique_col f xs \<Longrightarrow> unique_col f (filter P xs)"
  by (induction xs) (auto simp: unique_col_def, metis image_eqI)

lemma unique_col_map: "map f ys = map f xs \<Longrightarrow> unique_col f ys = unique_col f xs"
  by (simp add: unique_col_def)

lemma insert_user_ok [invariant_intros]:
  "schema_ok db \<Longrightarrow> insert_user u db = Inr db' \<Longrightarrow> schema_ok db'"
  unfolding schema_ok_def insert_user_def users_ok_def short_urls_ok_def tokens_ok_def
  by (auto split: if_splits simp: list_all_iff null_or_in_iff)

lemma insert_short_url_ok [invariant_intros]:
  "schema_ok db \<Longrightarrow> insert_short_url s db = Inr db' \<Longrightarrow> schema_ok db'"
  unfolding schema_ok_def insert_short_url_def short_urls_ok_def clicks_ok_def snapshots_ok_def
  by (auto split: if_splits simp: list_all_iff unique_col_snoc)

lemma insert_click_ok [invariant_intros]:
  "schema_ok db \<Longrightarrow> insert_click e db = Inr db' \<Longrightarrow> schema_ok db'"
  unfolding schema_ok_def insert_click_def clicks_ok_def
  by (auto split: if_splits simp: list_all_iff)

lemma insert_snapshot_ok [invariant_intros]:
  "schema_ok db \<Longrightarrow> insert_snapshot n db = Inr db' \<Longrightarrow> schema_ok db'"
  unfolding schema_ok_def insert_snapshot_def snapshots_ok_def
  by (auto split: if_splits simp: list_all_iff)

lemma insert_token_ok [invariant_intros]:
  "schema_ok db \<Longrightarrow> insert_token t db = Inr db' \<Longrightarrow> schema_ok db'"
  unfolding schema_ok_def insert_token_def tokens_ok_def
  by (auto split: if_splits simp: list_all_iff)

lemma distinct_map_filter': "distinct (map f xs) \<Longrightarrow> distinct (map f (filter P xs))"
  by (rule distinct_map_filter)

lemma delete_short_url_ok [invariant_intros]:
  "schema_ok db \<Longrightarrow> schema_ok (delete_short_url i db)"
  unfolding schema_ok_def delete_short_url_def short_urls_ok_def clicks_ok_def snapshots_ok_def
  by (auto simp: list_all_iff distinct_map_filter unique_col_filter)

definition same_keys :: "short_url \<Rightarrow> short_url \<Rightarrow> bool" where
  "same_keys s s' \<longleftrightarrow> row_id s' = row_id s \<and> short_code s' = short_code s \<and>
     custom_alias s' = custom_alias s \<and> owner_id s' = owner_id s"

lemma update_short_url_ok [invariant_intros]:
  assumes "schema_ok db"
    and keep: "\<And>s. s \<in> set (short_urls db) \<Longrightarrow> row_id s = i \<Longrightarrow>
      same_keys s (f s) \<and> (short_url_columns s \<longrightarrow> short_url_columns (f s))"
  shows "schema_ok (update_short_url i f db)"
proof -
  let ?ss = "short_urls db" and ?ss' = "upd_where (\<lambda>s. row_id s = i) f (short_urls db)"
  have m: "map row_id ?ss' = map row_id ?ss" "map short_code ?ss' = map short_code ?ss"
    "map custom_alias ?ss' = map custom_alias ?ss"
    using keep by (simp_all add: map_upd_where same_keys_def)
  have "list_all short_url_columns ?ss'"
    using assms by (auto simp: schema_ok_def short_urls_ok_def list_all_iff set_upd_where)
  moreover have "list_all (\<lambda>s. null_or_in (owner_id s) (map row_id (users db))) ?ss'"
    using assms by (auto simp: schema_ok_def short_urls_ok_def list_all_iff set_upd_where same_keys_def)
  ultimately show ?thesis
    using assms(1) m unique_col_map [OF m(3)]
    by (simp add: schema_ok_def update_short_url_def short_urls_ok_def clicks_ok_def snapshots_ok_def)
qed

lemma update_tokens_ok [invariant_intros]:
  assumes "schema_ok db"
    and keep: "\<And>t. row_id (f t) = row_id t" "\<And>t. token_hash (f t) = token_hash t"
      "\<And>t. user_id (f t) = user_id t" "\<And>t. refresh_columns t \<Longrightarrow> refresh_columns (f t)"
  shows "schema_ok (update_tokens p f db)"
  using assms
  by (auto simp: schema_ok_def update_tokens_def tokens_ok_def map_upd_where list_all_iff set_upd_where)

lemma empty_database_ok: "schema_ok empty_database"
  by (simp add: schema_ok_def empty_database_def users_ok_def short_urls_ok_def clicks_ok_def
      snapshots_ok_def tokens_ok_def unique_col_def)

end
