(* ===== verification/Repositories.thy ===== *)
theory Repositories
  imports Database
begin

text \<open>
  \<open>app/repositories\<close>: the queries of the five repositories over the tables.  A \<open>WHERE\<close> clause is a
  filter, \<open>ORDER BY\<close> a stable sort of the rows as the server comes upon them: in the pages of a listing any order, which
  is an argument, elsewhere the order of insertion; \<open>OFFSET\<close>/\<open>LIMIT\<close> is a slice.  \<open>now\<close> stands both for
  \<open>datetime.now(timezone.utc)\<close> and for the database's \<open>now()\<close>.  The interface \<open>link_table\<close> says what the services rely on: the table of links is a
  partial map from codes.
\<close>

section \<open>\<open>BaseRepository\<close>\<close>

definition get_by_id :: "'a base_row_scheme list \<Rightarrow> uuid \<Rightarrow> 'a base_row_scheme option result" where
  "get_by_id rows i = scalar_one_or_none (filter (\<lambda>r. row_id r = i) rows)"

definition get_all :: "'a list \<Rightarrow> nat \<Rightarrow> nat \<Rightarrow> 'a list \<times> nat" where
  "get_all rows offset limit = (take limit (drop offset rows), length rows)"

text \<open>
  \<open>create\<close>: the instance with its column defaults, \<open>flush\<close> (the \<open>INSERT\<close>) and \<open>refresh\<close>.
\<close>

definition create_with :: "('a \<Rightarrow> database \<Rightarrow> database result) \<Rightarrow> 'a \<Rightarrow> database \<Rightarrow> ('a \<times> database) result" where
  "create_with ins x db = (case ins x db of Inl e \<Rightarrow> Inl e | Inr db' \<Rightarrow> Inr (x, db'))"

section \<open>\<open>URLRepository\<close>\<close>

definition matches_code :: "pystr \<Rightarrow> short_url \<Rightarrow> bool" where
  "matches_code c s \<longleftrightarrow> short_code s = c \<or> custom_alias s = Some c"

definition unexpired :: "instant \<Rightarrow> short_url \<Rightarrow> bool" where
  "unexpired now s \<longleftrightarrow> (case expires_at s of None \<Rightarrow> True | Some e \<Rightarrow> now < e)"

definition get_by_short_code :: "pystr \<Rightarrow> database \<Rightarrow> short_url option result" where
  "get_by_short_code c db = scalar_one_or_none (filter (\<lambda>s. short_code s = c) (short_urls db))"

definition get_by_alias :: "pystr \<Rightarrow> database \<Rightarrow> short_url option result" where
  "get_by_alias a db = scalar_one_or_none (filter (\<lambda>s. custom_alias s = Some a) (short_urls db))"

definition short_code_exists :: "pystr \<Rightarrow> database \<Rightarrow> bool result" where
  "short_code_exists c db =
     (case scalar_one_or_none (map row_id (filter (matches_code c) (short_urls db))) of
        Inl e \<Rightarrow> Inl e | Inr r \<Rightarrow> Inr (r \<noteq> None))"

definition get_active_by_code :: "instant \<Rightarrow> pystr \<Rightarrow> database \<Rightarrow> short_url option result" where
  "get_active_by_code now c db =
     scalar_one_or_none (filter (\<lambda>s. matches_code c s \<and> is_active s \<and> unexpired now s) (short_urls db))"

text \<open>
  SQL does not say in which order \<open>ORDER BY created_at DESC\<close> leaves rows of the same time, and two executions may
  differ: \<open>rank\<close> is where this execution comes upon the row of an identifier.
\<close>

definition get_by_owner :: "(uuid \<Rightarrow> nat) \<Rightarrow> uuid \<Rightarrow> int \<Rightarrow> int \<Rightarrow> database \<Rightarrow> short_url list \<times> int" where
  "get_by_owner rank owner offset limit db =
     (let owned = filter (\<lambda>s. owner_id s = Some owner) (short_urls db);
          total = int (length owned);
          rows = sort_key (\<lambda>s. - created_at s) (sort_key (\<lambda>s. rank (row_id s)) owned)
      in (take (nat limit) (drop (nat offset) rows), total))"

definition increment_click_count :: "instant \<Rightarrow> uuid \<Rightarrow> int \<Rightarrow> database \<Rightarrow> database" where
  "increment_click_count now i n db =
     update_short_url i (\<lambda>s. s\<lparr>click_count := click_count s + n, updated_at := now\<rparr>) db"

definition new_short_url ::
  "uuid \<Rightarrow> instant \<Rightarrow> pystr \<Rightarrow> pystr \<Rightarrow> pystr option \<Rightarrow> pystr option \<Rightarrow> uuid option \<Rightarrow> bool \<Rightarrow> instant option \<Rightarrow> short_url"
where
  "new_short_url i now original sc alias ttl owner public expires =
     \<lparr>row_id = i, created_at = now, updated_at = now, original_url = original, short_code = sc,
      custom_alias = alias, title = ttl, owner_id = owner, is_active = True, is_public = public,
      expires_at = expires, click_count = 0\<rparr>"

text \<open>
  \<open>update(instance, **kwargs)\<close> for a link: \<open>setattr\<close> for every key, then an \<open>UPDATE\<close> when some
  attribute differs from the loaded row (\<open>onupdate\<close> then sets \<open>updated_at\<close>), then \<open>refresh\<close>.
  \<open>to_utc\<close> is how the driver reads a datetime without zone (in the server's local time), and such
  a datetime never equals the loaded one.
\<close>

datatype url_attr =
    AttrTitle pystr
  | AttrExpiresAt py_datetime
  | AttrIsActive bool
  | AttrIsPublic bool

definition utc_of :: "(int \<Rightarrow> instant) \<Rightarrow> py_datetime \<Rightarrow> instant" where
  "utc_of to_utc d = (case d of Aware t \<Rightarrow> t | Naive n \<Rightarrow> to_utc n)"

fun url_setattr :: "(int \<Rightarrow> instant) \<Rightarrow> url_attr \<Rightarrow> short_url \<Rightarrow> short_url" where
  "url_setattr to_utc (AttrTitle t) s = s\<lparr>title := Some t\<rparr>"
| "url_setattr to_utc (AttrExpiresAt d) s = s\<lparr>expires_at := Some (utc_of to_utc d)\<rparr>"
| "url_setattr to_utc (AttrIsActive b) s = s\<lparr>is_active := b\<rparr>"
| "url_setattr to_utc (AttrIsPublic b) s = s\<lparr>is_public := b\<rparr>"

fun url_attr_changes :: "short_url \<Rightarrow> url_attr \<Rightarrow> bool" where
  "url_attr_changes s (AttrTitle t) = (title s \<noteq> Some t)"
| "url_attr_changes s (AttrExpiresAt (Aware t)) = (expires_at s \<noteq> Some t)"
| "url_attr_changes s (AttrExpiresAt (Naive n)) = True"
| "url_attr_changes s (AttrIsActive b) = (is_active s \<noteq> b)"
| "url_attr_changes s (AttrIsPublic b) = (is_public s \<noteq> b)"

definition url_repo_update ::
  "(int \<Rightarrow> instant) \<Rightarrow> instant \<Rightarrow> short_url \<Rightarrow> url_attr list \<Rightarrow> database \<Rightarrow> (short_url \<times> database) result"
where
  "url_repo_update to_utc now s attrs db =
     (let s' = fold (url_setattr to_utc) attrs s
      in if \<not> list_ex (url_attr_changes s) attrs then Inr (s, db)
         else if \<not> short_url_columns s' then Inl DataError
         else Inr (s'\<lparr>updated_at := now\<rparr>, update_short_url (row_id s) (\<lambda>_. s'\<lparr>updated_at := now\<rparr>) db))"

definition url_repo_delete :: "short_url \<Rightarrow> database \<Rightarrow> database" where
  "url_repo_delete s db = delete_short_url (row_id s) db"

section \<open>\<open>UserRepository\<close> and \<open>RefreshTokenRepository\<close>\<close>

definition get_by_email :: "pystr \<Rightarrow> database \<Rightarrow> user option result" where
  "get_by_email e db = scalar_one_or_none (filter (\<lambda>u. email u = e \<and> u_is_active u) (users db))"

definition email_exists :: "pystr \<Rightarrow> database \<Rightarrow> bool result" where
  "email_exists e db =
     (case scalar_one_or_none (map row_id (filter (\<lambda>u. email u = e) (users db))) of
        Inl x \<Rightarrow> Inl x | Inr r \<Rightarrow> Inr (r \<noteq> None))"

definition new_user :: "uuid \<Rightarrow> instant \<Rightarrow> pystr \<Rightarrow> pystr \<Rightarrow> pystr option \<Rightarrow> user" where
  "new_user i now mail hash name =
     \<lparr>row_id = i, created_at = now, updated_at = now, email = mail, hashed_password = hash,
      full_name = name, role = role_value USER, u_is_active = True, is_verified = False\<rparr>"

definition get_by_hash :: "instant \<Rightarrow> pystr \<Rightarrow> database \<Rightarrow> refresh_row option result" where
  "get_by_hash now h db =
     scalar_one_or_none
       (filter (\<lambda>t. token_hash t = h \<and> \<not> is_revoked t \<and> now < rt_expires_at t) (refresh_tokens db))"

definition new_refresh_row ::
  "uuid \<Rightarrow> instant \<Rightarrow> uuid \<Rightarrow> pystr \<Rightarrow> instant \<Rightarrow> pystr option \<Rightarrow> pystr option \<Rightarrow> refresh_row" where
  "new_refresh_row i now owner h expires agent ip =
     \<lparr>row_id = i, created_at = now, updated_at = now, user_id = owner, token_hash = h,
      rt_expires_at = expires, is_revoked = False, rt_user_agent = agent, ip_address = ip\<rparr>"

definition revoke :: "instant \<Rightarrow> refresh_row \<Rightarrow> refresh_row" where
  "revoke now t = t\<lparr>is_revoked := True, updated_at := now\<rparr>"

text \<open>\<open>update(stored, is_revoked=True)\<close> of a row that was read as not revoked.\<close>

definition revoke_token :: "instant \<Rightarrow> refresh_row \<Rightarrow> database \<Rightarrow> database" where
  "revoke_token now t db = update_tokens (\<lambda>r. row_id r = row_id t) (revoke now) db"

definition revoke_all_for_user :: "instant \<Rightarrow> uuid \<Rightarrow> database \<Rightarrow> database" where
  "revoke_all_for_user now owner db = update_tokens (\<lambda>t. user_id t = owner) (revoke now) db"

section \<open>\<open>ClickEventRepository\<close>\<close>

fun bulk_insert :: "click_row list \<Rightarrow> database \<Rightarrow> database result" where
  "bulk_insert [] db = Inr db"
| "bulk_insert (e # es) db =
     (case insert_click e db of Inl x \<Rightarrow> Inl x | Inr db' \<Rightarrow> bulk_insert es db')"

definition clicks_since :: "uuid \<Rightarrow> instant option \<Rightarrow> database \<Rightarrow> click_row list" where
  "clicks_since i since db =
     filter (\<lambda>e. short_url_id e = i \<and> (case since of None \<Rightarrow> True | Some t \<Rightarrow> t \<le> created_at e))
       (click_events db)"

definition get_by_url :: "uuid \<Rightarrow> instant option \<Rightarrow> nat \<Rightarrow> database \<Rightarrow> click_row list" where
  "get_by_url i since limit db = take limit (sort_key (\<lambda>e. - created_at e) (clicks_since i since db))"

definition count_unique_visitors :: "uuid \<Rightarrow> instant option \<Rightarrow> database \<Rightarrow> int" where
  "count_unique_visitors i since db =
     int (card (set (map visitor_hash (clicks_since i since db)) - {None}))"

text \<open>The non-null values of a column, each with the number of its rows.\<close>

definition group_counts :: "'a option list \<Rightarrow> ('a \<times> int) list" where
  "group_counts vs =
     (let ks = remdups (map the (filter (\<lambda>v. v \<noteq> None) vs))
      in map (\<lambda>k. (k, int (length (filter (\<lambda>v. v = Some k) vs)))) ks)"

definition get_dimension_counts ::
  "uuid \<Rightarrow> (click_row \<Rightarrow> pystr option) \<Rightarrow> instant option \<Rightarrow> nat \<Rightarrow> database \<Rightarrow> (pystr \<times> int) list" where
  "get_dimension_counts i dimension_col since limit db =
     take limit (sort_key (\<lambda>(_, cnt). - cnt) (group_counts (map dimension_col (clicks_since i since db))))"

definition get_daily_stats :: "instant \<Rightarrow> uuid \<Rightarrow> int \<Rightarrow> database \<Rightarrow> (int \<times> int \<times> int) list" where
  "get_daily_stats now i days db =
     (let es = clicks_since i (Some (now - timedelta_days days)) db;
          ds = sort (remdups (map (\<lambda>e. day_of (created_at e)) es));
          on = (\<lambda>d. filter (\<lambda>e. day_of (created_at e) = d) es)
      in map (\<lambda>d. (d, int (length (on d)), int (card (set (map visitor_hash (on d)) - {None})))) ds)"

section \<open>\<open>AnalyticsRepository\<close>\<close>

datatype snapshot_attr =
    AttrTotalClicks int
  | AttrUniqueVisitors int
  | AttrCountryData json
  | AttrBrowserData json
  | AttrOsData json
  | AttrDeviceData json
  | AttrReferrerData json

fun snapshot_setattr :: "snapshot_attr \<Rightarrow> snapshot_row \<Rightarrow> snapshot_row" where
  "snapshot_setattr (AttrTotalClicks n) s = s\<lparr>total_clicks := n\<rparr>"
| "snapshot_setattr (AttrUniqueVisitors n) s = s\<lparr>unique_visitors := n\<rparr>"
| "snapshot_setattr (AttrCountryData d) s = s\<lparr>country_data := d\<rparr>"
| "snapshot_setattr (AttrBrowserData d) s = s\<lparr>browser_data := d\<rparr>"
| "snapshot_setattr (AttrOsData d) s = s\<lparr>os_data := d\<rparr>"
| "snapshot_setattr (AttrDeviceData d) s = s\<lparr>device_data := d\<rparr>"
| "snapshot_setattr (AttrReferrerData d) s = s\<lparr>referrer_data := d\<rparr>"

definition get_by_url_and_date :: "uuid \<Rightarrow> int \<Rightarrow> database \<Rightarrow> snapshot_row option result" where
  "get_by_url_and_date i d db =
     scalar_one_or_none (filter (\<lambda>n. sn_short_url_id n = i \<and> snapshot_date n = d) (snapshots db))"

definition get_range :: "int \<Rightarrow> uuid \<Rightarrow> int \<Rightarrow> database \<Rightarrow> snapshot_row list" where
  "get_range today i days db =
     sort_key snapshot_date
       (filter (\<lambda>n. sn_short_url_id n = i \<and> today - days \<le> snapshot_date n) (snapshots db))"

definition new_snapshot :: "uuid \<Rightarrow> instant \<Rightarrow> uuid \<Rightarrow> int \<Rightarrow> snapshot_row" where
  "new_snapshot i now url d =
     \<lparr>row_id = i, created_at = now, updated_at = now, sn_short_url_id = url, snapshot_date = d,
      total_clicks = 0, unique_visitors = 0, country_data = JObj [], browser_data = JObj [],
      os_data = JObj [], device_data = JObj [], referrer_data = JObj []\<rparr>"

definition snapshot_upsert ::
  "uuid \<Rightarrow> instant \<Rightarrow> uuid \<Rightarrow> int \<Rightarrow> snapshot_attr list \<Rightarrow> database \<Rightarrow> (snapshot_row \<times> database) result"
where
  "snapshot_upsert uuid4 now i d attrs db =
     (case get_by_url_and_date i d db of
        Inl e \<Rightarrow> Inl e
      | Inr (Some n) \<Rightarrow>
          (let n' = fold snapshot_setattr attrs n
           in if n' = n then Inr (n, db)
              else (let n'' = n'\<lparr>updated_at := now\<rparr>
                    in Inr (n'', db\<lparr>snapshots := upd_where (\<lambda>r. row_id r = row_id n) (\<lambda>_. n'') (snapshots db)\<rparr>)))
      | Inr None \<Rightarrow> create_with insert_snapshot (fold snapshot_setattr attrs (new_snapshot uuid4 now i d)) db)"

section \<open>The table of links as a partial map\<close>

text \<open>
  An alias is stored both as \<open>custom_alias\<close> and as \<open>short_code\<close>: this is what the service maintains,
  and what makes the disjunctive queries return at most one row.
\<close>

definition alias_is_code :: "short_url \<Rightarrow> bool" where
  "alias_is_code s \<longleftrightarrow> custom_alias s = None \<or> custom_alias s = Some (short_code s)"

definition links_ok :: "database \<Rightarrow> bool" where
  "links_ok db \<longleftrightarrow> schema_ok db \<and> list_all alias_is_code (short_urls db)"

definition links :: "database \<Rightarrow> pystr \<Rightarrow> short_url option" where
  "links db c = find (\<lambda>s. short_code s = c) (short_urls db)"

definition live :: "instant \<Rightarrow> short_url \<Rightarrow> bool" where
  "live now s \<longleftrightarrow> is_active s \<and> unexpired now s"

locale link_table =
  fixes ok :: "'d \<Rightarrow> bool"
    and link :: "'d \<Rightarrow> pystr \<Rightarrow> 'u option"
    and alive :: "instant \<Rightarrow> 'u \<Rightarrow> bool"
    and taken :: "pystr \<Rightarrow> 'd \<Rightarrow> bool result"
    and by_code :: "pystr \<Rightarrow> 'd \<Rightarrow> 'u option result"
    and active :: "instant \<Rightarrow> pystr \<Rightarrow> 'd \<Rightarrow> 'u option result"
  assumes taken_iff: "ok d \<Longrightarrow> taken c d = Inr (link d c \<noteq> None)"
    and by_code_link: "ok d \<Longrightarrow> by_code c d = Inr (link d c)"
    and active_link: "ok d \<Longrightarrow> active t c d =
      Inr (case link d c of None \<Rightarrow> None | Some u \<Rightarrow> if alive t u then Some u else None)"
begin

lemma active_cases:
  assumes "ok d"
  obtains "active t c d = Inr None" "\<And>u. link d c = Some u \<Longrightarrow> \<not> alive t u"
  | u where "active t c d = Inr (Some u)" "link d c = Some u" "alive t u"
  using assms by (cases "link d c") (auto simp: active_link split: if_splits)

lemma free_code: "ok d \<Longrightarrow> taken c d = Inr False \<longleftrightarrow> link d c = None"
  by (simp add: taken_iff)

end

lemma links_Some: "links db c = Some s \<Longrightarrow> s \<in> set (short_urls db) \<and> short_code s = c"
  by (auto simp: links_def find_Some_iff)

lemma links_None_iff: "links db c = None \<longleftrightarrow> c \<notin> short_code ` set (short_urls db)"
  by (auto simp: links_def find_None_iff)

lemma schema_distinct:
  assumes "schema_ok db"
  shows "distinct (map row_id (short_urls db))" "distinct (map short_code (short_urls db))"
    "distinct (map row_id (users db))" "distinct (map email (users db))"
    "distinct (map row_id (refresh_tokens db))" "distinct (map token_hash (refresh_tokens db))"
  using assms by (auto simp: schema_ok_def users_ok_def short_urls_ok_def tokens_ok_def)

lemma links_in:
  assumes "schema_ok db" "s \<in> set (short_urls db)" shows "links db (short_code s) = Some s"
proof (cases "links db (short_code s)")
  case None
  with assms(2) show ?thesis by (simp add: links_None_iff)
next
  case (Some s')
  then have "s' \<in> set (short_urls db)" "short_code s' = short_code s" by (auto dest: links_Some)
  with assms schema_distinct(2) [OF assms(1)] have "s' = s" by (auto simp: distinct_map inj_on_def)
  with Some show ?thesis by simp
qed

lemma matches_code_iff:
  "links_ok db \<Longrightarrow> s \<in> set (short_urls db) \<Longrightarrow> matches_code c s \<longleftrightarrow> short_code s = c"
  by (auto simp: matches_code_def links_ok_def list_all_iff alias_is_code_def)

lemma links_find: "schema_ok db \<Longrightarrow> links db c = Some s \<longleftrightarrow> s \<in> set (short_urls db) \<and> short_code s = c"
  using find_key [OF schema_distinct(2), of db c "\<lambda>_. True" s] by (simp add: links_def)

lemma find_weaken:
  assumes "schema_ok db"
  shows "find (\<lambda>s. short_code s = c \<and> P s) (short_urls db) =
    (case links db c of None \<Rightarrow> None | Some s \<Rightarrow> if P s then Some s else None)"
proof (cases "links db c")
  case None
  then have "find (\<lambda>s. short_code s = c \<and> P s) (short_urls db) = None"
    by (auto simp: find_None links_None_iff)
  with None show ?thesis by simp
next
  case (Some s)
  then have s: "s \<in> set (short_urls db)" "short_code s = c" by (auto dest: links_Some)
  show ?thesis
  proof (cases "P s")
    case True
    with s Some show ?thesis by (simp add: find_key [OF schema_distinct(2) [OF assms]])
  next
    case False
    have "s' = s" if "s' \<in> set (short_urls db)" "short_code s' = c" for s'
      using links_in [OF assms that(1)] that(2) Some by simp
    with False Some show ?thesis by (auto simp: find_None)
  qed
qed

lemma scalar_map: "scalar_one_or_none (map f xs) = map_sum id (map_option f) (scalar_one_or_none xs)"
  by (cases xs rule: the_one.cases) (simp_all add: scalar_one_or_none_def)

interpretation link: link_table links_ok links live short_code_exists get_by_short_code get_active_by_code
proof
  fix db c assume ok: "links_ok db"
  then have s: "schema_ok db" by (simp add: links_ok_def)
  note d = schema_distinct(2) [OF s]
  have "filter (matches_code c) (short_urls db) = filter (\<lambda>s. short_code s = c) (short_urls db)"
    by (rule filter_cong) (simp_all add: matches_code_iff [OF ok])
  moreover have u: "scalar_one_or_none (filter (\<lambda>s. short_code s = c) (short_urls db)) = Inr (links db c)"
    unfolding links_def by (rule scalar_unique [OF d]) auto
  ultimately show "short_code_exists c db = Inr (links db c \<noteq> None)"
    by (simp add: short_code_exists_def scalar_map)
  show "get_by_short_code c db = Inr (links db c)"
    using u by (simp add: get_by_short_code_def)
next
  fix db c t assume ok: "links_ok db"
  then have s: "schema_ok db" by (simp add: links_ok_def)
  note d = schema_distinct(2) [OF s]
  have "filter (\<lambda>s. matches_code c s \<and> is_active s \<and> unexpired t s) (short_urls db) =
      filter (\<lambda>s. short_code s = c \<and> live t s) (short_urls db)"
    by (rule filter_cong) (auto simp: matches_code_iff [OF ok] live_def)
  moreover have "scalar_one_or_none (filter (\<lambda>s. short_code s = c \<and> live t s) (short_urls db)) =
      Inr (find (\<lambda>s. short_code s = c \<and> live t s) (short_urls db))"
    by (rule scalar_unique [OF d]) auto
  ultimately show "get_active_by_code t c db =
      Inr (case links db c of None \<Rightarrow> None | Some u \<Rightarrow> if live t u then Some u else None)"
    by (simp add: get_active_by_code_def find_weaken [OF s])
qed

section \<open>Lookup by primary key and by the other unique columns\<close>

lemma get_by_id_find:
  assumes "distinct (map row_id rows)"
  shows "get_by_id rows i = Inr (find (\<lambda>r. row_id r = i) rows)"
  using scalar_key [OF assms, of i "\<lambda>_. True"] by (simp add: get_by_id_def)

lemma get_by_id_Some:
  assumes "distinct (map row_id rows)"
  shows "get_by_id rows i = Inr (Some r) \<longleftrightarrow> r \<in> set rows \<and> row_id r = i"
  using find_key [OF assms, of i "\<lambda>_. True" r] by (simp add: get_by_id_find [OF assms])

lemma get_by_id_None:
  assumes "distinct (map row_id rows)"
  shows "get_by_id rows i = Inr None \<longleftrightarrow> i \<notin> row_id ` set rows"
  by (auto simp: get_by_id_find [OF assms] find_None)

lemma email_exists_iff:
  assumes "schema_ok db"
  shows "email_exists e db = Inr (e \<in> email ` set (users db))"
proof -
  have "scalar_one_or_none (filter (\<lambda>u. email u = e) (users db)) = Inr (find (\<lambda>u. email u = e) (users db))"
    using scalar_key [OF schema_distinct(4) [OF assms], of e "\<lambda>_. True"] by simp
  moreover have "find (\<lambda>u. email u = e) (users db) = None \<longleftrightarrow> e \<notin> email ` set (users db)"
    by (auto simp: find_None)
  ultimately show ?thesis by (simp add: email_exists_def scalar_map)
qed

lemma get_by_email_iff:
  assumes "schema_ok db"
  shows "get_by_email e db = Inr (Some u) \<longleftrightarrow> u \<in> set (users db) \<and> email u = e \<and> u_is_active u"
    and "get_by_email e db = Inr None \<longleftrightarrow> \<not> (\<exists>u \<in> set (users db). email u = e \<and> u_is_active u)"
    and "get_by_email e db \<noteq> Inl x"
  using scalar_key [OF schema_distinct(4) [OF assms]] find_key [OF schema_distinct(4) [OF assms]]
  by (simp_all add: get_by_email_def find_None)

definition usable :: "instant \<Rightarrow> refresh_row \<Rightarrow> bool" where
  "usable now t \<longleftrightarrow> \<not> is_revoked t \<and> now < rt_expires_at t"

lemma get_by_hash_iff:
  assumes "schema_ok db"
  shows "get_by_hash now h db = Inr (Some t) \<longleftrightarrow> t \<in> set (refresh_tokens db) \<and> token_hash t = h \<and> usable now t"
    and "get_by_hash now h db = Inr None \<longleftrightarrow> \<not> (\<exists>t \<in> set (refresh_tokens db). token_hash t = h \<and> usable now t)"
    and "get_by_hash now h db \<noteq> Inl x"
  using scalar_key [OF schema_distinct(6) [OF assms]] find_key [OF schema_distinct(6) [OF assms]]
  by (simp_all add: get_by_hash_def find_None usable_def)

end
