(* ===== verification/Schemas.thy ===== *)
theory Schemas
  imports Repositories
begin

text \<open>
  \<open>app/schemas\<close>: request bodies with their validators, and the response models.  A body arrives with
  the JSON types already checked; what Pydantic does with URLs (\<open>AnyHttpUrl\<close>) and addresses
  (\<open>EmailStr\<close>) is an argument, a function to the normalised text or \<open>None\<close>.  Pydantic turns a
  \<open>ValueError\<close> of a validator into a validation error of the request and lets a \<open>TypeError\<close> through.
\<close>

section \<open>\<open>schemas/url.py\<close>\<close>

record url_create_body =
  b_original_url :: pystr
  b_custom_alias :: "pystr option"
  b_title :: "pystr option"
  b_expires_at :: "py_datetime option"
  b_is_public :: bool

record url_create_request =
  c_original_url :: pystr
  c_custom_alias :: "pystr option"
  c_title :: "pystr option"
  c_expires_at :: "instant option"
  c_is_public :: bool

definition alias_char :: "char \<Rightarrow> bool" where
  "alias_char c \<longleftrightarrow> is_ascii_alpha c \<or> is_ascii_digit c \<or> c = CHR ''_'' \<or> c = CHR ''-''"

fun alias_field :: "pystr option \<Rightarrow> bool" where
  "alias_field None = True"
| "alias_field (Some a) = (3 \<le> length a \<and> length a \<le> 50 \<and> list_all alias_char a)"

text \<open>Comparing a datetime without zone with an aware one raises \<open>TypeError\<close>.\<close>

definition expiry_must_be_future :: "instant \<Rightarrow> py_datetime option \<Rightarrow> instant option result" where
  "expiry_must_be_future now v =
     (case v of
        None \<Rightarrow> Inr None
      | Some (Naive _) \<Rightarrow> Inl PyTypeError
      | Some (Aware t) \<Rightarrow> if t \<le> now then Inl PyValueError else Inr (Some t))"

definition validate_url_create ::
  "(pystr \<Rightarrow> pystr option) \<Rightarrow> instant \<Rightarrow> url_create_body \<Rightarrow> url_create_request result" where
  "validate_url_create http_url now b =
     (case expiry_must_be_future now (b_expires_at b) of
        Inl PyValueError \<Rightarrow> Inl RequestValidationError
      | Inl e \<Rightarrow> Inl e
      | Inr expires \<Rightarrow>
          (case http_url (b_original_url b) of
             None \<Rightarrow> Inl RequestValidationError
           | Some url \<Rightarrow>
               if alias_field (b_custom_alias b) \<and> varchar 255 (b_title b)
               then Inr \<lparr>c_original_url = url, c_custom_alias = b_custom_alias b, c_title = b_title b,
                         c_expires_at = expires, c_is_public = b_is_public b\<rparr>
               else Inl RequestValidationError))"

record url_update_request =
  u_title :: "pystr option"
  u_expires_at :: "py_datetime option"
  u_set_active :: "bool option"
  u_set_public :: "bool option"

definition validate_url_update :: "url_update_request \<Rightarrow> url_update_request result" where
  "validate_url_update d = (if varchar 255 (u_title d) then Inr d else Inl RequestValidationError)"

text \<open>\<open>data.model_dump(exclude_none=True)\<close>.\<close>

definition dump_updates :: "url_update_request \<Rightarrow> url_attr list" where
  "dump_updates d =
     (case u_title d of None \<Rightarrow> [] | Some t \<Rightarrow> [AttrTitle t]) @
     (case u_expires_at d of None \<Rightarrow> [] | Some e \<Rightarrow> [AttrExpiresAt e]) @
     (case u_set_active d of None \<Rightarrow> [] | Some b \<Rightarrow> [AttrIsActive b]) @
     (case u_set_public d of None \<Rightarrow> [] | Some b \<Rightarrow> [AttrIsPublic b])"

record url_response =
  r_id :: uuid
  r_original_url :: pystr
  r_short_code :: pystr
  r_custom_alias :: "pystr option"
  r_title :: "pystr option"
  r_short_url :: pystr
  r_owner_id :: "uuid option"
  r_is_active :: bool
  r_is_public :: bool
  r_expires_at :: "instant option"
  r_click_count :: int
  r_created_at :: instant
  r_updated_at :: instant

record url_list_response =
  items :: "url_response list"
  total :: int
  page :: int
  size :: int
  pages :: int

section \<open>\<open>schemas/auth.py\<close>\<close>

record register_request =
  reg_email :: pystr
  reg_password :: pystr
  reg_full_name :: "pystr option"

record login_request =
  login_email :: pystr
  login_password :: pystr

record token_response =
  access_token :: pystr
  refresh_token :: pystr
  token_type :: pystr
  expires_in :: int

record user_response =
  ur_id :: uuid
  ur_email :: pystr
  ur_full_name :: "pystr option"
  ur_role :: pystr
  ur_is_active :: bool
  ur_is_verified :: bool

definition password_strength :: "pystr \<Rightarrow> pystr result" where
  "password_strength v =
     (if \<not> list_ex py_isupper v then Inl PyValueError
      else if \<not> list_ex py_isdigit v then Inl PyValueError
      else Inr v)"

definition validate_register :: "(pystr \<Rightarrow> pystr option) \<Rightarrow> register_request \<Rightarrow> register_request result" where
  "validate_register email_str d =
     (case email_str (reg_email d) of
        None \<Rightarrow> Inl RequestValidationError
      | Some e \<Rightarrow>
          if 8 \<le> length (reg_password d) \<and> length (reg_password d) \<le> 128 \<and>
             (case password_strength (reg_password d) of Inr _ \<Rightarrow> True | Inl _ \<Rightarrow> False) \<and> varchar 255 (reg_full_name d)
          then Inr (d\<lparr>reg_email := e\<rparr>)
          else Inl RequestValidationError)"

definition validate_login :: "(pystr \<Rightarrow> pystr option) \<Rightarrow> login_request \<Rightarrow> login_request result" where
  "validate_login email_str d =
     (case email_str (login_email d) of
        None \<Rightarrow> Inl RequestValidationError | Some e \<Rightarrow> Inr (d\<lparr>login_email := e\<rparr>))"

definition user_to_response :: "user \<Rightarrow> user_response" where
  "user_to_response u =
     \<lparr>ur_id = row_id u, ur_email = email u, ur_full_name = full_name u, ur_role = role u,
      ur_is_active = u_is_active u, ur_is_verified = is_verified u\<rparr>"

section \<open>\<open>schemas/analytics.py\<close>\<close>

text \<open>A percentage is a number of tenths.\<close>

record dimension_breakdown =
  label :: pystr
  d_count :: int
  percentage :: int

record daily_click_stat =
  d_date :: int
  clicks :: int
  d_unique_visitors :: int

record analytics_summary =
  s_short_code :: pystr
  s_total_clicks :: int
  s_unique_visitors :: int
  top_countries :: "dimension_breakdown list"
  top_browsers :: "dimension_breakdown list"
  top_os :: "dimension_breakdown list"
  top_devices :: "dimension_breakdown list"
  top_referrers :: "dimension_breakdown list"
  daily_stats :: "daily_click_stat list"
  period_days :: int

text \<open>Declared and used by no endpoint.\<close>

record click_event_data =
  ce_short_url_id :: uuid
  ce_visitor_hash :: "pystr option"
  ce_country :: "pystr option"
  ce_city :: "pystr option"
  ce_referrer :: "pystr option"
  ce_user_agent :: "pystr option"
  ce_browser :: "pystr option"
  ce_os :: "pystr option"
  ce_device :: "pystr option"

record analytics_detail_response =
  ad_short_url_id :: uuid
  ad_short_code :: pystr
  ad_snapshot_date :: int
  ad_total_clicks :: int
  ad_unique_visitors :: int
  ad_country_data :: json
  ad_browser_data :: json
  ad_os_data :: json
  ad_device_data :: json
  ad_referrer_data :: json

section \<open>\<open>schemas/common.py\<close>\<close>

record 'a api_response =
  api_success :: bool
  api_message :: pystr
  api_data :: "'a option"

definition api_default :: "'a api_response" where
  "api_default = \<lparr>api_success = True, api_message = ''OK'', api_data = None\<rparr>"

record 'a paginated_response =
  pr_items :: "'a list"
  pr_total :: int
  pr_page :: int
  pr_size :: int
  pr_pages :: int

record error_detail =
  err_code :: pystr
  err_message :: pystr
  err_details :: "json option"

section \<open>What validation guarantees\<close>

text \<open>Datetimes of Python lie between the years 1 and 9999.\<close>

definition expiry_in_range :: "instant option \<Rightarrow> bool" where
  "expiry_in_range e \<longleftrightarrow> (case e of None \<Rightarrow> True | Some t \<Rightarrow> 0 \<le> t \<and> t < max_instant)"

definition valid_create :: "url_create_request \<Rightarrow> bool" where
  "valid_create d \<longleftrightarrow> alias_field (c_custom_alias d) \<and> varchar 255 (c_title d) \<and>
     expiry_in_range (c_expires_at d)"

lemma validated_create:
  assumes "validate_url_create http_url now b = Inr d"
    and "\<And>t. b_expires_at b = Some (Aware t) \<Longrightarrow> 0 \<le> t \<and> t < max_instant"
  shows "valid_create d" "http_url (b_original_url b) = Some (c_original_url d)"
    "\<And>t. c_expires_at d = Some t \<Longrightarrow> now < t"
  using assms
  by (auto simp: validate_url_create_def valid_create_def expiry_must_be_future_def expiry_in_range_def
      split: option.splits sum.splits exn.splits py_datetime.splits if_splits)

lemma alias_nonempty: "alias_field (Some a) \<Longrightarrow> a \<noteq> []"
  by auto

text \<open>The attributes of an update: applying them sets exactly the given fields.\<close>

lemma fold_dump_updates:
  "fold (url_setattr to_utc) (dump_updates d) s =
    s\<lparr>title := (case u_title d of None \<Rightarrow> title s | Some t \<Rightarrow> Some t),
      expires_at := (case u_expires_at d of None \<Rightarrow> expires_at s | Some e \<Rightarrow> Some (utc_of to_utc e)),
      is_active := (case u_set_active d of None \<Rightarrow> is_active s | Some b \<Rightarrow> b),
      is_public := (case u_set_public d of None \<Rightarrow> is_public s | Some b \<Rightarrow> b)\<rparr>"
  by (simp add: dump_updates_def split: option.splits)

lemma no_change_same:
  "\<not> list_ex (url_attr_changes s) as \<Longrightarrow> fold (url_setattr to_utc) as s = s"
proof (induction as)
  case Nil
  then show ?case by simp
next
  case (Cons a as)
  then have "url_setattr to_utc a s = s"
    by (cases "(s, a)" rule: url_attr_changes.cases) (auto simp: utc_of_def)
  with Cons show ?case by simp
qed

end
