(* ===== verification/Summary_Json.thy ===== *)
theory Summary_Json
  imports Schemas
begin

text \<open>
  One JSON form of the summaries, with which the laws that the program relies on hold: the form that the documentation
  of pydantic gives for the fields of \<open>app/schemas/analytics.py\<close>.  The model takes the two functions as arguments
  (theory \<open>World\<close>); these are their values in the environment of the witnesses.
\<close>

section \<open>Dates\<close>

definition date_isoformat :: "int \<Rightarrow> pystr" where
  "date_isoformat n =
     (let (y, m, d) = ord_to_ymd (nat n)
      in show_fixed 10 4 y @ ''-'' @ show_fixed 10 2 m @ ''-'' @ show_fixed 10 2 d)"

definition date_fromisoformat :: "pystr \<Rightarrow> int option" where
  "date_fromisoformat s =
     do {
       (y, s) \<leftarrow> read_field 4 s; s \<leftarrow> expect ''-'' s;
       (m, s) \<leftarrow> read_field 2 s; s \<leftarrow> expect ''-'' s;
       (d, s) \<leftarrow> read_field 2 s;
       if s = [] \<and> 1 \<le> y \<and> 1 \<le> m \<and> m \<le> 12 \<and> 1 \<le> d \<and> d \<le> days_in_month (is_leap y) m
       then Some (int (ymd_to_ord y m d)) else None
     }"

definition date_range :: "int \<Rightarrow> bool" where
  "date_range n \<longleftrightarrow> 0 \<le> n \<and> n < 3652059"

lemma date_roundtrip:
  assumes "date_range n"
  shows "date_fromisoformat (date_isoformat n) = Some n"
proof -
  obtain y m d where ymd: "ord_to_ymd (nat n) = (y, m, d)" by (cases "ord_to_ymd (nat n)")
  have n: "0 \<le> n" "nat n < 3652059" using assms by (auto simp: date_range_def)
  note v = ord_to_ymd_valid [OF ymd] and yr = ord_to_ymd_year [OF ymd n(2)]
  have d: "d < 100" "m < 100" using v days_in_month_le [of m "is_leap y"] by auto
  show ?thesis
    using v yr d n(1) read_field_show [of 2 d "[]"]
    by (simp add: date_isoformat_def date_fromisoformat_def ymd read_field_show)
qed

section \<open>JSON form\<close>

definition breakdown_to_json :: "dimension_breakdown \<Rightarrow> json" where
  "breakdown_to_json b =
     JObj [(''label'', JStr (label b)), (''count'', JInt (d_count b)), (''percentage'', JDec (percentage b))]"

definition daily_to_json :: "daily_click_stat \<Rightarrow> json" where
  "daily_to_json d =
     JObj [(''date'', JStr (date_isoformat (d_date d))), (''clicks'', JInt (clicks d)),
           (''unique_visitors'', JInt (d_unique_visitors d))]"

definition summary_to_json :: "analytics_summary \<Rightarrow> json" where
  "summary_to_json s =
     JObj [(''short_code'', JStr (s_short_code s)),
           (''total_clicks'', JInt (s_total_clicks s)),
           (''unique_visitors'', JInt (s_unique_visitors s)),
           (''top_countries'', JArr (map breakdown_to_json (top_countries s))),
           (''top_browsers'', JArr (map breakdown_to_json (top_browsers s))),
           (''top_os'', JArr (map breakdown_to_json (top_os s))),
           (''top_devices'', JArr (map breakdown_to_json (top_devices s))),
           (''top_referrers'', JArr (map breakdown_to_json (top_referrers s))),
           (''daily_stats'', JArr (map daily_to_json (daily_stats s))),
           (''period_days'', JInt (period_days s))]"

fun as_str :: "json \<Rightarrow> pystr option" where
  "as_str (JStr s) = Some s"
| "as_str _ = None"

fun as_int :: "json \<Rightarrow> int option" where
  "as_int (JInt n) = Some n"
| "as_int _ = None"

fun as_tenths :: "json \<Rightarrow> int option" where
  "as_tenths (JDec n) = Some n"
| "as_tenths (JInt n) = Some (10 * n)"
| "as_tenths _ = None"

fun as_list :: "(json \<Rightarrow> 'a option) \<Rightarrow> json \<Rightarrow> 'a list option" where
  "as_list f (JArr xs) = those (map f xs)"
| "as_list f _ = None"

definition field :: "(json \<Rightarrow> 'a option) \<Rightarrow> json \<Rightarrow> pystr \<Rightarrow> 'a option" where
  "field f j k = Option.bind (obj_lookup j k) f"

definition breakdown_of_json :: "json \<Rightarrow> dimension_breakdown option" where
  "breakdown_of_json j =
     do {
       l \<leftarrow> field as_str j ''label'';
       n \<leftarrow> field as_int j ''count'';
       p \<leftarrow> field as_tenths j ''percentage'';
       Some \<lparr>label = l, d_count = n, percentage = p\<rparr>
     }"

definition daily_of_json :: "json \<Rightarrow> daily_click_stat option" where
  "daily_of_json j =
     do {
       s \<leftarrow> field as_str j ''date'';
       d \<leftarrow> date_fromisoformat s;
       n \<leftarrow> field as_int j ''clicks'';
       u \<leftarrow> field as_int j ''unique_visitors'';
       Some \<lparr>d_date = d, clicks = n, d_unique_visitors = u\<rparr>
     }"

definition summary_of_json :: "json \<Rightarrow> analytics_summary option" where
  "summary_of_json j =
     do {
       c \<leftarrow> field as_str j ''short_code'';
       n \<leftarrow> field as_int j ''total_clicks'';
       u \<leftarrow> field as_int j ''unique_visitors'';
       countries \<leftarrow> field (as_list breakdown_of_json) j ''top_countries'';
       browsers \<leftarrow> field (as_list breakdown_of_json) j ''top_browsers'';
       os_list \<leftarrow> field (as_list breakdown_of_json) j ''top_os'';
       devices \<leftarrow> field (as_list breakdown_of_json) j ''top_devices'';
       referrers \<leftarrow> field (as_list breakdown_of_json) j ''top_referrers'';
       daily \<leftarrow> field (as_list daily_of_json) j ''daily_stats'';
       days \<leftarrow> field as_int j ''period_days'';
       Some \<lparr>s_short_code = c, s_total_clicks = n, s_unique_visitors = u, top_countries = countries,
             top_browsers = browsers, top_os = os_list, top_devices = devices, top_referrers = referrers,
             daily_stats = daily, period_days = days\<rparr>
     }"

section \<open>Round trip\<close>

lemma field_obj [simp]:
  "field f (JObj ((k, v) # kvs)) k' = (if k = k' then f v else field f (JObj kvs) k')"
  by (auto simp: field_def)

lemma as_list_map: "(\<And>x. x \<in> set xs \<Longrightarrow> f (g x) = Some x) \<Longrightarrow> as_list f (JArr (map g xs)) = Some xs"
  by (induction xs) auto

lemma breakdown_roundtrip [simp]: "breakdown_of_json (breakdown_to_json b) = Some b"
  by (simp add: breakdown_of_json_def breakdown_to_json_def)

lemma daily_roundtrip: "date_range (d_date d) \<Longrightarrow> daily_of_json (daily_to_json d) = Some d"
  by (simp add: daily_of_json_def daily_to_json_def date_roundtrip)

definition summary_dates :: "analytics_summary \<Rightarrow> bool" where
  "summary_dates s \<longleftrightarrow> list_all (\<lambda>d. date_range (d_date d)) (daily_stats s)"

lemma summary_of_to_json: "summary_dates s \<Longrightarrow> summary_of_json (summary_to_json s) = Some s"
  unfolding summary_dates_def summary_of_json_def summary_to_json_def
  by (simp add: as_list_map daily_roundtrip list_all_iff del: as_list.simps)

lemma summary_json_wf [simp]: "json_wf (summary_to_json s)"
  by (simp add: summary_to_json_def breakdown_to_json_def daily_to_json_def list_all_iff)

end
