(* ===== verification/World.thy ===== *)
theory World
  imports Analytics_Cache Summary_Json
begin

text \<open>
  What the services share: the third-party functions they call (arguments of every definition,
  gathered in one record that extends the Redis commands), the state of a deployment, and the
  database session of a request (\<open>app/db/session.py\<close>).
\<close>

section \<open>Third-party functions\<close>

text \<open>
  The claims of a token.  The encoder turns the datetime under \<open>exp\<close> into whole seconds (here on the scale of
  \<open>instant\<close>).
\<close>

record claims =
  sub :: "pystr option"
  exp_claim :: int
  type_claim :: "pystr option"

text \<open>What \<open>user_agents.parse\<close> finds in a header.\<close>

record ua_info =
  ua_browser :: pystr
  ua_os :: pystr
  ua_mobile :: bool
  ua_tablet :: bool
  ua_bot :: bool

text \<open>The arguments that \<open>QRService._render\<close> gives to the \<open>qrcode\<close> package.\<close>

record qr_options =
  qr_version :: nat
  qr_error_correction :: pystr
  qr_box_size :: nat
  qr_border :: nat
  qr_fit :: bool
  qr_fill_color :: pystr
  qr_back_color :: pystr
  qr_format :: pystr

text \<open>
  \<open>qr_image\<close> is the whole of \<open>qrcode\<close> and its image library, \<open>script_digest\<close> the SHA-1 by which Redis names the
  limiter's script.  \<open>summary_dump\<close> and \<open>summary_load\<close> are pydantic's \<open>model_dump(mode="json")\<close> and the constructor with
  validation, for \<open>AnalyticsSummary\<close>.
\<close>

record 'r ext = "'r redis_ops" +
  local_to_utc :: "int \<Rightarrow> instant"
  http_url :: "pystr \<Rightarrow> pystr option"
  email_str :: "pystr \<Rightarrow> pystr option"
  sha256_hex :: "pystr \<Rightarrow> pystr"
  pwd_hash :: "nat \<Rightarrow> pystr \<Rightarrow> pystr"
  pwd_verify :: "pystr \<Rightarrow> pystr \<Rightarrow> bool"
  jwt_encode :: "claims \<Rightarrow> pystr \<Rightarrow> pystr \<Rightarrow> pystr"
  jwt_decode :: "instant \<Rightarrow> pystr \<Rightarrow> pystr \<Rightarrow> pystr \<Rightarrow> claims option"
  ua_parse :: "pystr \<Rightarrow> ua_info"
  qr_image :: "qr_options \<Rightarrow> pystr \<Rightarrow> pystr"
  script_digest :: pystr
  summary_dump :: "analytics_summary \<Rightarrow> json"
  summary_load :: "json \<Rightarrow> analytics_summary option"

definition render_png :: "('r, 'x) ext_scheme \<Rightarrow> pystr \<Rightarrow> pystr" where
  "render_png E url =
     qr_image E \<lparr>qr_version = 1, qr_error_correction = ''ERROR_CORRECT_L'', qr_box_size = 10, qr_border = 4,
       qr_fit = True, qr_fill_color = ''black'', qr_back_color = ''white'', qr_format = ''PNG''\<rparr> url"

section \<open>State and sessions\<close>

record 'r world =
  w_db :: database
  w_redis :: 'r

type_synonym ('r, 'a) handler = "'r world \<Rightarrow> 'a result \<times> 'r world"

text \<open>
  \<open>get_db_session\<close>: commit when the request succeeds, roll back when it raises.  What was sent to
  Redis stays.
\<close>

definition with_session :: "('r, 'a) handler \<Rightarrow> ('r, 'a) handler" where
  "with_session body w =
     (case body w of
        (Inr v, w') \<Rightarrow> (Inr v, w')
      | (Inl e, w') \<Rightarrow> (Inl e, w'\<lparr>w_db := w_db w\<rparr>))"

lemma with_session_simps [simp]:
  "body w = (Inr v, w') \<Longrightarrow> with_session body w = (Inr v, w')"
  "body w = (Inl e, w') \<Longrightarrow> with_session body w = (Inl e, w'\<lparr>w_db := w_db w\<rparr>)"
  by (simp_all add: with_session_def)

lemma with_session_cases:
  obtains v w' where "with_session body w = (Inr v, w')" "body w = (Inr v, w')"
  | e w' where "with_session body w = (Inl e, w'\<lparr>w_db := w_db w\<rparr>)" "body w = (Inl e, w')"
  by (cases "body w"; cases "fst (body w)") auto

lemma with_session_fst [simp]: "fst (with_session body w) = fst (body w)"
  by (cases "body w"; cases "fst (body w)") (auto simp: with_session_def)

section \<open>The contract of the environment\<close>

text \<open>
  The services run against a Redis server that keeps its promises, with positive times to live, a time zone that keeps
  datetimes between the years 1 and 9999, and a pydantic whose dump of a summary is a JSON object, which the constructor
  takes back when the days are dates of Python.
\<close>

locale services = shortener_redis E look cfg
  for E :: "('r, 'x) ext_scheme" and look :: "'r \<Rightarrow> instant \<Rightarrow> pystr \<Rightarrow> redis_value option" and cfg :: settings +
  assumes utc_range: "0 \<le> local_to_utc E n \<and> local_to_utc E n < max_instant"
    and summary_dump_object: "\<exists>kvs. summary_dump E s = JObj kvs \<and> kvs \<noteq> []"
    and summary_dump_wf: "json_wf (summary_dump E s)"
    and summary_load_dump: "summary_dates s \<Longrightarrow> summary_load E (summary_dump E s) = Some s"

text \<open>
  One environment: the store of \<open>Redis\<close>, and simple functions in place of the libraries.  A token is
  its claims in clear text, signed with the key.
\<close>

definition sample_encode :: "claims \<Rightarrow> pystr \<Rightarrow> pystr \<Rightarrow> pystr" where
  "sample_encode c key alg =
     dumps (JArr [str_or_null (sub c), JInt (exp_claim c), str_or_null (type_claim c), JStr key, JStr alg])"

definition sample_decode :: "instant \<Rightarrow> pystr \<Rightarrow> pystr \<Rightarrow> pystr \<Rightarrow> claims option" where
  "sample_decode now key alg tok =
     (case loads tok of
        Some (JArr [s, JInt e, ty, JStr k, JStr a]) \<Rightarrow>
          if k = key \<and> a = alg \<and> now div usec \<le> e
          then Some \<lparr>sub = (case s of JStr x \<Rightarrow> Some x | _ \<Rightarrow> None), exp_claim = e,
                     type_claim = (case ty of JStr x \<Rightarrow> Some x | _ \<Rightarrow> None)\<rparr>
          else None
      | _ \<Rightarrow> None)"

definition sample_digest :: "pystr \<Rightarrow> pystr" where
  "sample_digest s = take 64 (rev s @ replicate 64 (CHR ''0''))"

definition sample_env :: "keyspace ext" where
  "sample_env =
     redis_ops.extend store_ops
       \<lparr>local_to_utc = (\<lambda>n. 0), http_url = Some, email_str = Some, sha256_hex = sample_digest,
        pwd_hash = (\<lambda>salt p. sample_digest p), pwd_verify = (\<lambda>p h. h = sample_digest p),
        jwt_encode = sample_encode, jwt_decode = sample_decode,
        ua_parse = (\<lambda>s. \<lparr>ua_browser = ''Firefox'', ua_os = ''Linux'', ua_mobile = False, ua_tablet = False, ua_bot = False\<rparr>),
        qr_image = (\<lambda>opts s. s), script_digest = ''e0e1f9fa'', summary_dump = summary_to_json, summary_load = summary_of_json\<rparr>"

lemma sample_env_simps:
  "jwt_encode sample_env = sample_encode" "jwt_decode sample_env = sample_decode"
  "sha256_hex sample_env = sample_digest" "pwd_hash sample_env = (\<lambda>salt p. sample_digest p)"
  "pwd_verify sample_env = (\<lambda>p h. h = sample_digest p)" "local_to_utc sample_env = (\<lambda>n. 0)"
  "http_url sample_env = Some" "email_str sample_env = Some" "render_png sample_env = (\<lambda>s. s)"
  by (simp_all add: sample_env_def redis_ops.defs render_png_def fun_eq_iff)

lemma redis_ops_congr:
  assumes "redis_server R look"
    "redis_get R' = redis_get R" "redis_setex R' = redis_setex R" "redis_delete R' = redis_delete R"
    "redis_incr R' = redis_incr R" "redis_expire R' = redis_expire R" "redis_rpush R' = redis_rpush R"
    "redis_llen R' = redis_llen R" "redis_lmpop R' = redis_lmpop R"
    "redis_zremrangebyscore R' = redis_zremrangebyscore R" "redis_zcard R' = redis_zcard R"
    "redis_zadd R' = redis_zadd R"
  shows "redis_server R' look"
  using assms(1) unfolding redis_server_def assms(2-) .

interpretation sample: services sample_env store_look default_settings
proof -
  have "redis_server sample_env store_look"
    by (rule redis_ops_congr [OF store.redis_server_axioms])
      (simp_all add: sample_env_def redis_ops.defs)
  moreover have "services_axioms sample_env"
    by unfold_locales
      (simp_all add: sample_env_def redis_ops.defs max_instant_def usec_def summary_of_to_json, simp add: summary_to_json_def)
  ultimately show "services sample_env store_look default_settings"
    using store_cache.shortener_redis_axioms
    by (simp add: services_def shortener_redis_def)
qed

text \<open>A deployment before its first request.\<close>

definition empty_world :: "keyspace world" where
  "empty_world = \<lparr>w_db = empty_database, w_redis = (\<lambda>_. None)\<rparr>"

end
