(* ===== verification/Py_Net.thy ===== *)
theory Py_Net
  imports Prelude "HOL-Library.Word"
begin

unbundle bit_operations_syntax

text \<open>
  The part of Python's \<open>urllib.parse\<close> and \<open>ipaddress\<close> that \<open>app/utils/url_validator.py\<close> calls:
  \<open>urlparse(url)\<close> with its \<open>scheme\<close> and \<open>hostname\<close>, \<open>ip_address(host)\<close> and membership
  of an address in a network.  The functions follow CPython 3.12.0 branch by branch.  A
  \<open>ValueError\<close> is \<^const>\<open>None\<close>.  The NFKC check of \<open>urlsplit\<close> never fires on Latin-1 text, since no
  Latin-1 character normalises to one of the five reserved delimiters.
\<close>

section \<open>\<open>urlsplit\<close>\<close>

definition is_scheme_char :: "char \<Rightarrow> bool" where
  "is_scheme_char c \<longleftrightarrow> is_ascii_alpha c \<or> is_ascii_digit c \<or> c \<in> {CHR ''+'', CHR ''-'', CHR ''.''}"

definition clean_url :: "pystr \<Rightarrow> pystr" where
  "clean_url url = filter (\<lambda>c. code c \<notin> {9, 10, 13}) (lstrip_by (\<lambda>c. code c \<le> 32) url)"

definition split_scheme :: "pystr \<Rightarrow> pystr \<times> pystr" where
  "split_scheme url =
     (let (pre, found, post) = partition_at (CHR '':'') url
      in if found \<and> pre \<noteq> [] \<and> is_ascii_alpha (hd pre) \<and> list_all is_scheme_char pre
         then (py_lower pre, post) else ([], url))"

definition is_netloc_end :: "char \<Rightarrow> bool" where
  "is_netloc_end c \<longleftrightarrow> c \<in> {CHR ''/'', CHR ''?'', CHR ''#''}"

definition split_netloc :: "pystr \<Rightarrow> pystr" where
  "split_netloc rest =
     (if take 2 rest = ''//'' then takeWhile (\<lambda>c. \<not> is_netloc_end c) (drop 2 rest) else [])"

section \<open>\<open>ipaddress\<close>\<close>

datatype ip_addr = IPv4 "32 word" | IPv6 "128 word"

definition parse_octet :: "pystr \<Rightarrow> nat option" where
  "parse_octet s =
     (if s = [] \<or> \<not> list_all is_ascii_digit s then None
      else if length s > 3 then None
      else if s \<noteq> ''0'' \<and> hd s = CHR ''0'' then None
      else (case read_number 10 s of
              None \<Rightarrow> None
            | Some n \<Rightarrow> if n > 255 then None else Some n))"

fun opt_map :: "('a \<Rightarrow> 'b option) \<Rightarrow> 'a list \<Rightarrow> 'b list option" where
  "opt_map f [] = Some []"
| "opt_map f (x # xs) =
     (case f x of None \<Rightarrow> None
      | Some y \<Rightarrow> (case opt_map f xs of None \<Rightarrow> None | Some ys \<Rightarrow> Some (y # ys)))"

definition parse_ipv4 :: "pystr \<Rightarrow> nat option" where
  "parse_ipv4 s =
     (if s = [] \<or> CHR ''/'' \<in> set s then None
      else (let octets = split_on (CHR ''.'') s
            in if length octets \<noteq> 4 then None
               else map_option (digits_value 256) (opt_map parse_octet octets)))"

definition parse_hextet :: "pystr \<Rightarrow> nat option" where
  "parse_hextet s = (if length s > 4 then None else read_number 16 s)"

definition show_hex :: "nat \<Rightarrow> pystr" where
  "show_hex n = map digit_char (var_digits 16 n)"

text \<open>An IPv4-style last part is replaced by two hexadecimal parts.\<close>

definition expand_v4_tail :: "pystr list \<Rightarrow> pystr list option" where
  "expand_v4_tail parts =
     (if CHR ''.'' \<in> set (last parts)
      then (case parse_ipv4 (last parts) of
              None \<Rightarrow> None
            | Some n \<Rightarrow> Some (butlast parts @ [show_hex (n div 65536 mod 65536), show_hex (n mod 65536)]))
      else Some parts)"

text \<open>The indices of the empty inner parts: at most one may be empty (the \<open>::\<close>).\<close>

definition skip_indices :: "pystr list \<Rightarrow> nat list" where
  "skip_indices parts = filter (\<lambda>i. parts ! i = []) [1..<length parts - 1]"

definition hextets_value :: "pystr list \<Rightarrow> nat \<Rightarrow> pystr list \<Rightarrow> nat option" where
  "hextets_value hi skipped lo =
     (case opt_map parse_hextet hi of None \<Rightarrow> None
      | Some hs \<Rightarrow>
          (case opt_map parse_hextet lo of None \<Rightarrow> None
           | Some ls \<Rightarrow> Some (digits_value 65536 (hs @ replicate skipped 0 @ ls))))"

definition parse_ipv6_parts :: "pystr list \<Rightarrow> nat option" where
  "parse_ipv6_parts parts =
     (if length parts > 9 then None
      else (case skip_indices parts of
              [] \<Rightarrow>
                (if length parts \<noteq> 8 \<or> hd parts = [] \<or> last parts = [] then None
                 else hextets_value parts 0 [])
            | [skip] \<Rightarrow>
                (let lead = (if hd parts = [] then 1 else 0);
                     trail = (if last parts = [] then 1 else 0);
                     parts_hi = skip - lead;
                     parts_lo = length parts - skip - 1 - trail
                 in if lead = 1 \<and> parts_hi \<noteq> 0 then None
                    else if trail = 1 \<and> parts_lo \<noteq> 0 then None
                    else if parts_hi + parts_lo > 7 then None
                    else hextets_value (take parts_hi parts) (8 - (parts_hi + parts_lo))
                           (drop (length parts - parts_lo) parts))
            | _ \<Rightarrow> None))"

definition parse_ipv6 :: "pystr \<Rightarrow> nat option" where
  "parse_ipv6 s =
     (if CHR ''/'' \<in> set s then None
      else (let (addr, sep, scope) = partition_at (CHR ''%'') s
            in if sep \<and> (scope = [] \<or> CHR ''%'' \<in> set scope) then None
               else if addr = [] then None
               else (let parts = split_on (CHR '':'') addr
                     in if length parts < 3 then None
                        else (case expand_v4_tail parts of
                                None \<Rightarrow> None
                              | Some ps \<Rightarrow> parse_ipv6_parts ps))))"

definition ip_address :: "pystr \<Rightarrow> ip_addr option" where
  "ip_address s =
     (case parse_ipv4 s of
        Some n \<Rightarrow> Some (IPv4 (of_nat n))
      | None \<Rightarrow> (case parse_ipv6 s of Some n \<Rightarrow> Some (IPv6 (of_nat n)) | None \<Rightarrow> None))"

section \<open>Networks\<close>

datatype ip_network = Net4 "32 word" nat | Net6 "128 word" nat

definition netmask :: "nat \<Rightarrow> 'a::len word" where
  "netmask plen = NOT (mask (LENGTH('a) - plen))"

fun in_network :: "ip_addr \<Rightarrow> ip_network \<Rightarrow> bool" where
  "in_network (IPv4 a) (Net4 n plen) = (a AND netmask plen = n)"
| "in_network (IPv6 a) (Net6 n plen) = (a AND netmask plen = n)"
| "in_network _ _ = False"

section \<open>Hosts of URLs\<close>

definition is_ip_v_future :: "pystr \<Rightarrow> bool" where
  "is_ip_v_future h =
     (let t = tl h; hex = takeWhile (\<lambda>c. digit_of 16 c \<noteq> None) t;
          rest = dropWhile (\<lambda>c. digit_of 16 c \<noteq> None) t
      in hex \<noteq> [] \<and> take 1 rest = ''.'' \<and> drop 1 rest \<noteq> [] \<and> CHR ''\<newline>'' \<notin> set rest)"

definition bracketed_host_ok :: "pystr \<Rightarrow> bool" where
  "bracketed_host_ok h =
     (if take 1 h = ''v'' then is_ip_v_future h
      else (case ip_address h of Some (IPv6 _) \<Rightarrow> True | _ \<Rightarrow> False))"

definition netloc_ok :: "pystr \<Rightarrow> bool" where
  "netloc_ok netloc =
     (if (CHR ''['' \<in> set netloc) \<noteq> (CHR '']'' \<in> set netloc) then False
      else if CHR ''['' \<in> set netloc
      then bracketed_host_ok
             (fst (partition_at (CHR '']'') (snd (snd (partition_at (CHR ''['') netloc)))))
      else True)"

record split_result =
  sr_scheme :: pystr
  sr_netloc :: pystr

definition urlparse :: "pystr \<Rightarrow> split_result option" where
  "urlparse url =
     (let (scheme, rest) = split_scheme (clean_url url);
          netloc = split_netloc rest
      in if netloc_ok netloc then Some \<lparr>sr_scheme = scheme, sr_netloc = netloc\<rparr> else None)"

definition hostinfo :: "pystr \<Rightarrow> pystr" where
  "hostinfo netloc =
     (let info = rpartition_tail (CHR ''@'') netloc;
          (_, have_open_br, bracketed) = partition_at (CHR ''['') info
      in if have_open_br then fst (partition_at (CHR '']'') bracketed)
         else fst (partition_at (CHR '':'') info))"

text \<open>\<open>parsed.hostname or ""\<close>; the zone of a scoped address keeps its case.\<close>

definition hostname :: "split_result \<Rightarrow> pystr" where
  "hostname r =
     (let (h, percent, zone) = partition_at (CHR ''%'') (hostinfo (sr_netloc r))
      in py_lower h @ (if percent then CHR ''%'' # zone else []))"

end
