(* ===== verification/Url_Validator.thy ===== *)
theory Url_Validator
  imports Py_Net
begin

unbundle bit_operations_syntax

text \<open>
  \<open>app/utils/url_validator.py\<close>: the check that keeps internal hosts out of the service.  The
  lemmas turn the network masks into address intervals and compute what the check sees in a URL
  of the form \<open>scheme://[userinfo@]a.b.c.d[tail]\<close>.
\<close>

definition blocked_hosts :: "pystr list" where
  "blocked_hosts =
     [''localhost'', ''127.0.0.1'', ''0.0.0.0'', ''::1'', ''169.254.169.254'',
      ''metadata.google.internal'']"

definition private_networks :: "ip_network list" where
  "private_networks =
     [Net4 0x0A000000 8,
      Net4 0xAC100000 12,
      Net4 0xC0A80000 16,
      Net4 0x7F000000 8,
      Net4 0xA9FE0000 16,
      Net6 1 128,
      Net6 0xFC000000000000000000000000000000 7]"

definition allowed_schemes :: "pystr list" where
  "allowed_schemes = [''http'', ''https'']"

definition is_safe_url :: "pystr \<Rightarrow> bool" where
  "is_safe_url url =
     (case urlparse url of
        None \<Rightarrow> False
      | Some parsed \<Rightarrow>
          if sr_scheme parsed \<notin> set allowed_schemes then False
          else (let host = hostname parsed
                in if host = [] then False
                   else if host \<in> set blocked_hosts then False
                   else (case ip_address host of
                           Some addr \<Rightarrow> \<not> list_ex (in_network addr) private_networks
                         | None \<Rightarrow> True)))"

section \<open>Masks as intervals\<close>

lemma and_not_mask_shift: "(a :: 'a::len word) AND NOT (mask k) = push_bit k (drop_bit k a)"
  by (rule bit_word_eqI) (auto simp: bit_simps)

lemma net_member_div:
  fixes a n :: "'a::len word"
  assumes "push_bit k (drop_bit k n) = n"
  shows "a AND NOT (mask k) = n \<longleftrightarrow> unat a div 2 ^ k = unat n div 2 ^ k"
proof -
  have "push_bit k (drop_bit k a) = push_bit k (drop_bit k n) \<longleftrightarrow> drop_bit k a = drop_bit k n"
  proof
    assume "push_bit k (drop_bit k a) = push_bit k (drop_bit k n)"
    then have "drop_bit k (push_bit k (drop_bit k a)) = drop_bit k (push_bit k (drop_bit k n))"
      by simp
    moreover have "drop_bit k (push_bit k (drop_bit k x)) = drop_bit k x" for x :: "'a word"
      by (rule bit_word_eqI) (auto simp: bit_simps dest: bit_imp_le_length)
    ultimately show "drop_bit k a = drop_bit k n" by simp
  qed simp
  moreover have "drop_bit k a = drop_bit k n \<longleftrightarrow> unat (drop_bit k a) = unat (drop_bit k n)"
    by (simp add: word_unat_eq_iff)
  moreover have "unat (drop_bit k x) = unat x div 2 ^ k" for x :: "'a word"
    by (subst unat_drop_bit_eq) (rule drop_bit_eq_div)
  ultimately show ?thesis
    using assms by (simp only: and_not_mask_shift)
qed

definition private_v4 :: "nat \<Rightarrow> bool" where
  "private_v4 x \<longleftrightarrow>
     (0x0A000000 \<le> x \<and> x \<le> 0x0AFFFFFF) \<or> (0xAC100000 \<le> x \<and> x \<le> 0xAC1FFFFF) \<or>
     (0xC0A80000 \<le> x \<and> x \<le> 0xC0A8FFFF) \<or> (0x7F000000 \<le> x \<and> x \<le> 0x7FFFFFFF) \<or>
     (0xA9FE0000 \<le> x \<and> x \<le> 0xA9FEFFFF)"

definition private_v6 :: "nat \<Rightarrow> bool" where
  "private_v6 x \<longleftrightarrow> x = 1 \<or> (0xFC000000000000000000000000000000 \<le> x \<and> x < 0xFE000000000000000000000000000000)"

lemma aligned_v4:
  "push_bit 24 (drop_bit 24 (0x0A000000 :: 32 word)) = 0x0A000000"
  "push_bit 20 (drop_bit 20 (0xAC100000 :: 32 word)) = 0xAC100000"
  "push_bit 16 (drop_bit 16 (0xC0A80000 :: 32 word)) = 0xC0A80000"
  "push_bit 24 (drop_bit 24 (0x7F000000 :: 32 word)) = 0x7F000000"
  "push_bit 16 (drop_bit 16 (0xA9FE0000 :: 32 word)) = 0xA9FE0000"
  by simp_all

lemma in_private_v4:
  "list_ex (in_network (IPv4 a)) private_networks \<longleftrightarrow> private_v4 (unat a)"
proof -
  have "a AND NOT (mask 24) = 0x0A000000 \<longleftrightarrow> 0x0A000000 \<le> unat a \<and> unat a \<le> 0x0AFFFFFF"
    by (subst net_member_div) (simp_all add: aligned_v4, arith)
  moreover have "a AND NOT (mask 20) = 0xAC100000 \<longleftrightarrow> 0xAC100000 \<le> unat a \<and> unat a \<le> 0xAC1FFFFF"
    by (subst net_member_div) (simp_all add: aligned_v4, arith)
  moreover have "a AND NOT (mask 16) = 0xC0A80000 \<longleftrightarrow> 0xC0A80000 \<le> unat a \<and> unat a \<le> 0xC0A8FFFF"
    by (subst net_member_div) (simp_all add: aligned_v4, arith)
  moreover have "a AND NOT (mask 24) = 0x7F000000 \<longleftrightarrow> 0x7F000000 \<le> unat a \<and> unat a \<le> 0x7FFFFFFF"
    by (subst net_member_div) (simp_all add: aligned_v4, arith)
  moreover have "a AND NOT (mask 16) = 0xA9FE0000 \<longleftrightarrow> 0xA9FE0000 \<le> unat a \<and> unat a \<le> 0xA9FEFFFF"
    by (subst net_member_div) (simp_all add: aligned_v4, arith)
  ultimately show ?thesis
    by (simp add: private_networks_def netmask_def private_v4_def)
qed

lemma in_private_v6:
  "list_ex (in_network (IPv6 a)) private_networks \<longleftrightarrow> private_v6 (unat a)"
proof -
  have "a AND NOT (mask 0) = 1 \<longleftrightarrow> unat a = 1"
    by (simp add: word_unat_eq_iff)
  moreover have "a AND NOT (mask 121) = 0xFC000000000000000000000000000000 \<longleftrightarrow>
    0xFC000000000000000000000000000000 \<le> unat a \<and> unat a < 0xFE000000000000000000000000000000"
    by (subst net_member_div) (simp_all, arith)
  ultimately show ?thesis
    by (simp add: private_networks_def netmask_def private_v6_def)
qed

section \<open>What the check sees in a URL with a literal IPv4 host\<close>

definition dotted :: "nat \<Rightarrow> nat \<Rightarrow> nat \<Rightarrow> nat \<Rightarrow> pystr" where
  "dotted a b c d =
     show_nat a @ CHR ''.'' # show_nat b @ CHR ''.'' # show_nat c @ CHR ''.'' # show_nat d"

definition quad :: "nat \<Rightarrow> nat \<Rightarrow> nat \<Rightarrow> nat \<Rightarrow> nat" where
  "quad a b c d = ((a * 256 + b) * 256 + c) * 256 + d"

lemma parse_octet_show:
  assumes "n < 256"
  shows "parse_octet (show_nat n) = Some n"
proof -
  have "list_all is_ascii_digit (show_nat n)"
    by (auto simp: list_all_iff dest: show_nat_digit)
  moreover have "length (show_nat n) \<le> 3"
    using length_show_nat [of n 2] assms by simp
  moreover have "show_nat n = ''0'' \<or> hd (show_nat n) \<noteq> CHR ''0''"
    by (cases "n = 0") (auto simp: show_nat_0 hd_show_nat)
  ultimately show ?thesis
    using assms by (auto simp: parse_octet_def read_show_nat)
qed

lemma show_nat_not_in:
  "\<not> is_ascii_digit c \<Longrightarrow> c \<notin> set (show_nat n)"
  using show_nat_digit by blast

lemma dotted_chars: "x \<in> set (dotted a b c d) \<Longrightarrow> is_ascii_digit x \<or> x = CHR ''.''"
  by (auto simp: dotted_def dest: show_nat_digit)

lemma hd_dotted: "is_ascii_digit (hd (dotted a b c d))"
  using show_nat_digit [of "hd (show_nat a)" a] by (simp add: dotted_def hd_append)

lemma dotted_nonempty [simp]: "dotted a b c d \<noteq> []"
  by (simp add: dotted_def)

lemma not_digit_simps [simp]:
  "\<not> is_ascii_digit (CHR ''.'')" "\<not> is_ascii_digit (CHR ''/'')" "\<not> is_ascii_digit (CHR '':'')"
  "\<not> is_ascii_digit (CHR ''?'')" "\<not> is_ascii_digit (CHR ''#'')" "\<not> is_ascii_digit (CHR ''@'')"
  "\<not> is_ascii_digit (CHR ''['')" "\<not> is_ascii_digit (CHR '']'')" "\<not> is_ascii_digit (CHR ''%'')"
  by (simp_all add: is_ascii_digit_def code_def)

lemma parse_ipv4_dotted:
  assumes "a < 256" "b < 256" "c < 256" "d < 256"
  shows "parse_ipv4 (dotted a b c d) = Some (quad a b c d)"
proof -
  have "split_on (CHR ''.'') (dotted a b c d) = [show_nat a, show_nat b, show_nat c, show_nat d]"
    by (simp add: dotted_def split_on_append_sep split_on_no_sep show_nat_not_in)
  moreover have "CHR ''/'' \<notin> set (dotted a b c d)"
    by (auto dest: dotted_chars)
  ultimately show ?thesis
    using assms by (simp add: parse_ipv4_def parse_octet_show digits_value_def quad_def)
qed

lemma quad_less: "a < 256 \<Longrightarrow> b < 256 \<Longrightarrow> c < 256 \<Longrightarrow> d < 256 \<Longrightarrow> quad a b c d < 2 ^ 32"
  by (simp add: quad_def)

lemma ip_address_dotted:
  assumes "a < 256" "b < 256" "c < 256" "d < 256"
  shows "ip_address (dotted a b c d) = Some (IPv4 (of_nat (quad a b c d)))"
  using parse_ipv4_dotted [OF assms] by (simp add: ip_address_def)

lemma unat_quad:
  assumes "a < 256" "b < 256" "c < 256" "d < 256"
  shows "unat (of_nat (quad a b c d) :: 32 word) = quad a b c d"
  using quad_less [OF assms] by (simp add: unat_of_nat)

lemma quad_in_block:
  assumes "b < 256" "c < 256" "d < 256"
  shows "m * 16777216 \<le> quad a b c d \<and> quad a b c d \<le> m * 16777216 + 16777215 \<longleftrightarrow> a = m"
  using assms unfolding quad_def by (cases "a < m"; cases "m < a") auto

lemma quad_in_range:
  assumes "b < 256" "c < 256" "d < 256" "l \<le> h" "h < 256"
  shows "m * 16777216 + l * 65536 \<le> quad a b c d \<and> quad a b c d \<le> m * 16777216 + h * 65536 + 65535
    \<longleftrightarrow> a = m \<and> l \<le> b \<and> b \<le> h"
  using assms unfolding quad_def
  by (cases "a < m"; cases "m < a"; cases "b < l"; cases "h < b") auto

lemma private_quad_iff:
  assumes "b < 256" "c < 256" "d < 256"
  shows "private_v4 (quad a b c d) \<longleftrightarrow>
    a = 10 \<or> (a = 172 \<and> 16 \<le> b \<and> b \<le> 31) \<or> (a = 192 \<and> b = 168) \<or> a = 127 \<or> (a = 169 \<and> b = 254)"
proof -
  have e: "168 \<le> b \<and> b \<le> 168 \<longleftrightarrow> b = 168" "254 \<le> b \<and> b \<le> 254 \<longleftrightarrow> b = 254"
    by auto
  show ?thesis
    using quad_in_block [OF assms, of 10 a] quad_in_block [OF assms, of 127 a]
      quad_in_range [OF assms, of 16 31 172 a] quad_in_range [OF assms, of 168 168 192 a]
      quad_in_range [OF assms, of 254 254 169 a]
    unfolding private_v4_def by (simp add: e)
qed

definition plain :: "pystr \<Rightarrow> bool" where
  "plain s \<longleftrightarrow> list_all (\<lambda>c. code c \<notin> {9, 10, 13}) s"

lemma plain_simps [simp]:
  "plain []"
  "plain (x # xs) \<longleftrightarrow> code x \<notin> {9, 10, 13} \<and> plain xs"
  "plain (xs @ ys) \<longleftrightarrow> plain xs \<and> plain ys"
  by (auto simp: plain_def)

definition userinfo_ok :: "pystr \<Rightarrow> bool" where
  "userinfo_ok ui \<longleftrightarrow> ui = [] \<or>
     (last ui = CHR ''@'' \<and> plain ui \<and>
      list_all (\<lambda>c. \<not> is_netloc_end c \<and> c \<notin> {CHR ''['', CHR '']''}) ui)"

definition port_ok :: "pystr \<Rightarrow> bool" where
  "port_ok p \<longleftrightarrow> p = [] \<or> (hd p = CHR '':'' \<and> list_all is_ascii_digit (tl p))"

definition url_tail_ok :: "pystr \<Rightarrow> bool" where
  "url_tail_ok t \<longleftrightarrow> plain t \<and> (t = [] \<or> is_netloc_end (hd t))"

lemma digit_plain: "is_ascii_digit c \<Longrightarrow> code c \<notin> {9, 10, 13}"
  by (auto simp: is_ascii_digit_def)

lemma clean_url_plain:
  "plain (x # s) \<Longrightarrow> 32 < code x \<Longrightarrow> clean_url (x # s) = x # s"
  by (simp add: clean_url_def lstrip_by_def plain_def list_all_iff filter_id_conv)

lemma split_scheme_allowed:
  assumes "scheme \<in> set allowed_schemes"
  shows "split_scheme (scheme @ ''://'' @ r) = (scheme, ''//'' @ r)"
proof -
  from assms have "CHR '':'' \<notin> set scheme" by (auto simp: allowed_schemes_def)
  then have "partition_at (CHR '':'') (scheme @ ''://'' @ r) = (scheme, True, ''//'' @ r)"
    using partition_at_append [of "CHR '':''" scheme "''//'' @ r"] by simp
  moreover have "scheme \<noteq> [] \<and> is_ascii_alpha (hd scheme) \<and> list_all is_scheme_char scheme \<and> py_lower scheme = scheme"
    using assms
    by (auto simp: allowed_schemes_def is_scheme_char_def is_ascii_alpha_def code_def
        py_lower_def lower_char_def py_isupper_def)
  ultimately show ?thesis by (simp add: split_scheme_def)
qed

lemma split_netloc_host:
  assumes "list_all (\<lambda>c. \<not> is_netloc_end c) n" "t = [] \<or> is_netloc_end (hd t)"
  shows "split_netloc (''//'' @ n @ t) = n"
proof -
  have "takeWhile (\<lambda>c. \<not> is_netloc_end c) (n @ t) = n"
    using assms by (cases t) (auto simp: list_all_iff takeWhile_append2)
  then show ?thesis by (simp add: split_netloc_def)
qed

lemma rpartition_tail_after:
  "c \<notin> set s \<Longrightarrow> rpartition_tail c (u @ c # s) = s"
  by (simp add: rpartition_tail_def takeWhile_tail takeWhile_neq_absent)

lemma hostname_dotted:
  assumes ui: "userinfo_ok ui" and p: "port_ok p"
  shows "hostname \<lparr>sr_scheme = s, sr_netloc = ui @ dotted a b c d @ p\<rparr> = dotted a b c d"
proof -
  let ?h = "dotted a b c d"
  have at: "CHR ''@'' \<notin> set (?h @ p)" and br: "CHR ''['' \<notin> set (?h @ p)"
    using p by (cases p; auto simp: port_ok_def list_all_iff dest: dotted_chars)+
  have colon: "CHR '':'' \<notin> set ?h" by (auto dest: dotted_chars)
  have "rpartition_tail (CHR ''@'') (ui @ ?h @ p) = ?h @ p"
  proof (cases "ui = []")
    case True
    then show ?thesis using at by (simp add: rpartition_tail_absent)
  next
    case False
    with ui have "ui = butlast ui @ [CHR ''@'']"
      by (metis append_butlast_last_id userinfo_ok_def)
    then show ?thesis
      using rpartition_tail_after [OF at, of "butlast ui"] by (metis append.assoc append_Cons append_Nil)
  qed
  moreover have "fst (partition_at (CHR '':'') (?h @ p)) = ?h"
  proof (cases "p = []")
    case True
    then show ?thesis using colon by (simp add: partition_at_absent)
  next
    case False
    with p have "p = CHR '':'' # tl p" by (cases p) (auto simp: port_ok_def)
    then show ?thesis
      using partition_at_append [of "CHR '':''" ?h "tl p"] colon by (metis fst_conv)
  qed
  ultimately have "hostinfo (ui @ ?h @ p) = ?h"
    using br by (simp add: hostinfo_def partition_at_absent)
  moreover have "CHR ''%'' \<notin> set ?h" by (auto dest: dotted_chars)
  moreover have "py_lower ?h = ?h"
    by (rule py_lower_id) (auto simp: py_isupper_def is_ascii_digit_def code_def dest!: dotted_chars)
  ultimately show ?thesis by (simp add: hostname_def partition_at_absent)
qed

lemma port_chars: "port_ok p \<Longrightarrow> x \<in> set p \<Longrightarrow> is_ascii_digit x \<or> x = CHR '':''"
  by (cases p) (auto simp: port_ok_def list_all_iff)

lemma host_port_chars:
  "port_ok p \<Longrightarrow> x \<in> set (dotted a b c d @ p) \<Longrightarrow>
    is_ascii_digit x \<or> x = CHR ''.'' \<or> x = CHR '':''"
  using dotted_chars [of x a b c d] port_chars [of p x] by auto

lemma host_port_not_in:
  "port_ok p \<Longrightarrow> \<not> is_ascii_digit x \<Longrightarrow> x \<noteq> CHR ''.'' \<Longrightarrow> x \<noteq> CHR '':'' \<Longrightarrow>
    x \<notin> set (dotted a b c d @ p)"
  using host_port_chars by blast

lemma netloc_ok_dotted:
  assumes "userinfo_ok ui" "port_ok p"
  shows "netloc_ok (ui @ dotted a b c d @ p)"
proof -
  have "CHR ''['' \<notin> set ui" "CHR '']'' \<notin> set ui"
    using assms(1) by (auto simp: userinfo_ok_def list_all_iff)
  moreover have "CHR ''['' \<notin> set (dotted a b c d @ p)" "CHR '']'' \<notin> set (dotted a b c d @ p)"
    by (rule host_port_not_in [OF assms(2)]; simp)+
  ultimately show ?thesis by (simp add: netloc_ok_def)
qed

lemma netloc_plain:
  assumes "userinfo_ok ui" "port_ok p"
  shows "list_all (\<lambda>c. \<not> is_netloc_end c) (ui @ dotted a b c d @ p)"
proof -
  have "list_all (\<lambda>c. \<not> is_netloc_end c) ui"
    using assms(1) by (auto simp: userinfo_ok_def list_all_iff)
  moreover have "\<not> is_netloc_end x" if "x \<in> set (dotted a b c d @ p)" for x
    using host_port_chars [OF assms(2) that] by (auto simp: is_netloc_end_def)
  ultimately show ?thesis by (auto simp: list_all_iff)
qed

lemma host_port_plain: "port_ok p \<Longrightarrow> plain (dotted a b c d @ p)"
  unfolding plain_def list_all_iff
proof
  fix x
  assume "port_ok p" "x \<in> set (dotted a b c d @ p)"
  from host_port_chars [OF this] show "code x \<notin> {9, 10, 13}"
    using digit_plain by (auto simp: code_def)
qed

lemma quad_inject:
  assumes "quad a b c d = quad a' b' c' d'" "b < 256" "c < 256" "d < 256" "b' < 256" "c' < 256" "d' < 256"
  shows "a = a' \<and> b = b' \<and> c = c' \<and> d = d'"
proof -
  have step: "x = y \<and> u = v" if "x * 256 + u = y * 256 + v" "u < 256" "v < 256" for x y u v :: nat
  proof -
    have "x = y"
      using that by (cases x y rule: linorder_cases) linarith+
    with that show ?thesis by simp
  qed
  from assms(1) have "((a * 256 + b) * 256 + c) * 256 + d = ((a' * 256 + b') * 256 + c') * 256 + d'"
    by (simp add: quad_def)
  from step [OF this] assms have "(a * 256 + b) * 256 + c = (a' * 256 + b') * 256 + c'" "d = d'"
    by auto
  moreover from step [OF this(1)] assms have "a * 256 + b = a' * 256 + b'" "c = c'"
    by auto
  moreover from step [OF this(1)] assms have "a = a'" "b = b'"
    by auto
  ultimately show ?thesis by simp
qed

lemma urlparse_dotted:
  assumes s: "scheme \<in> set allowed_schemes" and ui: "userinfo_ok ui" and p: "port_ok p"
    and t: "url_tail_ok t"
  shows "urlparse (scheme @ ''://'' @ ui @ dotted a b c d @ p @ t)
    = Some \<lparr>sr_scheme = scheme, sr_netloc = ui @ dotted a b c d @ p\<rparr>"
proof -
  let ?n = "ui @ dotted a b c d @ p"
  have "plain ui"
    using ui by (auto simp: userinfo_ok_def)
  moreover note host_port_plain [OF p, of a b c d]
  moreover have "plain ''://''" "plain t"
    using t by (simp_all add: url_tail_ok_def code_def)
  moreover have x: "scheme = CHR ''h'' # tl scheme" and "plain (tl scheme)"
    using s by (auto simp: allowed_schemes_def code_def)
  moreover have "plain ''h''" and h: "32 < code (CHR ''h'')" by (simp_all add: code_def)
  ultimately have "plain (CHR ''h'' # tl scheme @ ''://'' @ ?n @ t)"
    by (simp only: plain_simps simp_thms append.assoc)
  from clean_url_plain [OF this h]
  have "clean_url (scheme @ ''://'' @ ?n @ t) = scheme @ ''://'' @ ?n @ t"
    using x by (metis append_Cons append.assoc)
  moreover have "split_netloc (''//'' @ ?n @ t) = ?n"
    using netloc_plain [OF ui p] t by (intro split_netloc_host) (auto simp: url_tail_ok_def)
  ultimately show ?thesis
    using split_scheme_allowed [OF s, of "?n @ t"] netloc_ok_dotted [OF ui p]
    by (simp add: urlparse_def)
qed

lemma dotted_blocked_iff:
  assumes "a < 256" "b < 256" "c < 256" "d < 256"
  shows "dotted a b c d \<in> set blocked_hosts \<longleftrightarrow>
    quad a b c d \<in> {0x7F000001, 0, 0xA9FEA9FE}"
proof -
  have inj: "dotted a b c d = dotted a' b' c' d' \<longleftrightarrow> quad a b c d = quad a' b' c' d'"
    if "a' < 256" "b' < 256" "c' < 256" "d' < 256" for a' b' c' d'
  proof
    assume "dotted a b c d = dotted a' b' c' d'"
    then show "quad a b c d = quad a' b' c' d'"
      using parse_ipv4_dotted [OF assms] parse_ipv4_dotted [OF that] by simp
  next
    assume "quad a b c d = quad a' b' c' d'"
    from quad_inject [OF this] assms that show "dotted a b c d = dotted a' b' c' d'" by simp
  qed
  have "dotted 127 0 0 1 = ''127.0.0.1''" "dotted 0 0 0 0 = ''0.0.0.0''"
    "dotted 169 254 169 254 = ''169.254.169.254''"
    by code_simp+
  moreover have "quad 127 0 0 1 = 0x7F000001" "quad 0 0 0 0 = 0" "quad 169 254 169 254 = 0xA9FEA9FE"
    by (simp_all add: quad_def)
  moreover have "dotted a b c d \<noteq> ''localhost'' \<and> dotted a b c d \<noteq> ''::1'' \<and>
      dotted a b c d \<noteq> ''metadata.google.internal''"
    using hd_dotted [of a b c d] by (auto simp: is_ascii_digit_def code_def)
  ultimately show ?thesis
    using inj [of 127 0 0 1] inj [of 0 0 0 0] inj [of 169 254 169 254]
    by (simp add: blocked_hosts_def)
qed

section \<open>IPv4-mapped literals\<close>

definition mapped :: "nat \<Rightarrow> nat \<Rightarrow> nat \<Rightarrow> nat \<Rightarrow> pystr" where
  "mapped a b c d = ''::ffff:'' @ dotted a b c d"

lemma parse_hextet_show_hex: "n < 65536 \<Longrightarrow> parse_hextet (show_hex n) = Some n"
proof -
  assume n: "n < 65536"
  have "read_digits 16 (show_hex n) = Some (var_digits 16 n)"
    unfolding show_hex_def by (rule read_digits_map) (auto dest: var_digits_less [rotated])
  moreover have "length (show_hex n) \<le> 4"
    using length_var_digits [of 16 n 3] n by (simp add: show_hex_def)
  ultimately show ?thesis
    by (simp add: parse_hextet_def read_number_def show_hex_def digits_value_var)
qed

lemma mapped_chars:
  "x \<in> set (mapped a b c d) \<Longrightarrow> is_ascii_digit x \<or> x \<in> {CHR ''.'', CHR '':'', CHR ''f''}"
  using dotted_chars [of x a b c d] by (auto simp: mapped_def)

lemma split_mapped:
  "split_on (CHR '':'') (mapped a b c d) = [[], [], ''ffff'', dotted a b c d]"
proof -
  have "CHR '':'' \<notin> set (dotted a b c d)" by (auto dest: dotted_chars)
  then show ?thesis by (simp add: mapped_def split_on_no_sep)
qed

lemma parse_ipv6_mapped:
  assumes "a < 256" "b < 256" "c < 256" "d < 256"
  shows "parse_ipv6 (mapped a b c d) = Some (0xffff00000000 + quad a b c d)"
proof -
  let ?q = "quad a b c d"
  have q: "?q div 65536 < 65536" "?q div 65536 mod 65536 = ?q div 65536"
    using quad_less [OF assms] by auto
  have dot: "CHR ''.'' \<in> set (dotted a b c d)" by (simp add: dotted_def)
  have "parse_hextet ''ffff'' = Some 65535" by code_simp
  moreover have r: "replicate 5 (0::nat) = [0, 0, 0, 0, 0]" by (simp add: numeral_eq_Suc)
  ultimately have "hextets_value [] 5 [''ffff'', show_hex (?q div 65536), show_hex (?q mod 65536)]
      = Some (0xffff00000000 + ?q)"
    using q by (simp add: hextets_value_def parse_hextet_show_hex digits_value_def r)
  moreover have "skip_indices [[], [], ''ffff'', show_hex (?q div 65536), show_hex (?q mod 65536)] = [1]"
    by (simp add: skip_indices_def upt_rec show_hex_def nth_Cons')
  ultimately have "parse_ipv6_parts [[], [], ''ffff'', show_hex (?q div 65536), show_hex (?q mod 65536)]
      = Some (0xffff00000000 + ?q)"
    by (simp add: parse_ipv6_parts_def show_hex_def)
  moreover have "CHR ''/'' \<notin> set (mapped a b c d)" "CHR ''%'' \<notin> set (mapped a b c d)"
    by (auto dest!: mapped_chars)
  moreover have "mapped a b c d \<noteq> []" by (simp add: mapped_def)
  ultimately show ?thesis
    using parse_ipv4_dotted [OF assms] dot q
    by (simp add: parse_ipv6_def partition_at_absent split_mapped expand_v4_tail_def)
qed

lemma ip_address_mapped:
  assumes "a < 256" "b < 256" "c < 256" "d < 256"
  shows "ip_address (mapped a b c d) = Some (IPv6 (of_nat (0xffff00000000 + quad a b c d)))"
proof -
  have "parse_octet (takeWhile (\<lambda>x. x \<noteq> CHR ''.'') (mapped a b c d)) = None"
    by (simp add: mapped_def parse_octet_def is_ascii_digit_def code_def)
  then have "parse_octet (hd (split_on (CHR ''.'') (mapped a b c d))) = None"
    by (simp add: hd_split_on)
  then have "parse_ipv4 (mapped a b c d) = None"
    by (cases "split_on (CHR ''.'') (mapped a b c d)") (auto simp: parse_ipv4_def Let_def)
  then show ?thesis using parse_ipv6_mapped [OF assms] by (simp add: ip_address_def)
qed

lemma urlparse_mapped:
  assumes "a < 256" "b < 256" "c < 256" "d < 256"
  shows "urlparse (''http://['' @ mapped a b c d @ '']/'')
    = Some \<lparr>sr_scheme = ''http'', sr_netloc = ''['' @ mapped a b c d @ '']''\<rparr>"
proof -
  let ?m = "mapped a b c d" and ?n = "''['' @ mapped a b c d @ '']''"
  have cl: "CHR '']'' \<notin> set ?m" "CHR ''['' \<notin> set ?m" by (auto dest!: mapped_chars)
  have "code x \<notin> {9, 10, 13}" if "x \<in> set ?m" for x
    using mapped_chars [OF that] digit_plain by (auto simp: code_def)
  then have "plain ?m" by (simp add: plain_def list_all_iff)
  then have "plain (CHR ''h'' # ''ttp://['' @ ?m @ '']/'')"
    by (simp add: code_def)
  from clean_url_plain [OF this]
  have "clean_url (''http://['' @ ?m @ '']/'') = ''http://'' @ ?n @ ''/''" by (simp add: code_def)
  moreover have "split_scheme (''http://'' @ ?n @ ''/'') = (''http'', ''//'' @ ?n @ ''/'')"
    using split_scheme_allowed [of "''http''" "?n @ ''/''"] by (simp add: allowed_schemes_def)
  moreover have "split_netloc (''//'' @ ?n @ ''/'') = ?n"
    by (rule split_netloc_host) (auto simp: list_all_iff is_netloc_end_def dest!: mapped_chars)
  moreover have "partition_at (CHR ''['') ?n = ([], True, ?m @ '']'')"
    using partition_at_append [of "CHR ''[''" "[]" "?m @ '']''"] by simp
  moreover have "partition_at (CHR '']'') (?m @ '']'') = (?m, True, [])"
    using partition_at_append [OF cl(1), of "[]"] by simp
  moreover have "bracketed_host_ok ?m"
    using ip_address_mapped [OF assms] by (simp add: bracketed_host_ok_def) (simp add: mapped_def)
  ultimately show ?thesis by (simp add: urlparse_def netloc_ok_def)
qed

lemma hostname_mapped:
  "hostname \<lparr>sr_scheme = s, sr_netloc = ''['' @ mapped a b c d @ '']''\<rparr> = mapped a b c d"
proof -
  let ?m = "mapped a b c d"
  have cl: "CHR '']'' \<notin> set ?m" "CHR ''@'' \<notin> set (''['' @ ?m @ '']'')" "CHR ''%'' \<notin> set ?m"
    by (auto dest!: mapped_chars)
  have "partition_at (CHR ''['') (''['' @ ?m @ '']'') = ([], True, ?m @ '']'')"
    using partition_at_append [of "CHR ''[''" "[]" "?m @ '']''"] by simp
  moreover have "partition_at (CHR '']'') (?m @ '']'') = (?m, True, [])"
    using partition_at_append [OF cl(1), of "[]"] by simp
  ultimately have "hostinfo (''['' @ ?m @ '']'') = ?m"
    using rpartition_tail_absent [OF cl(2)] by (simp add: hostinfo_def)
  moreover have "py_lower ?m = ?m"
    by (rule py_lower_id) (auto simp: py_isupper_def is_ascii_digit_def code_def dest!: mapped_chars)
  ultimately show ?thesis using cl(3) by (simp add: hostname_def partition_at_absent)
qed

section \<open>The properties\<close>

text \<open>
  C11. For every \<open>http\<close> or \<open>https\<close> URL whose host is a dotted-quad literal, whatever the user
  info, port, path, query and fragment around it, the URL is accepted exactly when the address lies
  outside \<open>10/8\<close>, \<open>172.16/12\<close>, \<open>192.168/16\<close>, \<open>127/8\<close> and \<open>169.254/16\<close> and is not \<open>0.0.0.0\<close>.
\<close>

theorem ipv4_url_safe_iff:
  assumes "a < 256" "b < 256" "c < 256" "d < 256"
    and s: "scheme \<in> set allowed_schemes" and ui: "userinfo_ok ui" and p: "port_ok port"
    and t: "url_tail_ok tail"
  shows "is_safe_url (scheme @ ''://'' @ ui @ dotted a b c d @ port @ tail) \<longleftrightarrow>
    \<not> (a = 10 \<or> (a = 172 \<and> 16 \<le> b \<and> b \<le> 31) \<or> (a = 192 \<and> b = 168) \<or> a = 127 \<or> (a = 169 \<and> b = 254))
    \<and> (a, b, c, d) \<noteq> (0, 0, 0, 0)"
proof -
  let ?q = "quad a b c d"
  have "is_safe_url (scheme @ ''://'' @ ui @ dotted a b c d @ port @ tail) \<longleftrightarrow>
      dotted a b c d \<notin> set blocked_hosts \<and> \<not> private_v4 ?q"
    using s urlparse_dotted [OF s ui p t] hostname_dotted [OF ui p] ip_address_dotted [OF assms(1-4)]
    by (simp add: is_safe_url_def Let_def in_private_v4 unat_quad [OF assms(1-4)])
  also have "\<dots> \<longleftrightarrow> \<not> private_v4 ?q \<and> ?q \<noteq> 0"
    using dotted_blocked_iff [OF assms(1-4)] by (auto simp: private_v4_def)
  also have "?q \<noteq> 0 \<longleftrightarrow> (a, b, c, d) \<noteq> (0, 0, 0, 0)"
    by (simp add: quad_def)
  finally show ?thesis
    using private_quad_iff [OF assms(2-4)] by simp
qed

theorem ipv4_url_safe_iff_witness:
  "\<not> is_safe_url ''https://user:pw@172.20.0.1:8080/admin'' \<and> is_safe_url ''http://172.99.0.1''"
proof -
  have ok: "userinfo_ok ''user:pw@''" "port_ok '':8080''" "url_tail_ok ''/admin''"
    "userinfo_ok []" "port_ok []" "url_tail_ok []" "''https'' \<in> set allowed_schemes" "''http'' \<in> set allowed_schemes"
    by (simp_all add: userinfo_ok_def port_ok_def url_tail_ok_def is_netloc_end_def is_ascii_digit_def
        allowed_schemes_def code_def)
  have d: "dotted 172 20 0 1 = ''172.20.0.1''" "dotted 172 99 0 1 = ''172.99.0.1''"
    by code_simp+
  show ?thesis
    using ipv4_url_safe_iff [of 172 20 0 1, OF _ _ _ _ ok(7,1,2,3)]
      ipv4_url_safe_iff [of 172 99 0 1, OF _ _ _ _ ok(8,4,5,6)]
    by (simp add: d del: One_nat_def)
qed

lemma is_safe_url_iff:
  "is_safe_url url \<longleftrightarrow>
    (\<exists>r. urlparse url = Some r \<and> sr_scheme r \<in> {''http'', ''https''} \<and>
      hostname r \<noteq> [] \<and> hostname r \<notin> set blocked_hosts \<and>
      (case ip_address (hostname r) of
         None \<Rightarrow> True
       | Some (IPv4 a) \<Rightarrow> \<not> private_v4 (unat a)
       | Some (IPv6 a) \<Rightarrow> \<not> private_v6 (unat a)))"
  by (auto simp: is_safe_url_def allowed_schemes_def Let_def in_private_v4 in_private_v6
      split: option.splits ip_addr.splits)

text \<open>
  C36. The check can be bypassed: every IPv4 address, private ones included, is accepted when it is
  written as an IPv4-mapped IPv6 literal.
\<close>

theorem mapped_ipv4_accepted:
  assumes "a < 256" "b < 256" "c < 256" "d < 256"
  shows "is_safe_url (''http://['' @ mapped a b c d @ '']/'')"
proof -
  let ?v = "0xffff00000000 + quad a b c d"
  have u: "unat (of_nat v :: 128 word) = v" if "v < 2 ^ 128" for v
    using that by (simp add: unat_of_nat)
  have "unat (of_nat ?v :: 128 word) = ?v"
    by (rule u) (use quad_less [OF assms] in simp)
  then have "\<not> private_v6 (unat (of_nat ?v :: 128 word))"
    using quad_less [OF assms] by (simp add: private_v6_def)
  moreover have "mapped a b c d \<notin> set blocked_hosts" "mapped a b c d \<noteq> []"
    by (simp_all add: mapped_def blocked_hosts_def)
  ultimately show ?thesis
    using urlparse_mapped [OF assms] hostname_mapped [of "''http''" a b c d] ip_address_mapped [OF assms]
    by (simp add: is_safe_url_iff)
qed

theorem mapped_ipv4_accepted_witness:
  "is_safe_url ''http://[::ffff:169.254.169.254]/''"
proof -
  have "''http://['' @ mapped 169 254 169 254 @ '']/'' = ''http://[::ffff:169.254.169.254]/''"
    by code_simp
  then show ?thesis using mapped_ipv4_accepted [of 169 254 169 254] by simp
qed

end
