(* ===== verification/Url_Service.thy ===== *)
theory Url_Service
  imports World Url_Validator "HOL-Library.Multiset"
begin

text \<open>
  \<open>app/services/url.py\<close>: creating, reading, listing, changing and deleting links.  The operations act
  on the database and the cache in the order of the code; \<open>now\<close> is the instant of the request,
  \<open>uuid4\<close> the identifier the new row gets and \<open>rng i j\<close> the \<open>j\<close>-th draw of the \<open>i\<close>-th attempt at a code.
\<close>

definition to_response :: "settings \<Rightarrow> short_url \<Rightarrow> url_response" where
  "to_response cfg u =
     \<lparr>r_id = row_id u, r_original_url = original_url u, r_short_code = short_code u,
      r_custom_alias = custom_alias u, r_title = title u,
      r_short_url = BASE_URL cfg @ ''/'' @
        (case custom_alias u of Some a \<Rightarrow> if a = [] then short_code u else a | None \<Rightarrow> short_code u),
      r_owner_id = owner_id u, r_is_active = is_active u, r_is_public = is_public u,
      r_expires_at = expires_at u, r_click_count = click_count u, r_created_at = created_at u,
      r_updated_at = updated_at u\<rparr>"

definition serialize :: "short_url \<Rightarrow> json" where
  "serialize u =
     JObj [(''id'', JStr (str_uuid (row_id u))),
           (''original_url'', JStr (original_url u)),
           (''short_code'', JStr (short_code u)),
           (''custom_alias'', str_or_null (custom_alias u)),
           (''is_active'', JBool (is_active u)),
           (''expires_at'', str_or_null (map_option isoformat (expires_at u)))]"

fun try_codes :: "settings \<Rightarrow> (nat \<Rightarrow> nat \<Rightarrow> nat) \<Rightarrow> database \<Rightarrow> nat list \<Rightarrow> pystr result" where
  "try_codes cfg rng db [] = Inl (App ShortCodeCollisionError)"
| "try_codes cfg rng db (i # is) =
     (let c = generate_short_code cfg None (rng i)
      in case short_code_exists c db of
           Inl e \<Rightarrow> Inl e
         | Inr found \<Rightarrow> if \<not> found then Inr c else try_codes cfg rng db is)"

definition generate_unique_code :: "settings \<Rightarrow> (nat \<Rightarrow> nat \<Rightarrow> nat) \<Rightarrow> database \<Rightarrow> pystr result" where
  "generate_unique_code cfg rng db = try_codes cfg rng db [0..<nat (MAX_COLLISION_RETRIES cfg)]"

definition url_create ::
  "('r, 'x) ext_scheme \<Rightarrow> settings \<Rightarrow> instant \<Rightarrow> uuid \<Rightarrow> (nat \<Rightarrow> nat \<Rightarrow> nat) \<Rightarrow>
   url_create_request \<Rightarrow> uuid option \<Rightarrow> ('r, url_response) handler"
where
  "url_create E cfg now uuid4 rng data owner w =
     (let original = c_original_url data
      in if \<not> is_safe_url original
         then (Inl (App (ValidationError ''URL is not allowed (blocked host or scheme)'')), w)
         else
           (case (case c_custom_alias data of
                    Some (ch # a) \<Rightarrow>
                      (case short_code_exists (ch # a) (w_db w) of
                         Inl e \<Rightarrow> Inl e
                       | Inr True \<Rightarrow>
                           Inl (App (ConflictError (''Alias '' @ [CHR 0x27] @ (ch # a) @ [CHR 0x27] @ '' is already taken'')))
                       | Inr False \<Rightarrow> Inr (ch # a))
                  | _ \<Rightarrow> generate_unique_code cfg rng (w_db w)) of
              Inl e \<Rightarrow> (Inl e, w)
            | Inr sc \<Rightarrow>
                (case create_with insert_short_url
                        (new_short_url uuid4 now original sc (c_custom_alias data) (c_title data) owner
                           (c_is_public data) (c_expires_at data)) (w_db w) of
                   Inl e \<Rightarrow> (Inl e, w)
                 | Inr (url, db') \<Rightarrow>
                     (Inr (to_response cfg url),
                      w\<lparr>w_db := db', w_redis := url_cache_set E cfg now sc (serialize url) None (w_redis w)\<rparr>))))"

definition url_get_by_id ::
  "settings \<Rightarrow> uuid \<Rightarrow> uuid option \<Rightarrow> ('r, url_response) handler" where
  "url_get_by_id cfg url_id requester w =
     (case get_by_id (short_urls (w_db w)) url_id of
        Inl e \<Rightarrow> (Inl e, w)
      | Inr None \<Rightarrow> (Inl (App (NotFoundError ''URL'')), w)
      | Inr (Some url) \<Rightarrow>
          if \<not> is_public url \<and> owner_id url \<noteq> requester
          then (Inl (App (AuthorizationError ''This link is private'')), w)
          else (Inr (to_response cfg url), w))"

text \<open>\<open>math.ceil(total / size)\<close>.\<close>

definition ceil_div :: "int \<Rightarrow> int \<Rightarrow> int" where
  "ceil_div a b = - ((- a) div b)"

definition list_by_owner ::
  "(uuid \<Rightarrow> nat) \<Rightarrow> settings \<Rightarrow> uuid \<Rightarrow> int \<Rightarrow> int \<Rightarrow> ('r, url_list_response) handler" where
  "list_by_owner rank cfg owner page_no sz w =
     (let offset = (page_no - 1) * sz;
          (urls, tot) = get_by_owner rank owner offset sz (w_db w)
      in (Inr \<lparr>items = map (to_response cfg) urls, total = tot, page = page_no, size = sz,
               pages = (if tot \<noteq> 0 then ceil_div tot sz else 0)\<rparr>, w))"

text \<open>\<open>delete(url.short_code)\<close>, then \<open>delete(url.custom_alias)\<close> when there is one.\<close>

definition drop_cached :: "('r, 'x) ext_scheme \<Rightarrow> short_url \<Rightarrow> 'r \<Rightarrow> 'r" where
  "drop_cached E url r =
     (let r1 = url_cache_delete E (short_code url) r
      in case custom_alias url of
           Some (ch # a) \<Rightarrow> url_cache_delete E (ch # a) r1
         | _ \<Rightarrow> r1)"

definition url_update ::
  "('r, 'x) ext_scheme \<Rightarrow> settings \<Rightarrow> instant \<Rightarrow> uuid \<Rightarrow> url_update_request \<Rightarrow> uuid \<Rightarrow> bool \<Rightarrow>
   ('r, url_response) handler"
where
  "url_update E cfg now url_id data requester is_admin w =
     (case get_by_id (short_urls (w_db w)) url_id of
        Inl e \<Rightarrow> (Inl e, w)
      | Inr None \<Rightarrow> (Inl (App (NotFoundError ''URL'')), w)
      | Inr (Some url) \<Rightarrow>
          if \<not> is_admin \<and> owner_id url \<noteq> Some requester
          then (Inl (App (AuthorizationError (''You don'' @ [CHR 0x27] @ ''t own this link''))), w)
          else
            (case url_repo_update (local_to_utc E) now url (dump_updates data) (w_db w) of
               Inl e \<Rightarrow> (Inl e, w)
             | Inr (url', db') \<Rightarrow>
                 (Inr (to_response cfg url'), w\<lparr>w_db := db', w_redis := drop_cached E url' (w_redis w)\<rparr>)))"

definition url_delete ::
  "('r, 'x) ext_scheme \<Rightarrow> uuid \<Rightarrow> uuid \<Rightarrow> bool \<Rightarrow> ('r, unit) handler" where
  "url_delete E url_id requester is_admin w =
     (case get_by_id (short_urls (w_db w)) url_id of
        Inl e \<Rightarrow> (Inl e, w)
      | Inr None \<Rightarrow> (Inl (App (NotFoundError ''URL'')), w)
      | Inr (Some url) \<Rightarrow>
          if \<not> is_admin \<and> owner_id url \<noteq> Some requester
          then (Inl (App (AuthorizationError (''You don'' @ [CHR 0x27] @ ''t own this link''))), w)
          else (Inr (), w\<lparr>w_redis := drop_cached E url (w_redis w), w_db := url_repo_delete url (w_db w)\<rparr>))"

section \<open>Payloads and keys\<close>

lemma serialize_wf [simp]: "json_wf (serialize s)"
proof -
  have "json_wf (str_or_null x)" for x by (cases x) auto
  then show ?thesis by (simp add: serialize_def)
qed

definition cached_link :: "database \<Rightarrow> pystr \<Rightarrow> json \<Rightarrow> bool" where
  "cached_link db c v \<longleftrightarrow> (\<exists>s. links db c = Some s \<and> is_active s \<and> v = serialize s)"

definition dates_ok :: "database \<Rightarrow> bool" where
  "dates_ok db \<longleftrightarrow> list_all (\<lambda>s. expiry_in_range (expires_at s)) (short_urls db)"

text \<open>
  The invariant of a deployment: the constraints of the schema, codes and aliases agree, dates are
  Python dates, and whatever the cache returns is the current row of the code.
\<close>

definition world_ok :: "('r, 'x) ext_scheme \<Rightarrow> instant \<Rightarrow> 'r world \<Rightarrow> bool" where
  "world_ok E t w \<longleftrightarrow> links_ok (w_db w) \<and> dates_ok (w_db w) \<and>
     holds (url_cache_get E) (cached_link (w_db w)) t (w_redis w)"

lemma world_ok_links: "world_ok E t w \<Longrightarrow> links_ok (w_db w)"
  by (simp add: world_ok_def)

text \<open>
  The same for another promise about cached payloads.  Two are of interest: a payload is the row of its code, and,
  when background tasks run late, a payload is some row that the table once had.
\<close>

definition world_ok_with ::
  "(database \<Rightarrow> pystr \<Rightarrow> json \<Rightarrow> bool) \<Rightarrow> ('r, 'x) ext_scheme \<Rightarrow> instant \<Rightarrow> 'r world \<Rightarrow> bool" where
  "world_ok_with promise E t w \<longleftrightarrow> links_ok (w_db w) \<and> dates_ok (w_db w) \<and>
     holds (url_cache_get E) (promise (w_db w)) t (w_redis w)"

lemma world_ok_with_cached: "world_ok_with cached_link E t w = world_ok E t w"
  by (simp add: world_ok_with_def world_ok_def)

lemma world_ok_with_links: "world_ok_with promise E t w \<Longrightarrow> links_ok (w_db w)"
  by (simp add: world_ok_with_def)

definition row_payload :: "json \<Rightarrow> bool" where
  "row_payload v \<longleftrightarrow> (\<exists>s. v = serialize s \<and> expiry_in_range (expires_at s) \<and> is_safe_url (original_url s))"

text \<open>
  What the operations on links need of such a promise: it speaks of a code through the row of that code, and holds
  of the payload of a current row.
\<close>

locale cache_promise =
  fixes promise :: "database \<Rightarrow> pystr \<Rightarrow> json \<Rightarrow> bool"
  assumes promise_new: "links db c = Some s \<Longrightarrow> is_active s \<Longrightarrow> expiry_in_range (expires_at s) \<Longrightarrow>
      is_safe_url (original_url s) \<Longrightarrow> promise db c (serialize s)"
    and promise_kept: "(\<And>s. links db c = Some s \<Longrightarrow> \<exists>s'. links db' c = Some s' \<and> is_active s' = is_active s \<and>
        serialize s' = serialize s) \<Longrightarrow> promise db c v \<Longrightarrow> promise db' c v"

interpretation current_row: cache_promise cached_link
proof
  show "cached_link db' c v"
    if "\<And>s. links db c = Some s \<Longrightarrow> \<exists>s'. links db' c = Some s' \<and> is_active s' = is_active s \<and> serialize s' = serialize s"
      "cached_link db c v" for db db' c v
    using that by (force simp: cached_link_def)
qed (simp add: cached_link_def)

interpretation former_row: cache_promise "\<lambda>db c v. row_payload v"
  by unfold_locales (auto simp: row_payload_def)

lemma links_ok_schema: "links_ok db \<Longrightarrow> schema_ok db"
  by (simp add: links_ok_def)

section \<open>The statements as updates of the map of links\<close>

lemma links_insert:
  assumes "links_ok db" "insert_short_url s db = Inr db'"
  shows "links db' c = (if c = short_code s then Some s else links db c)"
proof -
  have "short_urls db' = short_urls db @ [s]" "short_code s \<notin> short_code ` set (short_urls db)"
    using assms(2) by (auto simp: insert_short_url_def split: if_splits)
  moreover have "links db (short_code s) = None"
    using calculation(2) by (simp add: links_None_iff)
  ultimately show ?thesis
    by (auto simp: links_def find_append split: option.splits)
qed

lemma links_update:
  assumes "links_ok db" "s \<in> set (short_urls db)" "row_id s' = row_id s" "short_code s' = short_code s"
  shows "links (update_short_url (row_id s) (\<lambda>_. s') db) c = (if c = short_code s then Some s' else links db c)"
proof -
  note d = schema_distinct [OF links_ok_schema [OF assms(1)]]
  have id: "x = s" if "x \<in> set (short_urls db)" "row_id x = row_id s" for x
    using that assms(2) d(1) by (auto simp: distinct_map inj_on_def)
  let ?g = "\<lambda>x. if row_id x = row_id s then s' else x"
  have map: "short_code (?g x) = short_code x" if "x \<in> set (short_urls db)" for x
    using id [OF that] assms(4) by (cases "row_id x = row_id s") auto
  then have dm: "distinct (map short_code (map ?g (short_urls db)))"
    using d(2) by (simp add: comp_def cong: map_cong)
  show ?thesis
  proof (cases "links db c")
    case None
    then have c: "c \<noteq> short_code x" if "x \<in> set (short_urls db)" for x
      using that by (auto simp: links_None_iff)
    then have "short_code (?g x) \<noteq> c" if "x \<in> set (short_urls db)" for x
      using map [OF that] that by metis
    then have "find (\<lambda>x. short_code x = c) (map ?g (short_urls db)) = None"
      unfolding find_None set_map by blast
    then show ?thesis
      using c assms(2) None by (simp add: links_def update_short_url_def upd_where_def)
  next
    case (Some u)
    then have u: "u \<in> set (short_urls db)" "short_code u = c" by (auto dest: links_Some)
    moreover have "?g u \<in> set (map ?g (short_urls db))" using u(1) by (rule image_eqI [THEN set_map [THEN equalityD2, THEN subsetD], OF refl])
    moreover have "short_code (?g u) = c" using map [OF u(1)] u(2) by simp
    ultimately have "find (\<lambda>x. short_code x = c) (map ?g (short_urls db)) = Some (?g u)"
      using find_key [OF dm, of c "\<lambda>_. True" "?g u"] by simp
    moreover have "row_id u = row_id s \<longleftrightarrow> c = short_code s"
      using id [OF u(1)] u(2) links_in [OF links_ok_schema [OF assms(1)] assms(2)] Some
      by (metis option.inject)
    ultimately show ?thesis
      using Some by (simp add: links_def update_short_url_def upd_where_def)
  qed
qed

lemma links_delete:
  assumes "links_ok db" "s \<in> set (short_urls db)"
  shows "links (delete_short_url (row_id s) db) c = (if c = short_code s then None else links db c)"
proof -
  note d = schema_distinct [OF links_ok_schema [OF assms(1)]]
  have id: "row_id x = row_id s \<longleftrightarrow> short_code x = short_code s" if "x \<in> set (short_urls db)" for x
    using that assms(2) d(1,2) by (auto simp: distinct_map inj_on_def)
  have f: "short_urls (delete_short_url (row_id s) db) = filter (\<lambda>x. short_code x \<noteq> short_code s) (short_urls db)"
    using id by (auto simp: delete_short_url_def intro: filter_cong)
  have "find P (filter Q xs) = (find (\<lambda>x. Q x \<and> P x) xs)" for P Q and xs :: "short_url list"
    by (induction xs) auto
  then have "links (delete_short_url (row_id s) db) c =
      find (\<lambda>x. short_code x \<noteq> short_code s \<and> short_code x = c) (short_urls db)"
    by (simp add: links_def f)
  also have "\<dots> = (if c = short_code s then None else links db c)"
    by (auto simp: links_def find_None intro: find_cong)
  finally show ?thesis .
qed

lemma insert_links_ok [invariant_intros]:
  "links_ok db \<Longrightarrow> insert_short_url s db = Inr db' \<Longrightarrow> alias_is_code s \<Longrightarrow> links_ok db'"
  by (auto simp: links_ok_def insert_short_url_ok) (auto simp: insert_short_url_def split: if_splits)

lemma delete_links_ok [invariant_intros]: "links_ok db \<Longrightarrow> links_ok (delete_short_url i db)"
  using delete_short_url_ok [of db i] by (auto simp: links_ok_def delete_short_url_def list_all_iff)

lemma update_links_ok [invariant_intros]:
  assumes "links_ok db" "s \<in> set (short_urls db)" "same_keys s s'" "short_url_columns s'"
  shows "links_ok (update_short_url (row_id s) (\<lambda>_. s') db)"
proof -
  have id: "x = s" if "x \<in> set (short_urls db)" "row_id x = row_id s" for x
    using that assms(2) schema_distinct(1) [OF links_ok_schema [OF assms(1)]]
    by (auto simp: distinct_map inj_on_def)
  have "schema_ok (update_short_url (row_id s) (\<lambda>_. s') db)"
    by (rule update_short_url_ok [OF links_ok_schema [OF assms(1)]]) (use id assms(3,4) in blast)
  then show ?thesis
    using assms(1-3)
    by (auto simp: links_ok_def update_short_url_def list_all_iff set_upd_where alias_is_code_def same_keys_def)
qed

section \<open>Codes\<close>

text \<open>The retry loop stops at the first draw that is free.\<close>

lemma try_codes_find:
  assumes "links_ok db"
  shows "try_codes cfg rng db is =
    (case find (\<lambda>i. links db (generate_short_code cfg None (rng i)) = None) is of
       None \<Rightarrow> Inl (App ShortCodeCollisionError)
     | Some i \<Rightarrow> Inr (generate_short_code cfg None (rng i)))"
  by (induction "is") (auto simp: link.taken_iff [OF assms])

lemma generate_unique_code_free:
  assumes "links_ok db" "generate_unique_code cfg rng db = Inr c"
  shows "links db c = None" "c \<in> range (generate_short_code cfg None)"
proof -
  obtain i where i: "find (\<lambda>i. links db (generate_short_code cfg None (rng i)) = None)
      [0..<nat (MAX_COLLISION_RETRIES cfg)] = Some i" "c = generate_short_code cfg None (rng i)"
    using assms(2) by (auto simp: generate_unique_code_def try_codes_find [OF assms(1)] split: option.splits)
  then show "links db c = None" "c \<in> range (generate_short_code cfg None)"
    by (auto simp: find_Some_iff)
qed

text \<open>The code a request gets, and the ways it can fail.\<close>

definition choose_code :: "settings \<Rightarrow> (nat \<Rightarrow> nat \<Rightarrow> nat) \<Rightarrow> database \<Rightarrow> pystr option \<Rightarrow> pystr result" where
  "choose_code cfg rng db alias =
     (case alias of
        Some a \<Rightarrow>
          if links db a \<noteq> None
          then Inl (App (ConflictError (''Alias '' @ [CHR 0x27] @ a @ [CHR 0x27] @ '' is already taken'')))
          else Inr a
      | None \<Rightarrow>
          (case find (\<lambda>i. links db (generate_short_code cfg None (rng i)) = None) [0..<nat (MAX_COLLISION_RETRIES cfg)] of
             None \<Rightarrow> Inl (App ShortCodeCollisionError)
           | Some i \<Rightarrow> Inr (generate_short_code cfg None (rng i))))"

lemma choose_code_free:
  "choose_code cfg rng db alias = Inr c \<Longrightarrow> links db c = None \<and> (alias = None \<or> alias = Some c)"
  by (auto simp: choose_code_def find_Some_iff split: option.splits if_splits)

lemma url_create_choose:
  assumes "links_ok (w_db w)" "alias_field (c_custom_alias data)" "is_safe_url (c_original_url data)"
  shows "url_create E cfg now i rng data owner w =
    (case choose_code cfg rng (w_db w) (c_custom_alias data) of
       Inl e \<Rightarrow> (Inl e, w)
     | Inr sc \<Rightarrow>
         (case create_with insert_short_url
                 (new_short_url i now (c_original_url data) sc (c_custom_alias data) (c_title data) owner
                    (c_is_public data) (c_expires_at data)) (w_db w) of
            Inl e \<Rightarrow> (Inl e, w)
          | Inr (url, db') \<Rightarrow>
              (Inr (to_response cfg url),
               w\<lparr>w_db := db', w_redis := url_cache_set E cfg now sc (serialize url) None (w_redis w)\<rparr>)))"
proof (cases "c_custom_alias data")
  case None
  then show ?thesis
    using assms(3)
    by (simp add: url_create_def choose_code_def generate_unique_code_def try_codes_find [OF assms(1)])
next
  case (Some a)
  with assms(2) obtain ch b where a: "a = ch # b" by (cases a) auto
  have t: "short_code_exists a (w_db w) = Inr (links (w_db w) a \<noteq> None)"
    by (rule link.taken_iff [OF assms(1)])
  show ?thesis
    using assms(3) Some t by (cases "links (w_db w) a = None") (simp_all add: url_create_def choose_code_def a)
qed

text \<open>What the insertion needs beyond a free code: a fresh identifier, an existing owner, a short code
  that fits its column.\<close>

definition insertable :: "settings \<Rightarrow> uuid \<Rightarrow> uuid option \<Rightarrow> database \<Rightarrow> bool" where
  "insertable cfg i owner db \<longleftrightarrow> i \<notin> row_id ` set (short_urls db) \<and>
     null_or_in owner (map row_id (users db)) \<and> SHORT_CODE_LENGTH cfg \<le> 50"

lemma created_columns:
  assumes "valid_create data" "choose_code cfg rng db (c_custom_alias data) = Inr sc" "SHORT_CODE_LENGTH cfg \<le> 50"
  shows "length sc \<le> 50" "varchar 50 (c_custom_alias data)" "varchar 255 (c_title data)"
proof -
  have "length (generate_short_code cfg None r) = nat (SHORT_CODE_LENGTH cfg)" for r
    using short_codes [of cfg] by blast
  then show "length sc \<le> 50"
    using assms by (auto simp: choose_code_def valid_create_def split: option.splits if_splits)
  show "varchar 50 (c_custom_alias data)" "varchar 255 (c_title data)"
    using assms(1) by (auto simp: valid_create_def) (cases "c_custom_alias data", auto)
qed

lemma insert_created:
  assumes "links_ok db" "valid_create data" "choose_code cfg rng db (c_custom_alias data) = Inr sc"
    "insertable cfg i owner db"
    and s_def: "s = new_short_url i now (c_original_url data) sc (c_custom_alias data) (c_title data) owner
      (c_is_public data) (c_expires_at data)"
  shows "insert_short_url s db = Inr (db\<lparr>short_urls := short_urls db @ [s]\<rparr>)"
proof -
  have free: "links db sc = None" and al: "c_custom_alias data = None \<or> c_custom_alias data = Some sc"
    using choose_code_free [OF assms(3)] by auto
  have cols: "short_url_columns s"
    using created_columns [OF assms(2,3)] assms(4)
    by (simp add: short_url_columns_def s_def new_short_url_def insertable_def)
  have code: "sc \<notin> set (map short_code (short_urls db))"
    using free by (simp add: links_None_iff)
  have "Some sc \<notin> set (map custom_alias (short_urls db))"
  proof
    assume "Some sc \<in> set (map custom_alias (short_urls db))"
    then obtain u where u: "u \<in> set (short_urls db)" "custom_alias u = Some sc" by auto
    then have "short_code u = sc" using assms(1) by (auto simp: links_ok_def list_all_iff alias_is_code_def)
    with u code show False by auto
  qed
  then show ?thesis
    using cols code al assms(4) unfolding insert_short_url_def
    by (auto simp: s_def new_short_url_def insertable_def)
qed

section \<open>Creating, changing and deleting\<close>

lemma alias_is_code_new:
  "al = None \<or> al = Some sc \<Longrightarrow> alias_is_code (new_short_url i now orig sc al ttl owner public e)"
  by (auto simp: alias_is_code_def new_short_url_def)

context services
begin

lemma get_drop_cached:
  assumes "alias_is_code s"
  shows "url_cache_get E t c (drop_cached E s r) = (if c = short_code s then Inr None else url_cache_get E t c r)"
  using assms
  by (auto simp: drop_cached_def alias_is_code_def Let_def url_cache.get_drop split: option.splits list.splits)

lemma holds_drop_cached:
  assumes "alias_is_code s" "holds (url_cache_get E) P t r" "\<And>c v. c \<noteq> short_code s \<Longrightarrow> P c v \<Longrightarrow> Q c v"
  shows "holds (url_cache_get E) Q t (drop_cached E s r)"
  using assms(2,3) unfolding holds_def get_drop_cached [OF assms(1)] by metis

end

locale cached_services = services E look cfg + cache_promise promise
  for E :: "('r, 'x) ext_scheme" and look :: "'r \<Rightarrow> instant \<Rightarrow> pystr \<Rightarrow> redis_value option" and cfg :: settings
    and promise :: "database \<Rightarrow> pystr \<Rightarrow> json \<Rightarrow> bool"
begin

lemma create_keeps_world_ok:
  assumes "world_ok_with promise E now w" "valid_create data" "insertable cfg i owner (w_db w)"
  shows "world_ok_with promise E now (snd (url_create E cfg now i rng data owner w))"
proof (cases "is_safe_url (c_original_url data)")
  case False
  then show ?thesis using assms(1) by (simp add: url_create_def)
next
  case safe: True
  note ok = world_ok_with_links [OF assms(1)]
  have "alias_field (c_custom_alias data)" using assms(2) by (simp add: valid_create_def)
  note create = url_create_choose [OF ok this safe, of E cfg now i rng owner]
  show ?thesis
  proof (cases "choose_code cfg rng (w_db w) (c_custom_alias data)")
    case (Inl e)
    then show ?thesis using assms create by (simp add: valid_create_def)
  next
    case (Inr sc)
    let ?s = "new_short_url i now (c_original_url data) sc (c_custom_alias data) (c_title data) owner
        (c_is_public data) (c_expires_at data)"
    note ins = insert_created [OF ok assms(2) Inr assms(3) refl, of now]
    let ?db = "w_db w\<lparr>short_urls := short_urls (w_db w) @ [?s]\<rparr>"
    have w': "snd (url_create E cfg now i rng data owner w) =
        w\<lparr>w_db := ?db, w_redis := url_cache_set E cfg now sc (serialize ?s) None (w_redis w)\<rparr>"
      using create Inr ins assms(2) by (simp add: valid_create_def create_with_def)
    have s: "short_code ?s = sc" "is_active ?s" "expires_at ?s = c_expires_at data"
      by (simp_all add: new_short_url_def)
    have free: "links (w_db w) sc = None"
      using choose_code_free [OF Inr] by blast
    have "links_ok ?db"
      using insert_links_ok [OF ok ins] choose_code_free [OF Inr] alias_is_code_new by blast
    moreover have "dates_ok ?db"
      using assms(1,2) s by (simp add: world_ok_with_def dates_ok_def valid_create_def)
    moreover have "holds (url_cache_get E) (promise ?db) now
        (url_cache_set E cfg now sc (serialize ?s) None (w_redis w))"
    proof (rule url_cache.holds_put)
      have "promise ?db c v" if "promise (w_db w) c v" for c v
        by (rule promise_kept [OF _ that]) (use links_insert [OF ok ins] s free in auto)
      then show "holds (url_cache_get E) (promise ?db) now (w_redis w)"
        using assms(1) by (auto simp: world_ok_with_def elim!: url_cache.holds_mono)
      show "promise ?db sc (serialize ?s)"
      proof (rule promise_new)
        show "links ?db sc = Some ?s" using links_insert [OF ok ins] s by simp
        show "is_active ?s" "expiry_in_range (expires_at ?s)" "is_safe_url (original_url ?s)"
          using assms(2) safe by (simp_all add: new_short_url_def valid_create_def)
      qed
    qed simp_all
    ultimately show ?thesis by (simp add: w' world_ok_with_def)
  qed
qed

end

lemma links_ok_row: "links_ok db \<Longrightarrow> s \<in> set (short_urls db) \<Longrightarrow> alias_is_code s \<and> short_url_columns s"
  by (simp add: links_ok_def schema_ok_def short_urls_ok_def list_all_iff)

lemma get_link_by_id:
  assumes "links_ok db"
  obtains "get_by_id (short_urls db) i = Inr None" "i \<notin> row_id ` set (short_urls db)"
  | s where "get_by_id (short_urls db) i = Inr (Some s)" "s \<in> set (short_urls db)" "row_id s = i"
proof -
  note d = schema_distinct(1) [OF links_ok_schema [OF assms]]
  show ?thesis
    using that get_by_id_find [OF d, of i] get_by_id_Some [OF d, of i] get_by_id_None [OF d, of i]
    by (cases "find (\<lambda>r. row_id r = i) (short_urls db)") auto
qed

text \<open>The row after an update: the given fields, and a new \<open>updated_at\<close> when anything changes.\<close>

definition updated_row :: "(int \<Rightarrow> instant) \<Rightarrow> instant \<Rightarrow> url_update_request \<Rightarrow> short_url \<Rightarrow> short_url" where
  "updated_row to_utc now d s =
     s\<lparr>title := (case u_title d of None \<Rightarrow> title s | Some t \<Rightarrow> Some t),
       expires_at := (case u_expires_at d of None \<Rightarrow> expires_at s | Some e \<Rightarrow> Some (utc_of to_utc e)),
       is_active := (case u_set_active d of None \<Rightarrow> is_active s | Some b \<Rightarrow> b),
       is_public := (case u_set_public d of None \<Rightarrow> is_public s | Some b \<Rightarrow> b),
       updated_at := (if list_ex (url_attr_changes s) (dump_updates d) then now else updated_at s)\<rparr>"

lemma updated_row_keys: "same_keys s (updated_row to_utc now d s)"
  by (simp add: same_keys_def updated_row_def)

lemma upd_where_id: "distinct (map f xs) \<Longrightarrow> x \<in> set xs \<Longrightarrow> upd_where (\<lambda>y. f y = f x) (\<lambda>_. x) xs = xs"
  unfolding upd_where_def by (rule map_idI) (auto simp: distinct_map inj_on_def)

lemma url_repo_update_row:
  assumes "links_ok db" "s \<in> set (short_urls db)" "varchar 255 (u_title d)"
  shows "url_repo_update to_utc now s (dump_updates d) db =
    Inr (updated_row to_utc now d s, update_short_url (row_id s) (\<lambda>_. updated_row to_utc now d s) db)"
proof (cases "list_ex (url_attr_changes s) (dump_updates d)")
  case True
  have "short_url_columns (fold (url_setattr to_utc) (dump_updates d) s)"
    using links_ok_row [OF assms(1,2)] assms(3)
    by (cases "u_title d") (simp_all add: fold_dump_updates short_url_columns_def)
  with True show ?thesis
    by (simp add: url_repo_update_def Let_def fold_dump_updates updated_row_def)
next
  case False
  have "updated_row to_utc now d s = fold (url_setattr to_utc) (dump_updates d) s\<lparr>updated_at := updated_at s\<rparr>"
    using False unfolding updated_row_def fold_dump_updates by simp
  then have "updated_row to_utc now d s = s"
    using no_change_same [OF False] by simp
  moreover have "update_short_url (row_id s) (\<lambda>_. s) db = db"
    using upd_where_id [OF schema_distinct(1) [OF links_ok_schema [OF assms(1)]] assms(2)]
    by (simp add: update_short_url_def)
  ultimately show ?thesis using False by (simp add: url_repo_update_def)
qed

lemma updated_row_columns:
  "short_url_columns s \<Longrightarrow> varchar 255 (u_title d) \<Longrightarrow> short_url_columns (updated_row to_utc now d s)"
  by (cases "u_title d") (simp_all add: short_url_columns_def updated_row_def)

definition may_change :: "uuid \<Rightarrow> bool \<Rightarrow> short_url \<Rightarrow> bool" where
  "may_change requester is_admin s \<longleftrightarrow> is_admin \<or> owner_id s = Some requester"

definition datetime_in_range :: "py_datetime option \<Rightarrow> bool" where
  "datetime_in_range d \<longleftrightarrow> (case d of Some (Aware t) \<Rightarrow> 0 \<le> t \<and> t < max_instant | _ \<Rightarrow> True)"

context cached_services
begin

lemma update_keeps_world_ok:
  assumes "world_ok_with promise E now w" "varchar 255 (u_title data)" "datetime_in_range (u_expires_at data)"
  shows "world_ok_with promise E now (snd (url_update E cfg now i data requester is_admin w))"
proof (cases rule: get_link_by_id [OF world_ok_with_links [OF assms(1)], of i])
  case 1
  then show ?thesis using assms(1) by (simp add: url_update_def)
next
  case (2 s)
  note ok = world_ok_with_links [OF assms(1)]
  let ?s' = "updated_row (local_to_utc E) now data s"
  let ?db = "update_short_url (row_id s) (\<lambda>_. ?s') (w_db w)"
  note rowok = links_ok_row [OF ok 2(2)]
  have keys: "row_id ?s' = row_id s" "short_code ?s' = short_code s" "custom_alias ?s' = custom_alias s"
    using updated_row_keys [of s "local_to_utc E" now data] by (simp_all add: same_keys_def)
  have "links_ok ?db"
    using update_links_ok [OF ok 2(2) updated_row_keys updated_row_columns] rowok assms(2) by blast
  moreover have "expiry_in_range (expires_at ?s')"
    using assms(1,3) 2(2) utc_range
    by (auto simp: world_ok_with_def dates_ok_def list_all_iff updated_row_def expiry_in_range_def
        datetime_in_range_def utc_of_def split: option.splits py_datetime.splits)
  then have "dates_ok ?db"
    using assms(1) by (auto simp: world_ok_with_def dates_ok_def update_short_url_def list_all_iff set_upd_where)
  moreover have "holds (url_cache_get E) (promise ?db) now (drop_cached E ?s' (w_redis w))"
  proof (rule holds_drop_cached)
    show "alias_is_code ?s'" using rowok keys by (simp add: alias_is_code_def)
    show "holds (url_cache_get E) (promise (w_db w)) now (w_redis w)"
      using assms(1) by (simp add: world_ok_with_def)
    fix c v assume "c \<noteq> short_code ?s'" "promise (w_db w) c v"
    then show "promise ?db c v"
      using links_update [OF ok 2(2) keys(1,2)] keys(2) by (elim promise_kept [rotated]) simp
  qed
  ultimately show ?thesis
    using assms(1) 2 url_repo_update_row [OF ok 2(2) assms(2), of "local_to_utc E" now]
    by (simp add: url_update_def world_ok_with_def)
qed

lemma delete_keeps_world_ok:
  assumes "world_ok_with promise E now w"
  shows "world_ok_with promise E now (snd (url_delete E i requester is_admin w))"
proof (cases rule: get_link_by_id [OF world_ok_with_links [OF assms(1)], of i])
  case 1
  then show ?thesis using assms(1) by (simp add: url_delete_def)
next
  case (2 s)
  note ok = world_ok_with_links [OF assms(1)]
  let ?db = "delete_short_url (row_id s) (w_db w)"
  have "links_ok ?db" by (rule delete_links_ok [OF ok])
  moreover have "dates_ok ?db"
    using assms(1) by (auto simp: world_ok_with_def dates_ok_def delete_short_url_def list_all_iff)
  moreover have "holds (url_cache_get E) (promise ?db) now (drop_cached E s (w_redis w))"
  proof (rule holds_drop_cached)
    show "alias_is_code s" using links_ok_row [OF ok 2(2)] by blast
    show "holds (url_cache_get E) (promise (w_db w)) now (w_redis w)"
      using assms(1) by (simp add: world_ok_with_def)
    fix c v assume "c \<noteq> short_code s" "promise (w_db w) c v"
    then show "promise ?db c v"
      using links_delete [OF ok 2(2)] by (elim promise_kept [rotated]) simp
  qed
  ultimately show ?thesis
    using assms(1) 2 by (simp add: url_delete_def world_ok_with_def url_repo_delete_def)
qed

end

section \<open>Pages\<close>

definition owned_links :: "uuid \<Rightarrow> database \<Rightarrow> short_url list" where
  "owned_links owner db = sort_key (\<lambda>s. - created_at s) (filter (\<lambda>s. owner_id s = Some owner) (short_urls db))"

lemma owned_links_set: "set (owned_links owner db) = {s \<in> set (short_urls db). owner_id s = Some owner}"
  by (simp add: owned_links_def)

text \<open>Links of different times have one order, wherever the server comes upon them.\<close>

lemma owned_links_rank:
  assumes "distinct (map created_at (owned_links owner db))"
  shows "sort_key (\<lambda>s. - created_at s) (sort_key (\<lambda>s. rank (row_id s)) (filter (\<lambda>s. owner_id s = Some owner) (short_urls db))) =
    owned_links owner db"
proof (rule sort_key_inj_key_eq)
  show "inj_on (\<lambda>s. - created_at s) (set (sort_key (\<lambda>s. rank (row_id s)) (filter (\<lambda>s. owner_id s = Some owner) (short_urls db))))"
    using assms by (simp add: owned_links_def distinct_map inj_on_def)
qed (simp_all add: owned_links_def)

lemma owned_links_newest_first:
  assumes "distinct (map created_at (owned_links owner db))"
  shows "sorted_wrt (\<lambda>s t. created_at t < created_at s) (owned_links owner db)"
proof -
  have "sorted (map (\<lambda>s. - created_at s) (owned_links owner db))" by (simp add: owned_links_def)
  moreover have "distinct (map (\<lambda>s. - created_at s) (owned_links owner db))"
    using assms by (simp add: distinct_map inj_on_def)
  ultimately have "sorted_wrt (<) (map (\<lambda>s. - created_at s) (owned_links owner db))" by (simp add: strict_sorted_iff)
  then show ?thesis by (simp add: sorted_wrt_map)
qed

fun items_of :: "url_list_response result \<Rightarrow> url_response list" where
  "items_of (Inr r) = items r"
| "items_of (Inl e) = []"

lemma concat_pages:
  assumes "0 < k"
  shows "concat (map (\<lambda>p. take k (drop (p * k) xs)) [0..<n]) = take (n * k) xs"
proof (induction n)
  case 0
  then show ?case by simp
next
  case (Suc n)
  have "take (n * k) xs @ take k (drop (n * k) xs) = take (n * k + k) xs"
    by (rule take_add [symmetric])
  with Suc show ?case by (simp add: add.commute)
qed

lemma ceil_div_eq: "0 < k \<Longrightarrow> 0 \<le> n \<Longrightarrow> (if n \<noteq> 0 then ceil_div n k else 0) = (n + k - 1) div k"
proof -
  assume k: "0 < k" and n: "0 \<le> n"
  define q r where "q = n div k" and "r = n mod k"
  have r: "n = q * k + r" "0 \<le> r" "r < k" using k by (simp_all add: q_def r_def)
  show ?thesis
  proof (cases "r = 0")
    case True
    have e: "n + k - 1 = q * k + (k - 1)" using r(1) True by simp
    have "(n + k - 1) div k = q" unfolding e using k by (simp add: div_pos_pos_trivial)
    moreover have "(- n) div k = - q" using True k r(1) by (simp flip: mult_minus_left)
    ultimately show ?thesis using True k r(1) by (simp add: ceil_div_def)
  next
    case False
    have e: "n + k - 1 = (q + 1) * k + (r - 1)" using r(1) by (simp add: algebra_simps)
    have "(n + k - 1) div k = q + 1" unfolding e using r False k by (simp add: div_pos_pos_trivial)
    moreover have "(- n) div k = - q - 1"
      using False k by (simp add: zdiv_zminus1_eq_if q_def r_def)
    moreover have "n \<noteq> 0" using False r_def by auto
    ultimately show ?thesis by (simp add: ceil_div_def)
  qed
qed

lemma round_up_le: "0 < k \<Longrightarrow> n \<le> (n + k - 1) div k * k" for k n :: nat
proof -
  assume k: "0 < k"
  have "n + k - 1 = (n + k - 1) div k * k + (n + k - 1) mod k" by simp
  moreover have "(n + k - 1) mod k < k" using k by simp
  ultimately show ?thesis using k by linarith
qed

lemma ceil_div_pages: "0 < k \<Longrightarrow> 0 \<le> n \<Longrightarrow> n \<le> ceil_div n k * k"
proof -
  assume k: "0 < k"
  have "(- n) div k * k \<le> - n"
    using k by (metis div_mult_mod_eq pos_mod_sign le_add_same_cancel1)
  then show ?thesis by (simp add: ceil_div_def)
qed

section \<open>A small deployment\<close>

definition sample_user :: user where
  "sample_user = new_user 7 0 ''ada@example.com'' ''hash'' None"

definition sample_link :: short_url where
  "sample_link = new_short_url 1 0 ''https://example.com/'' ''my-link'' (Some ''my-link'') None (Some 7) False None"

definition sample_db :: database where
  "sample_db = empty_database\<lparr>users := [sample_user], short_urls := [sample_link]\<rparr>"

definition sample_world :: "keyspace world" where
  "sample_world = \<lparr>w_db = sample_db, w_redis = (\<lambda>_. None)\<rparr>"

lemma sample_db_ok: "links_ok sample_db"
  by (simp add: links_ok_def schema_ok_def sample_db_def empty_database_def users_ok_def short_urls_ok_def
      clicks_ok_def snapshots_ok_def tokens_ok_def unique_col_def user_columns_def short_url_columns_def
      sample_user_def new_user_def role_value_def sample_link_def new_short_url_def alias_is_code_def)

definition sample_update :: url_update_request where
  "sample_update = \<lparr>u_title = None, u_expires_at = None, u_set_active = Some False, u_set_public = None\<rparr>"

lemma choose_code_links:
  assumes "links_ok (w_db w)" "valid_create data" "insertable cfg i owner (w_db w)" "is_safe_url (c_original_url data)"
    and "choose_code cfg rng (w_db w) (c_custom_alias data) = Inr sc"
    and "s = new_short_url i now (c_original_url data) sc (c_custom_alias data) (c_title data) owner
        (c_is_public data) (c_expires_at data)"
  shows "url_create E cfg now i rng data owner w =
      (Inr (to_response cfg s), w\<lparr>w_db := w_db w\<lparr>short_urls := short_urls (w_db w) @ [s]\<rparr>,
         w_redis := url_cache_set E cfg now sc (serialize s) None (w_redis w)\<rparr>)"
    and "links (w_db w\<lparr>short_urls := short_urls (w_db w) @ [s]\<rparr>) c = (if c = sc then Some s else links (w_db w) c)"
    and "links_ok (w_db w\<lparr>short_urls := short_urls (w_db w) @ [s]\<rparr>)"
proof -
  have "alias_field (c_custom_alias data)" using assms(2) by (simp add: valid_create_def)
  note create = url_create_choose [OF assms(1) this assms(4), of E cfg now i rng owner]
  note ins = insert_created [OF assms(1,2,5,3,6)]
  show "url_create E cfg now i rng data owner w =
      (Inr (to_response cfg s), w\<lparr>w_db := w_db w\<lparr>short_urls := short_urls (w_db w) @ [s]\<rparr>,
         w_redis := url_cache_set E cfg now sc (serialize s) None (w_redis w)\<rparr>)"
    using create ins assms(5,6) by (simp add: create_with_def)
  have sc: "short_code s = sc" using assms(6) by (simp add: new_short_url_def)
  show "links (w_db w\<lparr>short_urls := short_urls (w_db w) @ [s]\<rparr>) c = (if c = sc then Some s else links (w_db w) c)"
    using links_insert [OF assms(1) ins] sc by simp
  show "links_ok (w_db w\<lparr>short_urls := short_urls (w_db w) @ [s]\<rparr>)"
    using insert_links_ok [OF assms(1) ins] choose_code_free [OF assms(5)] alias_is_code_new assms(6) by blast
qed

section \<open>Properties\<close>

text \<open>
  The retry loop returns the first of its \<open>MAX_COLLISION_RETRIES\<close> draws that is neither a short code
  nor an alias of any link, and raises the collision error exactly when every draw is taken.
\<close>

lemma unique_code_first_free:
  assumes "links_ok db"
  shows "generate_unique_code cfg rng db =
    (case find (\<lambda>i. \<forall>s \<in> set (short_urls db). \<not> matches_code (generate_short_code cfg None (rng i)) s)
            [0..<nat (MAX_COLLISION_RETRIES cfg)] of
       None \<Rightarrow> Inl (App ShortCodeCollisionError)
     | Some i \<Rightarrow> Inr (generate_short_code cfg None (rng i)))"
proof -
  have "(\<forall>s \<in> set (short_urls db). \<not> matches_code c s) \<longleftrightarrow> links db c = None" for c
    using matches_code_iff [OF assms] by (auto simp: links_None_iff)
  then show ?thesis
    by (simp add: generate_unique_code_def try_codes_find [OF assms])
qed

lemma url_create_eq:
  assumes "links_ok (w_db w)" "valid_create data" "insertable cfg i owner (w_db w)"
  shows "url_create E cfg now i rng data owner w =
    (if \<not> is_safe_url (c_original_url data)
     then (Inl (App (ValidationError ''URL is not allowed (blocked host or scheme)'')), w)
     else
       (case choose_code cfg rng (w_db w) (c_custom_alias data) of
          Inl e \<Rightarrow> (Inl e, w)
        | Inr sc \<Rightarrow>
            (let s = new_short_url i now (c_original_url data) sc (c_custom_alias data) (c_title data) owner
                   (c_is_public data) (c_expires_at data)
             in (Inr (to_response cfg s),
                 w\<lparr>w_db := w_db w\<lparr>short_urls := short_urls (w_db w) @ [s]\<rparr>,
                   w_redis := url_cache_set E cfg now sc (serialize s) None (w_redis w)\<rparr>))))"
proof (cases "is_safe_url (c_original_url data)")
  case False
  then show ?thesis by (simp add: url_create_def)
next
  case True
  have "alias_field (c_custom_alias data)" using assms(2) by (simp add: valid_create_def)
  note create = url_create_choose [OF assms(1) this True, of E cfg now i rng owner]
  then show ?thesis
    using insert_created [OF assms(1,2) _ assms(3) refl, of rng _ now] True
    by (cases "choose_code cfg rng (w_db w) (c_custom_alias data)")
      (simp_all add: create_with_def Let_def)
qed

text \<open>
  C19. Creating a link, on every branch: an unsafe URL gives 422, a taken alias 409, exhausted retries
  500, all without any effect; otherwise exactly one row is added, with the alias as its code when one is
  given, and its payload is cached under that code.
\<close>

theorem url_create_outcome:
  assumes "links_ok (w_db w)" "valid_create data" "insertable cfg i owner (w_db w)"
  shows "url_create E cfg now i rng data owner w =
    (if \<not> is_safe_url (c_original_url data)
     then (Inl (App (ValidationError ''URL is not allowed (blocked host or scheme)'')), w)
     else
       (case choose_code cfg rng (w_db w) (c_custom_alias data) of
          Inl e \<Rightarrow> (Inl e, w)
        | Inr sc \<Rightarrow>
            (let s = new_short_url i now (c_original_url data) sc (c_custom_alias data) (c_title data) owner
                   (c_is_public data) (c_expires_at data)
             in (Inr (to_response cfg s),
                 w\<lparr>w_db := w_db w\<lparr>short_urls := short_urls (w_db w) @ [s]\<rparr>,
                   w_redis := url_cache_set E cfg now sc (serialize s) None (w_redis w)\<rparr>))))"
  using assms by (rule url_create_eq)

definition sample_create :: url_create_request where
  "sample_create = \<lparr>c_original_url = ''https://example.com/'', c_custom_alias = Some ''my-link'', c_title = None,
     c_expires_at = None, c_is_public = True\<rparr>"

lemma sample_create_valid: "valid_create sample_create"
  by (simp add: valid_create_def sample_create_def expiry_in_range_def alias_char_def is_ascii_alpha_def code_def)

lemma empty_links_ok: "links_ok empty_database"
  by (simp add: links_ok_def empty_database_ok) (simp add: empty_database_def)

lemma empty_world_ok: "world_ok sample_env 0 empty_world"
proof -
  have "url_cache_get sample_env 0 c (\<lambda>_. None) = Inr None" for c
    by (rule sample.url_get_miss) simp
  then show ?thesis
    by (simp add: world_ok_def empty_world_def empty_links_ok dates_ok_def holds_def)
      (simp add: empty_database_def)
qed

lemma empty_insertable: "insertable default_settings i None empty_database"
  by (simp add: insertable_def empty_database_def default_settings_def)

lemma sample_create_safe: "is_safe_url ''https://example.com/''"
  by code_simp

theorem url_create_outcome_witness:
  "fst (url_create sample_env default_settings 0 1 (\<lambda>i j. j) sample_create None empty_world) =
   Inr (to_response default_settings (new_short_url 1 0 ''https://example.com/'' ''my-link'' (Some ''my-link'') None None True None))"
proof -
  have "links_ok (w_db empty_world)" "insertable default_settings 1 None (w_db empty_world)"
    by (simp_all add: empty_world_def empty_links_ok empty_insertable)
  moreover have "choose_code default_settings (\<lambda>i j. j) (w_db empty_world) (Some ''my-link'') = Inr ''my-link''"
    by (simp add: choose_code_def empty_world_def empty_database_def links_def)
  ultimately show ?thesis
    using url_create_outcome [OF _ sample_create_valid, of empty_world default_settings 1 None sample_env 0 "\<lambda>i j. j"]
      sample_create_safe
    by (simp add: sample_create_def Let_def)
qed

text \<open>
  C22. Ownership: an update or a deletion leaves every link that the requester neither owns nor administers
  exactly as it was, in the table and in the cache.
\<close>

theorem foreign_links_untouched:
  assumes "services E look cfg" "links_ok (w_db w)" "varchar 255 (u_title upd)"
    and "s \<in> set (short_urls (w_db w))" "\<not> may_change requester is_admin s"
  shows "s \<in> set (short_urls (w_db (snd (url_update E cfg now i upd requester is_admin w)))) \<and>
    s \<in> set (short_urls (w_db (snd (url_delete E i requester is_admin w)))) \<and>
    url_cache_get E t (short_code s) (w_redis (snd (url_update E cfg now i upd requester is_admin w))) =
      url_cache_get E t (short_code s) (w_redis w) \<and>
    url_cache_get E t (short_code s) (w_redis (snd (url_delete E i requester is_admin w))) =
      url_cache_get E t (short_code s) (w_redis w)"
proof (cases rule: get_link_by_id [OF assms(2), of i])
  case 1
  then show ?thesis using assms(4) by (simp add: url_update_def url_delete_def)
next
  case (2 u)
  show ?thesis
  proof (cases "may_change requester is_admin u")
    case False
    then show ?thesis using assms(4) 2 by (simp add: url_update_def url_delete_def may_change_def)
  next
    case True
    with assms(5) have "u \<noteq> s" by blast
    then have d: "row_id s \<noteq> row_id u" "short_code s \<noteq> short_code u"
      using schema_distinct(1,2) [OF links_ok_schema [OF assms(2)]] 2(2) assms(4)
      by (auto simp: distinct_map inj_on_def)
    note row = url_repo_update_row [OF assms(2) 2(2) assms(3), of "local_to_utc E" now]
    have k: "short_code (updated_row (local_to_utc E) now upd u) = short_code u"
      "alias_is_code (updated_row (local_to_utc E) now upd u)" "alias_is_code u"
      using links_ok_row [OF assms(2) 2(2)] by (simp_all add: updated_row_def alias_is_code_def)
    let ?s' = "updated_row (local_to_utc E) now upd u"
    have upd: "snd (url_update E cfg now i upd requester is_admin w) =
        w\<lparr>w_db := update_short_url (row_id u) (\<lambda>_. ?s') (w_db w), w_redis := drop_cached E ?s' (w_redis w)\<rparr>"
      using 2(1) True row by (auto simp: url_update_def may_change_def)
    have del: "snd (url_delete E i requester is_admin w) =
        w\<lparr>w_redis := drop_cached E u (w_redis w), w_db := delete_short_url (row_id u) (w_db w)\<rparr>"
      using 2(1) True by (auto simp: url_delete_def url_repo_delete_def may_change_def)
    have "s \<in> set (upd_where (\<lambda>x. row_id x = row_id u) (\<lambda>_. ?s') (short_urls (w_db w)))"
      using assms(4) d(1) unfolding set_upd_where by (intro image_eqI [of _ _ s]) simp_all
    then show ?thesis
      using d assms(4) services.get_drop_cached [OF assms(1) k(2), of t "short_code s" "w_redis w"]
        services.get_drop_cached [OF assms(1) k(3), of t "short_code s" "w_redis w"]
      unfolding upd del by (simp add: k(1) update_short_url_def delete_short_url_def)
  qed
qed

theorem foreign_links_untouched_witness:
  "sample_link \<in> set (short_urls (w_db (snd (url_update sample_env default_settings 0 1 sample_update 8 False sample_world))))"
proof -
  have "links_ok (w_db sample_world)" by (simp add: sample_world_def sample_db_ok)
  moreover have "sample_link \<in> set (short_urls (w_db sample_world))" "\<not> may_change 8 False sample_link"
    by (simp_all add: sample_world_def sample_db_def may_change_def sample_link_def new_short_url_def)
  ultimately show ?thesis
    using foreign_links_untouched [OF sample.services_axioms, of sample_world sample_update sample_link 8 False 0 1]
    by (simp add: sample_update_def)
qed

text \<open>
  Reading by identifier: a link is returned exactly when it exists and is public or the requester's; a
  private link without owner counts as owned by every anonymous requester.
\<close>

lemma url_visibility:
  assumes "links_ok (w_db w)"
  shows "(fst (url_get_by_id cfg i requester w) = Inr resp) \<longleftrightarrow>
    (\<exists>s \<in> set (short_urls (w_db w)). row_id s = i \<and> resp = to_response cfg s \<and>
       (is_public s \<or> owner_id s = requester))"
proof (cases rule: get_link_by_id [OF assms, of i])
  case 1
  then show ?thesis by (auto simp: url_get_by_id_def)
next
  case (2 s)
  have "u = s" if "u \<in> set (short_urls (w_db w))" "row_id u = i" for u
    using that 2 schema_distinct(1) [OF links_ok_schema [OF assms]] by (auto simp: distinct_map inj_on_def)
  then have ex: "(\<exists>x \<in> set (short_urls (w_db w)). row_id x = i \<and> resp = to_response cfg x \<and> Q x) \<longleftrightarrow>
      resp = to_response cfg s \<and> Q s" for Q
    using 2 by blast
  show ?thesis unfolding ex using 2(1) by (simp add: url_get_by_id_def) blast
qed

text \<open>
  C33. Paging: when no two links of an owner were created at the same time, the pages \<open>1\<close> to \<open>pages\<close> of the owner's
  listing, put together, are all of the owner's links, newest first, each exactly once, whatever the order in which the
  server comes upon the rows for each page; the reported total is their number and \<open>pages\<close> its quotient by the size of
  a page, rounded up.
\<close>

theorem pages_partition:
  assumes "1 \<le> sz" "distinct (map created_at (filter (\<lambda>s. owner_id s = Some owner) (short_urls (w_db w))))"
  defines "tot \<equiv> length (filter (\<lambda>s. owner_id s = Some owner) (short_urls (w_db w)))"
  shows "(\<forall>p. \<exists>its. fst (list_by_owner (rank p) cfg owner p sz w) =
        Inr \<lparr>items = its, total = int tot, page = p, size = sz, pages = (int tot + sz - 1) div sz\<rparr>) \<and>
    (\<exists>xs. set xs = {s \<in> set (short_urls (w_db w)). owner_id s = Some owner} \<and> length xs = tot \<and>
      sorted_wrt (\<lambda>s t. created_at t < created_at s) xs \<and>
      concat (map (\<lambda>p. items_of (fst (list_by_owner (rank (int p)) cfg owner (int p) sz w)))
        [1..<nat ((int tot + sz - 1) div sz) + 1]) = map (to_response cfg) xs)"
proof -
  define xs where "xs = owned_links owner (w_db w)"
  have times: "distinct (map created_at (owned_links owner (w_db w)))"
    using assms(2) by (simp add: owned_links_def distinct_map)
  have len: "length xs = tot" by (simp add: xs_def owned_links_def tot_def)
  define k where "k = nat sz"
  have k: "sz = int k" "0 < k" using assms(1) by (simp_all add: k_def)
  define m where "m = (tot + k - 1) div k"
  have n: "(int tot + sz - 1) div sz = int m"
    using k by (simp add: m_def zdiv_int of_nat_diff)
  have m: "length xs \<le> m * k" unfolding len m_def using k(2) round_up_le [of k tot] by simp
  have l: "fst (list_by_owner (rank p) cfg owner p sz w) =
      Inr \<lparr>items = map (to_response cfg) (take k (drop (nat ((p - 1) * sz)) xs)),
        total = int tot, page = p, size = sz, pages = (int tot + sz - 1) div sz\<rparr>" for p
    using ceil_div_eq [of sz "int tot"] k unfolding list_by_owner_def get_by_owner_def Let_def owned_links_rank [OF times]
    by (simp flip: xs_def tot_def)
  have off: "nat ((int (Suc p) - 1) * sz) = p * k" for p
    by (simp add: k(1) nat_mult_distrib)
  have "concat (map (\<lambda>p. items_of (fst (list_by_owner (rank (int p)) cfg owner (int p) sz w))) (map Suc [0..<m])) =
      concat (map (\<lambda>p. map (to_response cfg) (take k (drop (p * k) xs))) [0..<m])"
    by (simp only: map_map comp_def l off items_of.simps url_list_response.select_convs)
  also have "\<dots> = map (to_response cfg) (concat (map (\<lambda>p. take k (drop (p * k) xs)) [0..<m]))"
    by (simp add: map_concat comp_def)
  also have "\<dots> = map (to_response cfg) xs"
    using m by (simp add: concat_pages [OF k(2)])
  finally have "concat (map (\<lambda>p. items_of (fst (list_by_owner (rank (int p)) cfg owner (int p) sz w))) [1..<m + 1]) =
      map (to_response cfg) xs"
    by (simp add: map_Suc_upt)
  moreover have "set xs = {s \<in> set (short_urls (w_db w)). owner_id s = Some owner}"
    by (simp add: xs_def owned_links_set)
  ultimately show ?thesis
    using l len owned_links_newest_first [OF times] by (simp add: n xs_def) blast
qed

theorem pages_partition_witness:
  "items_of (fst (list_by_owner unat default_settings 7 1 20 sample_world)) = [to_response default_settings sample_link]"
proof -
  have owned: "filter (\<lambda>s. owner_id s = Some 7) (short_urls (w_db sample_world)) = [sample_link]"
    by (simp add: sample_world_def sample_db_def sample_link_def new_short_url_def)
  from pages_partition [of 20 7 sample_world "\<lambda>_. unat" default_settings, unfolded this]
  obtain xs where "set xs = {s \<in> set (short_urls (w_db sample_world)). owner_id s = Some 7}" "length xs = 1"
    "items_of (fst (list_by_owner unat default_settings 7 1 20 sample_world)) = map (to_response default_settings) xs"
    by auto
  moreover have "{s \<in> set (short_urls (w_db sample_world)). owner_id s = Some 7} = {sample_link}"
    using arg_cong [OF owned, of set] by simp
  ultimately show ?thesis by (cases xs) auto
qed

text \<open>
  Links of one owner with the same creation time may be shown twice or never: nothing else decides the order, so the
  two pages of this owner can show the same link.
\<close>

definition twin_world :: "keyspace world" where
  "twin_world = sample_world\<lparr>w_db := sample_db\<lparr>short_urls := [sample_link, sample_link\<lparr>row_id := 2, short_code := ''b'', custom_alias := None\<rparr>]\<rparr>\<rparr>"

lemma tied_link_repeated:
  "items_of (fst (list_by_owner unat default_settings 7 1 1 twin_world)) =
   items_of (fst (list_by_owner (\<lambda>i. if i = 1 then 1 else 0) default_settings 7 2 1 twin_world))"
  by (simp add: list_by_owner_def get_by_owner_def twin_world_def sample_db_def sample_link_def new_short_url_def Let_def)

text \<open>
  After a link is created it is found under its code, by the cache until the time to live has passed and
  by the table while it is unexpired; every other code resolves as before.
\<close>

lemma create_then_found:
  assumes "services E look cfg" "links_ok (w_db w)" "valid_create data" "insertable cfg i owner (w_db w)"
    and "is_safe_url (c_original_url data)"
    and "choose_code cfg rng (w_db w) (c_custom_alias data) = Inr sc" "now \<le> t"
    and "url_create E cfg now i rng data owner w = (Inr resp, w')"
  shows "\<exists>s. resp = to_response cfg s \<and> original_url s = c_original_url data \<and> r_short_url resp = BASE_URL cfg @ ''/'' @ sc \<and>
    (\<forall>c. links (w_db w') c = (if c = sc then Some s else links (w_db w) c)) \<and>
    url_cache_get E t sc (w_redis w') =
      Inr (if t < now + timedelta_seconds (URL_CACHE_TTL cfg) then Some (serialize s) else None) \<and>
    get_active_by_code t sc (w_db w') = Inr (if unexpired t s then Some s else None) \<and>
    (\<forall>c. c \<noteq> sc \<longrightarrow> url_cache_get E t c (w_redis w') = url_cache_get E t c (w_redis w))"
proof -
  define s where "s = new_short_url i now (c_original_url data) sc (c_custom_alias data) (c_title data) owner
        (c_is_public data) (c_expires_at data)"
  note u = choose_code_links [OF assms(2-6) s_def]
  let ?db = "w_db w\<lparr>short_urls := short_urls (w_db w) @ [s]\<rparr>"
  have w': "resp = to_response cfg s" "w_db w' = ?db"
    "w_redis w' = url_cache_set E cfg now sc (serialize s) None (w_redis w)"
    using assms(8) unfolding u(1) by auto
  have s: "original_url s = c_original_url data" "short_code s = sc" "custom_alias s = None \<or> custom_alias s = Some sc"
    "is_active s"
    using choose_code_free [OF assms(6)] by (auto simp: s_def new_short_url_def)
  have "get_active_by_code t sc ?db = Inr (if unexpired t s then Some s else None)"
    using link.active_link [OF u(3), of t sc] u(2) s(4) by (simp add: live_def)
  moreover have "r_short_url resp = BASE_URL cfg @ ''/'' @ sc"
    using s by (auto simp: w' to_response_def)
  ultimately show ?thesis
    using s(1) u(2) w' shortener_redis.read_after_write [OF services.axioms(1) [OF assms(1)] serialize_wf assms(7)]
    by (intro exI [of _ s]) simp
qed

text \<open>
  Deletion: afterwards no code leads to the link any more, neither through the table nor through the
  cache, its clicks and snapshots are gone, every other code resolves as before, and a second deletion gives 404.
\<close>

lemma delete_removes:
  assumes "services E look cfg" "links_ok (w_db w)"
    and "s \<in> set (short_urls (w_db w))" "may_change requester is_admin s"
    and "url_delete E (row_id s) requester is_admin w = (res, w')"
  shows "res = Inr () \<and>
    (\<forall>c. links (w_db w') c = (if c = short_code s then None else links (w_db w) c)) \<and>
    (\<forall>c t. url_cache_get E t c (w_redis w') = (if c = short_code s then Inr None else url_cache_get E t c (w_redis w))) \<and>
    click_events (w_db w') = filter (\<lambda>e. short_url_id e \<noteq> row_id s) (click_events (w_db w)) \<and>
    users (w_db w') = users (w_db w) \<and>
    fst (url_delete E (row_id s) requester is_admin w') = Inl (App (NotFoundError ''URL''))"
proof -
  note d = schema_distinct(1) [OF links_ok_schema [OF assms(2)]]
  have g: "get_by_id (short_urls (w_db w)) (row_id s) = Inr (Some s)"
    using get_by_id_Some [OF d] assms(3) by blast
  have w': "res = Inr ()" "w_db w' = delete_short_url (row_id s) (w_db w)" "w_redis w' = drop_cached E s (w_redis w)"
    using assms(4,5) g by (auto simp: url_delete_def url_repo_delete_def may_change_def)
  have "get_by_id (short_urls (w_db w')) (row_id s) = Inr None"
  proof -
    have "distinct (map row_id (short_urls (w_db w')))"
      using delete_links_ok [OF assms(2)] w'(2) links_ok_schema schema_distinct(1) by metis
    then show ?thesis by (auto simp: get_by_id_None w'(2) delete_short_url_def)
  qed
  moreover have "alias_is_code s" using links_ok_row [OF assms(2,3)] by blast
  ultimately show ?thesis
    using w' links_delete [OF assms(2,3)] services.get_drop_cached [OF assms(1), of s]
    by (simp add: url_delete_def) (simp add: delete_short_url_def)
qed

end
