(* ===== verification/Auth.thy ===== *)
theory Auth
  imports Url_Service
begin

text \<open>
  \<open>app/core/security.py\<close>, \<open>app/services/auth.py\<close> and \<open>app/dependencies/auth.py\<close>: tokens, accounts, sessions
  with rotating refresh tokens, and the guards of the endpoints.  JWT, bcrypt and SHA-256 are the functions of
  the environment; the locale \<open>auth_library\<close> states what the code relies on.
\<close>

section \<open>Tokens (\<open>app/core/security.py\<close>)\<close>

definition hash_password :: "('r, 'x) ext_scheme \<Rightarrow> nat \<Rightarrow> pystr \<Rightarrow> pystr" where
  "hash_password E salt password = pwd_hash E salt password"

definition verify_password :: "('r, 'x) ext_scheme \<Rightarrow> pystr \<Rightarrow> pystr \<Rightarrow> bool" where
  "verify_password E pw hashed = pwd_verify E pw hashed"

text \<open>\<open>expires_delta or timedelta(\<dots>)\<close>: a zero delta counts as absent.\<close>

definition delta_or :: "int option \<Rightarrow> int \<Rightarrow> int" where
  "delta_or d dflt = (case d of Some n \<Rightarrow> if n = 0 then dflt else n | None \<Rightarrow> dflt)"

definition create_access_token ::
  "('r, 'x) ext_scheme \<Rightarrow> settings \<Rightarrow> instant \<Rightarrow> pystr \<Rightarrow> int option \<Rightarrow> pystr" where
  "create_access_token E cfg now subject expires_delta =
     (let expire = now + delta_or expires_delta (timedelta_minutes (ACCESS_TOKEN_EXPIRE_MINUTES cfg))
      in jwt_encode E \<lparr>sub = Some subject, exp_claim = expire div usec, type_claim = Some ''access''\<rparr>
           (SECRET_KEY cfg) (ALGORITHM cfg))"

definition create_refresh_token ::
  "('r, 'x) ext_scheme \<Rightarrow> settings \<Rightarrow> instant \<Rightarrow> pystr \<Rightarrow> int option \<Rightarrow> pystr" where
  "create_refresh_token E cfg now subject expires_delta =
     (let expire = now + delta_or expires_delta (timedelta_days (REFRESH_TOKEN_EXPIRE_DAYS cfg))
      in jwt_encode E \<lparr>sub = Some subject, exp_claim = expire div usec, type_claim = Some ''refresh''\<rparr>
           (SECRET_KEY cfg) (ALGORITHM cfg))"

definition decode_token :: "('r, 'x) ext_scheme \<Rightarrow> settings \<Rightarrow> instant \<Rightarrow> pystr \<Rightarrow> claims result" where
  "decode_token E cfg now tok =
     (case jwt_decode E now (SECRET_KEY cfg) (ALGORITHM cfg) tok of
        None \<Rightarrow> Inl PyValueError | Some c \<Rightarrow> Inr c)"

section \<open>\<open>AuthService\<close>\<close>

definition auth_error :: "pystr \<Rightarrow> exn" where
  "auth_error m = App (AuthenticationError m)"

definition register ::
  "('r, 'x) ext_scheme \<Rightarrow> instant \<Rightarrow> uuid \<Rightarrow> nat \<Rightarrow> register_request \<Rightarrow> ('r, user) handler" where
  "register E now uuid4 salt data w =
     (case email_exists (reg_email data) (w_db w) of
        Inl e \<Rightarrow> (Inl e, w)
      | Inr True \<Rightarrow> (Inl (App (ConflictError ''Email already registered'')), w)
      | Inr False \<Rightarrow>
          (case create_with insert_user
                  (new_user uuid4 now (reg_email data) (hash_password E salt (reg_password data)) (reg_full_name data))
                  (w_db w) of
             Inl e \<Rightarrow> (Inl e, w)
           | Inr (u, db') \<Rightarrow> (Inr u, w\<lparr>w_db := db'\<rparr>)))"

definition token_pair :: "settings \<Rightarrow> pystr \<Rightarrow> pystr \<Rightarrow> token_response" where
  "token_pair cfg access refresh_tok =
     \<lparr>access_token = access, refresh_token = refresh_tok, token_type = ''bearer'',
      expires_in = ACCESS_TOKEN_EXPIRE_MINUTES cfg * 60\<rparr>"

definition login ::
  "('r, 'x) ext_scheme \<Rightarrow> settings \<Rightarrow> instant \<Rightarrow> uuid \<Rightarrow> login_request \<Rightarrow> pystr option \<Rightarrow> pystr option \<Rightarrow>
   ('r, token_response) handler"
where
  "login E cfg now uuid4 data ip agent w =
     (case get_by_email (login_email data) (w_db w) of
        Inl e \<Rightarrow> (Inl e, w)
      | Inr found \<Rightarrow>
          (case (case found of
                   None \<Rightarrow> None
                 | Some u \<Rightarrow> if verify_password E (login_password data) (hashed_password u) then Some u else None) of
             None \<Rightarrow> (Inl (auth_error ''Invalid email or password''), w)
           | Some u \<Rightarrow>
               if \<not> u_is_active u then (Inl (auth_error ''Account is deactivated''), w)
               else
                 (let access = create_access_token E cfg now (str_uuid (row_id u)) None;
                      refresh_tok = create_refresh_token E cfg now (str_uuid (row_id u)) None;
                      h = sha256_hex E refresh_tok;
                      expires = now + timedelta_days (REFRESH_TOKEN_EXPIRE_DAYS cfg)
                  in case create_with insert_token (new_refresh_row uuid4 now (row_id u) h expires agent ip) (w_db w) of
                       Inl e \<Rightarrow> (Inl e, w)
                     | Inr (_, db') \<Rightarrow> (Inr (token_pair cfg access refresh_tok), w\<lparr>w_db := db'\<rparr>))))"

definition refresh ::
  "('r, 'x) ext_scheme \<Rightarrow> settings \<Rightarrow> instant \<Rightarrow> uuid \<Rightarrow> pystr \<Rightarrow> ('r, token_response) handler" where
  "refresh E cfg now uuid4 raw w =
     (case get_by_hash now (sha256_hex E raw) (w_db w) of
        Inl e \<Rightarrow> (Inl e, w)
      | Inr None \<Rightarrow> (Inl (auth_error ''Invalid or expired refresh token''), w)
      | Inr (Some stored) \<Rightarrow>
          (case decode_token E cfg now raw of
             Inl _ \<Rightarrow> (Inl (auth_error ''Invalid refresh token''), w)
           | Inr payload \<Rightarrow>
               if type_claim payload \<noteq> Some ''refresh'' then (Inl (auth_error ''Invalid token type''), w)
               else
                 (let w1 = w\<lparr>w_db := revoke_token now stored (w_db w)\<rparr>
                  in case sub payload of
                       None \<Rightarrow> (Inl PyKeyError, w1)
                     | Some subject \<Rightarrow>
                         (let new_access = create_access_token E cfg now subject None;
                              new_refresh = create_refresh_token E cfg now subject None;
                              new_hash = sha256_hex E new_refresh;
                              expires = now + timedelta_days (REFRESH_TOKEN_EXPIRE_DAYS cfg)
                          in case create_with insert_token
                                    (new_refresh_row uuid4 now (user_id stored) new_hash expires None None) (w_db w1) of
                               Inl e \<Rightarrow> (Inl e, w1)
                             | Inr (_, db') \<Rightarrow> (Inr (token_pair cfg new_access new_refresh), w1\<lparr>w_db := db'\<rparr>)))))"

definition logout :: "('r, 'x) ext_scheme \<Rightarrow> instant \<Rightarrow> pystr \<Rightarrow> ('r, unit) handler" where
  "logout E now raw w =
     (case get_by_hash now (sha256_hex E raw) (w_db w) of
        Inl e \<Rightarrow> (Inl e, w)
      | Inr None \<Rightarrow> (Inr (), w)
      | Inr (Some stored) \<Rightarrow> (Inr (), w\<lparr>w_db := revoke_token now stored (w_db w)\<rparr>))"

section \<open>Guards (\<open>app/dependencies/auth.py\<close>)\<close>

definition get_current_user ::
  "('r, 'x) ext_scheme \<Rightarrow> settings \<Rightarrow> instant \<Rightarrow> pystr option \<Rightarrow> database \<Rightarrow> user result" where
  "get_current_user E cfg now credentials db =
     (case credentials of
        None \<Rightarrow> Inl (auth_error ''Missing authentication token'')
      | Some tok \<Rightarrow>
          (case decode_token E cfg now tok of
             Inl _ \<Rightarrow> Inl (auth_error ''Invalid or expired token'')
           | Inr payload \<Rightarrow>
               if type_claim payload \<noteq> Some ''access'' then Inl (auth_error ''Invalid token type'')
               else
                 (case sub payload of
                    Some (ch # s) \<Rightarrow>
                      (case parse_uuid (ch # s) of
                         None \<Rightarrow> Inl PyValueError
                       | Some i \<Rightarrow>
                           (case get_by_id (users db) i of
                              Inl e \<Rightarrow> Inl e
                            | Inr None \<Rightarrow> Inl (auth_error ''User not found or inactive'')
                            | Inr (Some u) \<Rightarrow>
                                if \<not> u_is_active u then Inl (auth_error ''User not found or inactive'') else Inr u))
                  | _ \<Rightarrow> Inl (auth_error ''Invalid token payload''))))"

definition get_optional_user ::
  "('r, 'x) ext_scheme \<Rightarrow> settings \<Rightarrow> instant \<Rightarrow> pystr option \<Rightarrow> database \<Rightarrow> user option" where
  "get_optional_user E cfg now credentials db =
     (case credentials of
        None \<Rightarrow> None
      | Some tok \<Rightarrow> (case get_current_user E cfg now (Some tok) db of Inl _ \<Rightarrow> None | Inr u \<Rightarrow> Some u))"

definition require_role :: "user_role list \<Rightarrow> user \<Rightarrow> user result" where
  "require_role roles u =
     (if role u \<notin> set (map role_value roles) then Inl (App (AuthorizationError ''Insufficient permissions'')) else Inr u)"

section \<open>What the code relies on\<close>

text \<open>
  A token decodes to the claims it was made of until its expiry, in whole seconds, is past.  A hash verifies
  against the password it was made of.  Digests have 64 digits, hashes fit their column.
\<close>

locale auth_library =
  fixes E :: "('r, 'x) ext_scheme"
  assumes decode_encode: "jwt_decode E now key alg (jwt_encode E c key alg) =
      (if now div usec \<le> exp_claim c then Some c else None)"
    and verify_hash: "pwd_verify E p (pwd_hash E salt p)"
    and digest_length: "length (sha256_hex E s) = 64"
    and hash_length: "length (pwd_hash E salt p) \<le> 255"

lemma json_wf_str_or_null: "json_wf (str_or_null x)"
  by (cases x) auto

interpretation sample_auth: auth_library sample_env
proof
  fix now :: instant and key alg :: pystr and c :: claims
  have "json_wf (JArr [str_or_null (sub c), JInt (exp_claim c), str_or_null (type_claim c), JStr key, JStr alg])"
    by (simp add: json_wf_str_or_null)
  from loads_dumps [OF this]
  show "jwt_decode sample_env now key alg (jwt_encode sample_env c key alg) =
      (if now div usec \<le> exp_claim c then Some c else None)"
    by (cases "sub c"; cases "type_claim c")
      (simp_all add: sample_env_def redis_ops.defs sample_encode_def sample_decode_def)
next
  fix p s :: pystr and salt :: nat
  show "pwd_verify sample_env p (pwd_hash sample_env salt p)" "length (sha256_hex sample_env s) = 64"
    "length (pwd_hash sample_env salt p) \<le> 255"
    by (simp_all add: sample_env_def redis_ops.defs sample_digest_def)
qed

section \<open>The token table\<close>

lemma create_token_effect:
  assumes "schema_ok db"
  shows "create_with insert_token t db =
    (if \<not> refresh_columns t then Inl DataError
     else if row_id t \<in> row_id ` set (refresh_tokens db) \<or> token_hash t \<in> token_hash ` set (refresh_tokens db) \<or>
             user_id t \<notin> row_id ` set (users db)
     then Inl IntegrityError
     else Inr (t, db\<lparr>refresh_tokens := refresh_tokens db @ [t]\<rparr>))"
  by (simp add: create_with_def insert_token_def)

lemma revoke_token_ok [invariant_intros]: "schema_ok db \<Longrightarrow> schema_ok (revoke_token now t db)"
  unfolding revoke_token_def by (rule update_tokens_ok) (simp_all add: revoke_def refresh_columns_def)

lemma revoke_all_ok [invariant_intros]: "schema_ok db \<Longrightarrow> schema_ok (revoke_all_for_user now i db)"
  unfolding revoke_all_for_user_def by (rule update_tokens_ok) (simp_all add: revoke_def refresh_columns_def)

lemma create_token_ok:
  "schema_ok db \<Longrightarrow> create_with insert_token t db = Inr (t', db') \<Longrightarrow> schema_ok db'"
  by (auto simp: create_with_def intro: insert_token_ok split: sum.splits)

lemma create_user_ok:
  "schema_ok db \<Longrightarrow> create_with insert_user u db = Inr (u', db') \<Longrightarrow> schema_ok db'"
  by (auto simp: create_with_def intro: insert_user_ok split: sum.splits)

lemma revoke_revoke [simp]: "revoke now (revoke now t) = revoke now t"
  by (simp add: revoke_def)

lemma revoke_token_other:
  assumes "schema_ok db" "t \<in> set (refresh_tokens db)"
  shows "set (refresh_tokens (revoke_token now t db)) =
    insert (revoke now t) (set (refresh_tokens db) - {t})"
proof -
  have "r = t" if "r \<in> set (refresh_tokens db)" "row_id r = row_id t" for r
    using that assms schema_distinct(5) [OF assms(1)] by (auto simp: distinct_map inj_on_def)
  then show ?thesis
    using assms(2) by (auto simp: revoke_token_def update_tokens_def set_upd_where image_iff)
qed

lemma revoked_unusable [simp]: "\<not> usable t (revoke now r)" "token_hash (revoke now r) = token_hash r"
  by (simp_all add: usable_def revoke_def)

lemma register_keeps_schema [invariant_intros]:
  "schema_ok (w_db w) \<Longrightarrow> schema_ok (w_db (snd (register E now i salt data w)))"
  by (auto simp: register_def split: sum.splits bool.splits intro: create_user_ok)

lemma login_keeps_schema [invariant_intros]:
  "schema_ok (w_db w) \<Longrightarrow> schema_ok (w_db (snd (login E cfg now i data ip agent w)))"
  by (auto simp: login_def Let_def split: sum.splits option.splits intro: create_token_ok)

lemma refresh_keeps_schema [invariant_intros]:
  "schema_ok (w_db w) \<Longrightarrow> schema_ok (w_db (snd (refresh E cfg now i raw w)))"
  by (auto simp: refresh_def Let_def split: sum.splits option.splits intro: create_token_ok revoke_token_ok)

lemma logout_keeps_schema [invariant_intros]:
  "schema_ok (w_db w) \<Longrightarrow> schema_ok (w_db (snd (logout E now raw w)))"
  by (auto simp: logout_def split: sum.splits option.splits intro: revoke_token_ok)

text \<open>Accounts and sessions leave links, the cache and the other tables alone.\<close>

definition auth_frame :: "'r world \<Rightarrow> 'r world \<Rightarrow> bool" where
  "auth_frame w w' \<longleftrightarrow> w_redis w' = w_redis w \<and> short_urls (w_db w') = short_urls (w_db w) \<and>
     click_events (w_db w') = click_events (w_db w) \<and> snapshots (w_db w') = snapshots (w_db w)"

lemma create_with_Inr: "create_with ins x db = Inr (y, db') \<longleftrightarrow> y = x \<and> ins x db = Inr db'"
  by (auto simp: create_with_def split: sum.splits)

lemma auth_operations_frame:
  "auth_frame w (snd (register E now i salt data w))" "auth_frame w (snd (login E cfg now i ld ip agent w))"
  "auth_frame w (snd (refresh E cfg now i raw w))" "auth_frame w (snd (logout E now raw w))"
  by (auto simp: auth_frame_def register_def login_def refresh_def logout_def Let_def create_with_Inr
      insert_user_def insert_token_def revoke_token_def update_tokens_def
      split: sum.splits option.splits bool.splits if_splits)

section \<open>Guards\<close>

lemma str_uuid_nonempty: "str_uuid u \<noteq> []"
proof
  assume "str_uuid u = []"
  then have "parse_uuid [] = Some u" using parse_str_uuid [of u] by simp
  then show False by (simp add: parse_uuid_def)
qed

lemma parse_uuid_nonempty: "parse_uuid s = Some u \<Longrightarrow> s \<noteq> []"
  by (auto simp: parse_uuid_def)

lemma exp_seconds: "(now + k * usec) div usec = now div usec + k"
  by (simp add: usec_def)

lemma timedelta_usec: "timedelta_days n = n * 86400 * usec" "timedelta_minutes n = n * 60 * usec"
  by (simp_all add: timedelta_days_def timedelta_minutes_def)

lemma find_conj:
  "distinct (map f xs) \<Longrightarrow> find (\<lambda>x. f x = k \<and> P x \<and> Q x) xs =
     (case find (\<lambda>x. f x = k \<and> P x) xs of None \<Rightarrow> None | Some x \<Rightarrow> if Q x then Some x else None)"
proof (induction xs)
  case (Cons x xs)
  have "find (\<lambda>y. f y = k \<and> R y) xs = None" if "f x = k" for R
  proof -
    have "f y \<noteq> k" if "y \<in> set xs" for y
      using Cons.prems \<open>f x = k\<close> that by (metis distinct.simps(2) image_eqI list.simps(9) set_map)
    then show ?thesis by (auto simp: find_None)
  qed
  with Cons show ?case by auto
qed simp

lemma get_by_email_find:
  "schema_ok db \<Longrightarrow> get_by_email e db = Inr (find (\<lambda>u. email u = e \<and> u_is_active u) (users db))"
  using scalar_key [OF schema_distinct(4)] by (simp add: get_by_email_def)

lemma find_member: "find P xs = Some x \<Longrightarrow> x \<in> set xs \<and> P x"
  by (induction xs) (auto split: if_splits)

lemma get_by_hash_later:
  "schema_ok db \<Longrightarrow> get_by_hash now h db = Inr None \<Longrightarrow> now \<le> t \<Longrightarrow> get_by_hash t h db = Inr None"
  by (auto simp: get_by_hash_iff usable_def)

lemma refresh_unknown:
  "get_by_hash t (sha256_hex E raw) (w_db w) = Inr None \<Longrightarrow>
   refresh E cfg t j raw w = (Inl (auth_error ''Invalid or expired refresh token''), w)"
  by (simp add: refresh_def)

lemma revoke_hides:
  assumes "schema_ok db" "r \<in> set (refresh_tokens db)"
  shows "get_by_hash t (token_hash r) (revoke_token now r db) = Inr None"
proof -
  have "x = r" if "x \<in> set (refresh_tokens db)" "token_hash x = token_hash r" for x
    using that assms schema_distinct(6) [OF assms(1)] by (auto simp: distinct_map inj_on_def)
  then show ?thesis
    by (auto simp: get_by_hash_iff [OF revoke_token_ok [OF assms(1)]] revoke_token_other [OF assms])
qed

lemma revoke_keeps:
  assumes "schema_ok db" "r \<in> set (refresh_tokens db)" "h \<noteq> token_hash r"
  shows "get_by_hash t h (revoke_token now r db) = get_by_hash t h db"
proof -
  have "get_by_hash t h (revoke_token now r db) = Inr o' \<longleftrightarrow> get_by_hash t h db = Inr o'" for o'
    using assms(3) revoke_token_other [OF assms(1,2)]
    by (cases o') (auto simp: get_by_hash_iff [OF revoke_token_ok [OF assms(1)]] get_by_hash_iff [OF assms(1)])
  then show ?thesis
    using get_by_hash_iff(3) [OF assms(1), of t h]
    by (metis (no_types) old.sum.exhaust)
qed

lemma get_by_hash_snoc:
  assumes "schema_ok db" "insert_token r db = Inr db'"
  shows "get_by_hash t h db' =
    (if token_hash r = h then Inr (if usable t r then Some r else None) else get_by_hash t h db)"
proof -
  have ts: "refresh_tokens db' = refresh_tokens db @ [r]" "token_hash r \<notin> token_hash ` set (refresh_tokens db)"
    using assms(2) by (auto simp: insert_token_def split: if_splits)
  have f: "filter (\<lambda>x. token_hash x = token_hash r \<and> \<not> is_revoked x \<and> t < rt_expires_at x) (refresh_tokens db) = []"
    using ts(2) unfolding filter_empty_conv by (metis image_eqI)
  show ?thesis
    using ts(1) f by (auto simp: get_by_hash_def usable_def)
qed

text \<open>A token made in the same second, for the same subject, is the same token.\<close>

lemma refresh_token_second:
  assumes "now div usec = now' div usec"
  shows "create_refresh_token E cfg now' s None = create_refresh_token E cfg now s None"
  using assms exp_seconds [of now "REFRESH_TOKEN_EXPIRE_DAYS cfg * 86400"]
    exp_seconds [of now' "REFRESH_TOKEN_EXPIRE_DAYS cfg * 86400"]
  by (simp add: create_refresh_token_def delta_or_def timedelta_usec)

section \<open>A small deployment with one account\<close>

definition ada :: user where
  "ada = new_user 7 0 ''ada@example.com'' (sample_digest ''Secret123'') None"

definition ada_form :: register_request where
  "ada_form = \<lparr>reg_email = ''ada@example.com'', reg_password = ''Secret123'', reg_full_name = None\<rparr>"

definition ada_login :: login_request where
  "ada_login = \<lparr>login_email = ''ada@example.com'', login_password = ''Secret123''\<rparr>"

definition ada_db :: database where
  "ada_db = empty_database\<lparr>users := [ada]\<rparr>"

definition ada_world :: "keyspace world" where
  "ada_world = empty_world\<lparr>w_db := ada_db\<rparr>"

definition ada_token :: "int \<Rightarrow> pystr" where
  "ada_token s = sample_encode \<lparr>sub = Some (str_uuid 7), exp_claim = 2592000 + s, type_claim = Some ''refresh''\<rparr>
     ''change-this-secret-key'' ''HS256''"

lemma sample_digest_length: "length (sample_digest s) = 64"
  by (simp add: sample_digest_def)

lemma ada_register: "register sample_env 0 7 0 ada_form empty_world = (Inr ada, ada_world)"
  by (simp add: register_def email_exists_def ada_form_def empty_world_def empty_database_def create_with_def
      insert_user_def user_columns_def hash_password_def sample_env_simps ada_def ada_world_def ada_db_def
      new_user_def role_value_def sample_digest_length)

lemma ada_db_ok: "schema_ok ada_db"
proof -
  have "schema_ok (w_db empty_world)" by (simp add: empty_world_def empty_database_ok)
  from register_keeps_schema [OF this, of sample_env 0 7 0 ada_form] show ?thesis
    by (simp add: ada_register ada_world_def)
qed

lemma ada_refresh_token: "create_refresh_token sample_env default_settings (s * usec) (str_uuid 7) None = ada_token s"
  using exp_seconds [of "s * usec" 2592000]
  by (simp add: create_refresh_token_def ada_token_def sample_env_simps default_settings_simps delta_or_def
      timedelta_usec usec_def add.commute)

lemma ada_digests: "sample_digest (ada_token 1) \<noteq> sample_digest (ada_token 0)"
  by code_simp

definition ada_session :: "int \<Rightarrow> uuid \<Rightarrow> refresh_row" where
  "ada_session s i = new_refresh_row i (s * usec) 7 (sample_digest (ada_token s)) (s * usec + timedelta_days 30) None None"

definition ada_session_world :: "keyspace world" where
  "ada_session_world = ada_world\<lparr>w_db := ada_db\<lparr>refresh_tokens := [ada_session 0 1]\<rparr>\<rparr>"

section \<open>Properties\<close>

lemma login_eq:
  assumes "schema_ok (w_db w)" "auth_library E" "j \<notin> row_id ` set (refresh_tokens (w_db w))"
  shows "login E cfg now j data ip agent w =
    (case find (\<lambda>u. email u = login_email data \<and> u_is_active u \<and>
            verify_password E (login_password data) (hashed_password u)) (users (w_db w)) of
       None \<Rightarrow> (Inl (auth_error ''Invalid email or password''), w)
     | Some u \<Rightarrow>
         (let tok = create_refresh_token E cfg now (str_uuid (row_id u)) None;
              row = new_refresh_row j now (row_id u) (sha256_hex E tok)
                (now + timedelta_days (REFRESH_TOKEN_EXPIRE_DAYS cfg)) agent ip
          in if \<not> (varchar 512 agent \<and> varchar 45 ip) then (Inl DataError, w)
             else if sha256_hex E tok \<in> token_hash ` set (refresh_tokens (w_db w)) then (Inl IntegrityError, w)
             else (Inr (token_pair cfg (create_access_token E cfg now (str_uuid (row_id u)) None) tok),
                   w\<lparr>w_db := w_db w\<lparr>refresh_tokens := refresh_tokens (w_db w) @ [row]\<rparr>\<rparr>)))"
proof (cases "find (\<lambda>u. email u = login_email data \<and> u_is_active u) (users (w_db w))")
  case None
  then show ?thesis
    using find_conj [OF schema_distinct(4) [OF assms(1)]]
    by (simp add: login_def get_by_email_find [OF assms(1)])
next
  case (Some u)
  then have u: "u \<in> set (users (w_db w))" "u_is_active u" by (auto dest: find_member)
  then have fk: "row_id u \<in> row_id ` set (users (w_db w))" by blast
  show ?thesis
    using Some u(2) fk assms(3) auth_library.digest_length [OF assms(2)]
      find_conj [OF schema_distinct(4) [OF assms(1)],
        of "login_email data" u_is_active "\<lambda>u. verify_password E (login_password data) (hashed_password u)"]
    by (auto simp: login_def get_by_email_find [OF assms(1)] create_token_effect [OF assms(1)] Let_def
        new_refresh_row_def refresh_columns_def)
qed

text \<open>
  C15. Login, on every branch: 401 unless an active account has the address and verifies the password (a
  deactivated account gets the same answer as an unknown one), a database error when a header does not fit
  its column or when the very same token is already stored, and otherwise a token pair with exactly one new
  row for the digest of the refresh token.
\<close>

theorem login_outcome:
  assumes "schema_ok (w_db w)" "auth_library E" "j \<notin> row_id ` set (refresh_tokens (w_db w))"
  shows "login E cfg now j data ip agent w =
    (case find (\<lambda>u. email u = login_email data \<and> u_is_active u \<and>
            verify_password E (login_password data) (hashed_password u)) (users (w_db w)) of
       None \<Rightarrow> (Inl (auth_error ''Invalid email or password''), w)
     | Some u \<Rightarrow>
         (let tok = create_refresh_token E cfg now (str_uuid (row_id u)) None;
              row = new_refresh_row j now (row_id u) (sha256_hex E tok)
                (now + timedelta_days (REFRESH_TOKEN_EXPIRE_DAYS cfg)) agent ip
          in if \<not> (varchar 512 agent \<and> varchar 45 ip) then (Inl DataError, w)
             else if sha256_hex E tok \<in> token_hash ` set (refresh_tokens (w_db w)) then (Inl IntegrityError, w)
             else (Inr (token_pair cfg (create_access_token E cfg now (str_uuid (row_id u)) None) tok),
                   w\<lparr>w_db := w_db w\<lparr>refresh_tokens := refresh_tokens (w_db w) @ [row]\<rparr>\<rparr>)))"
  using assms by (rule login_eq)

lemma ada_login_outcome:
  "login sample_env default_settings 0 1 ada_login None None ada_world =
    (Inr (token_pair default_settings (create_access_token sample_env default_settings 0 (str_uuid 7) None) (ada_token 0)),
     ada_session_world)"
proof -
  have u: "row_id ada = 7" "refresh_tokens ada_db = []" "w_db ada_world = ada_db"
    by (simp_all add: ada_def new_user_def ada_world_def ada_db_def empty_database_def)
  have f: "find (\<lambda>u. email u = login_email ada_login \<and> u_is_active u \<and>
      verify_password sample_env (login_password ada_login) (hashed_password u)) (users ada_db) = Some ada"
    by (simp add: ada_db_def ada_login_def ada_def new_user_def verify_password_def sample_env_simps)
  have t: "create_refresh_token sample_env default_settings 0 (str_uuid 7) None = ada_token 0"
    using ada_refresh_token [of 0] by simp
  have "schema_ok (w_db ada_world)" "1 \<notin> row_id ` set (refresh_tokens (w_db ada_world))"
    using ada_db_ok by (simp_all add: u)
  from login_eq [OF this(1) sample_auth.auth_library_axioms this(2), of default_settings 0 ada_login None None]
  have "login sample_env default_settings 0 1 ada_login None None ada_world =
    (Inr (token_pair default_settings (create_access_token sample_env default_settings 0 (str_uuid 7) None) (ada_token 0)),
     ada_world\<lparr>w_db := ada_db\<lparr>refresh_tokens := [ada_session 0 1]\<rparr>\<rparr>)"
    by (simp add: f u t Let_def ada_session_def sample_env_simps default_settings_simps)
  then show ?thesis by (simp add: ada_session_world_def)
qed

theorem login_outcome_witness:
  "fst (login sample_env default_settings 0 1 (ada_login\<lparr>login_password := ''guess''\<rparr>) None None ada_world) =
   Inl (auth_error ''Invalid email or password'')"
proof -
  have "schema_ok (w_db ada_world)" "refresh_tokens (w_db ada_world) = []"
    using ada_db_ok by (simp_all add: ada_world_def) (simp add: ada_db_def empty_database_def)
  moreover have "sample_digest ''Secret123'' \<noteq> sample_digest ''guess''" by code_simp
  ultimately show ?thesis
    using login_outcome [OF _ sample_auth.auth_library_axioms, of ada_world 1 default_settings 0
        "ada_login\<lparr>login_password := ''guess''\<rparr>" None None]
    by (simp add: ada_world_def ada_db_def ada_def new_user_def ada_login_def verify_password_def sample_env_simps)
qed

text \<open>
  C37. A registered account can log in with its password, the access token it gets identifies it until the
  token expires, and its refresh token is not accepted in place of an access token.
\<close>

theorem register_login_me:
  assumes "schema_ok (w_db w)" "auth_library E"
    and "register E now i salt rd w = (Inr u, w1)"
    and "login E cfg now2 j \<lparr>login_email = reg_email rd, login_password = reg_password rd\<rparr> ip agent w1 = (res, w2)"
    and "varchar 512 agent" "varchar 45 ip" "j \<notin> row_id ` set (refresh_tokens (w_db w1))"
    and "sha256_hex E (create_refresh_token E cfg now2 (str_uuid i) None) \<notin> token_hash ` set (refresh_tokens (w_db w1))"
    and "t div usec \<le> (now2 + timedelta_minutes (ACCESS_TOKEN_EXPIRE_MINUTES cfg)) div usec"
  shows "\<exists>r. res = Inr r \<and> email u = reg_email rd \<and> role u = role_value USER \<and>
    get_current_user E cfg t (Some (access_token r)) (w_db w2) = Inr u \<and>
    (\<exists>m. get_current_user E cfg t (Some (refresh_token r)) (w_db w2) = Inl (auth_error m))"
proof -
  have u: "u = new_user i now (reg_email rd) (pwd_hash E salt (reg_password rd)) (reg_full_name rd)"
    and us: "users (w_db w1) = users (w_db w) @ [u]" and ins: "insert_user u (w_db w) = Inr (w_db w1)"
    using assms(3) by (auto simp: register_def create_with_Inr hash_password_def insert_user_def
        split: sum.splits bool.splits if_splits)
  have uf: "row_id u = i" "u_is_active u" "email u = reg_email rd" "role u = role_value USER"
    "hashed_password u = pwd_hash E salt (reg_password rd)"
    using u by (simp_all add: new_user_def)
  have ok1: "schema_ok (w_db w1)" by (rule insert_user_ok [OF assms(1) ins])
  have "u \<in> set (users (w_db w1))" using us by simp
  then have f: "find (\<lambda>x. email x = reg_email rd \<and> u_is_active x \<and>
      verify_password E (reg_password rd) (hashed_password x)) (users (w_db w1)) = Some u"
    using uf auth_library.verify_hash [OF assms(2)]
    by (simp add: find_key [OF schema_distinct(4) [OF ok1]] verify_password_def)
  let ?tok = "create_refresh_token E cfg now2 (str_uuid i) None"
  have r: "res = Inr (token_pair cfg (create_access_token E cfg now2 (str_uuid i) None) ?tok)"
    "users (w_db w2) = users (w_db w1)"
    using login_eq [OF ok1 assms(2,7), of cfg now2 "\<lparr>login_email = reg_email rd, login_password = reg_password rd\<rparr>" ip agent]
      assms(4-6,8) f uf(1) by (auto simp: Let_def)
  have "get_by_id (users (w_db w2)) i = Inr (Some u)"
    using us uf(1) get_by_id_Some [OF schema_distinct(3) [OF ok1], of i u] by (simp add: r(2))
  moreover obtain ch s' where "str_uuid i = ch # s'"
    using str_uuid_nonempty [of i] by (cases "str_uuid i") auto
  ultimately have "get_current_user E cfg t (Some (create_access_token E cfg now2 (str_uuid i) None)) (w_db w2) = Inr u"
    using auth_library.decode_encode [OF assms(2)] assms(9) uf(2) parse_str_uuid [of i]
    by (simp add: get_current_user_def decode_token_def create_access_token_def delta_or_def)
  moreover have "\<exists>m. get_current_user E cfg t (Some ?tok) (w_db w2) = Inl (auth_error m)"
    using auth_library.decode_encode [OF assms(2)]
    by (simp add: get_current_user_def decode_token_def create_refresh_token_def delta_or_def Let_def) blast
  ultimately show ?thesis
    using r(1) uf(3,4) by (simp add: token_pair_def)
qed

theorem register_login_me_witness:
  "\<exists>r. fst (login sample_env default_settings 0 1 ada_login None None (snd (register sample_env 0 7 0 ada_form empty_world))) = Inr r \<and>
     get_current_user sample_env default_settings 0 (Some (access_token r)) (w_db ada_session_world) = Inr ada"
proof -
  have reg: "register sample_env 0 7 0 ada_form empty_world = (Inr ada, ada_world)"
    by (simp add: register_def email_exists_def create_with_def insert_user_def user_columns_def hash_password_def
        sample_env_simps empty_world_def empty_database_def ada_form_def ada_def new_user_def ada_world_def ada_db_def
        role_value_def sample_digest_def)
  have form: "\<lparr>login_email = reg_email ada_form, login_password = reg_password ada_form\<rparr> = ada_login"
    by (simp add: ada_form_def ada_login_def)
  have none: "refresh_tokens (w_db ada_world) = []" by (simp add: ada_world_def ada_db_def empty_database_def)
  have "0 div usec \<le> (0 + timedelta_minutes (ACCESS_TOKEN_EXPIRE_MINUTES default_settings)) div usec"
    by (simp add: timedelta_minutes_def usec_def default_settings_simps)
  from register_login_me [OF _ sample_auth.auth_library_axioms reg _ _ _ _ _ this, unfolded form, OF _ ada_login_outcome]
  show ?thesis using ada_login_outcome reg by (simp add: none empty_world_def empty_database_ok)
qed

text \<open>
  C16. Rotation: a successful refresh needed a stored, unrevoked and unexpired token; afterwards the presented
  token is refused for good, and the new one is stored for the same user.
\<close>

theorem refresh_rotates:
  assumes "schema_ok (w_db w)" "refresh E cfg now j raw w = (Inr r, w')"
    and "sha256_hex E (refresh_token r) \<noteq> sha256_hex E raw"
  shows "(\<forall>t j'. fst (refresh E cfg t j' raw w') = Inl (auth_error ''Invalid or expired refresh token'')) \<and>
    (\<exists>old new. old \<in> set (refresh_tokens (w_db w)) \<and> token_hash old = sha256_hex E raw \<and> usable now old \<and>
       user_id new = user_id old \<and>
       (\<forall>t. get_by_hash t (sha256_hex E (refresh_token r)) (w_db w') =
          Inr (if t < now + timedelta_days (REFRESH_TOKEN_EXPIRE_DAYS cfg) then Some new else None)))"
proof -
  obtain old subject where o: "get_by_hash now (sha256_hex E raw) (w_db w) = Inr (Some old)"
    and r: "refresh_token r = create_refresh_token E cfg now subject None"
    and ins: "insert_token (new_refresh_row j now (user_id old) (sha256_hex E (refresh_token r))
        (now + timedelta_days (REFRESH_TOKEN_EXPIRE_DAYS cfg)) None None) (revoke_token now old (w_db w)) = Inr (w_db w')"
    using assms(2)
    by (auto simp: refresh_def Let_def create_with_Inr token_pair_def split: sum.splits option.splits if_splits)
  let ?new = "new_refresh_row j now (user_id old) (sha256_hex E (refresh_token r))
        (now + timedelta_days (REFRESH_TOKEN_EXPIRE_DAYS cfg)) None None"
  have old: "old \<in> set (refresh_tokens (w_db w))" "token_hash old = sha256_hex E raw" "usable now old"
    using o by (auto simp: get_by_hash_iff [OF assms(1)])
  note g = get_by_hash_snoc [OF revoke_token_ok [OF assms(1)] ins]
  have "get_by_hash t (sha256_hex E raw) (w_db w') = Inr None" for t
    using g [of t "sha256_hex E raw"] assms(3) revoke_hides [OF assms(1) old(1), of t now] old(2)
    by (simp add: new_refresh_row_def)
  then have "fst (refresh E cfg t j' raw w') = Inl (auth_error ''Invalid or expired refresh token'')" for t j'
    by (simp add: refresh_unknown)
  moreover have "get_by_hash t (sha256_hex E (refresh_token r)) (w_db w') =
      Inr (if t < now + timedelta_days (REFRESH_TOKEN_EXPIRE_DAYS cfg) then Some ?new else None)" for t
    using g [of t "sha256_hex E (refresh_token r)"] by (simp add: new_refresh_row_def usable_def)
  moreover have "user_id ?new = user_id old" by (simp add: new_refresh_row_def)
  ultimately show ?thesis using old by blast
qed

lemma ada_session_ok: "schema_ok (w_db ada_session_world)"
proof -
  have "schema_ok (w_db ada_world)" using ada_db_ok by (simp add: ada_world_def)
  from login_keeps_schema [OF this, of sample_env default_settings 0 1 ada_login None None]
  show ?thesis by (simp add: ada_login_outcome)
qed

lemma ada_refresh_outcome:
  "\<exists>r w'. refresh sample_env default_settings usec 2 (ada_token 0) ada_session_world = (Inr r, w') \<and>
     refresh_token r = ada_token 1"
proof -
  have t: "create_refresh_token sample_env default_settings usec (str_uuid 7) None = ada_token 1"
    using ada_refresh_token [of 1] by simp
  have tok: "ada_session 0 1 \<in> set (refresh_tokens (w_db ada_session_world))"
    by (simp add: ada_session_world_def ada_world_def ada_db_def)
  have f: "token_hash (ada_session 0 1) = sample_digest (ada_token 0)" "user_id (ada_session 0 1) = 7"
    "row_id (ada_session 0 1) = 1" "usable usec (ada_session 0 1)"
    by (simp_all add: ada_session_def new_refresh_row_def usable_def timedelta_days_def usec_def)
  have g: "get_by_hash usec (sample_digest (ada_token 0)) (w_db ada_session_world) = Inr (Some (ada_session 0 1))"
    using tok f by (simp add: get_by_hash_iff [OF ada_session_ok])
  have "decode_token sample_env default_settings usec (ada_token 0) =
      Inr \<lparr>sub = Some (str_uuid 7), exp_claim = 2592000, type_claim = Some ''refresh''\<rparr>"
    using sample_auth.decode_encode [of usec "''change-this-secret-key''" "''HS256''"
        "\<lparr>sub = Some (str_uuid 7), exp_claim = 2592000, type_claim = Some ''refresh''\<rparr>"]
    by (simp add: decode_token_def ada_token_def default_settings_simps sample_env_simps usec_def)
  moreover have "create_with insert_token (new_refresh_row 2 usec 7 (sample_digest (ada_token 1))
      (usec + timedelta_days (REFRESH_TOKEN_EXPIRE_DAYS default_settings)) None None)
      (revoke_token usec (ada_session 0 1) (w_db ada_session_world)) =
      Inr (new_refresh_row 2 usec 7 (sample_digest (ada_token 1))
        (usec + timedelta_days (REFRESH_TOKEN_EXPIRE_DAYS default_settings)) None None,
        revoke_token usec (ada_session 0 1) (w_db ada_session_world)
          \<lparr>refresh_tokens := [revoke usec (ada_session 0 1), new_refresh_row 2 usec 7 (sample_digest (ada_token 1))
            (usec + timedelta_days (REFRESH_TOKEN_EXPIRE_DAYS default_settings)) None None]\<rparr>)"
    using ada_digests f
    by (simp add: create_with_def insert_token_def refresh_columns_def new_refresh_row_def sample_digest_length
        revoke_token_def update_tokens_def upd_where_def ada_session_world_def ada_world_def ada_db_def ada_def
        new_user_def) (simp add: revoke_def)
  ultimately show ?thesis
    using g f t by (simp add: refresh_def sample_env_simps Let_def token_pair_def)
qed

theorem refresh_rotates_witness:
  "\<exists>r w'. refresh sample_env default_settings usec 2 (ada_token 0) ada_session_world = (Inr r, w') \<and>
     fst (refresh sample_env default_settings usec 3 (ada_token 0) w') =
       Inl (auth_error ''Invalid or expired refresh token'')"
proof -
  obtain r w' where r: "refresh sample_env default_settings usec 2 (ada_token 0) ada_session_world = (Inr r, w')"
    "refresh_token r = ada_token 1"
    using ada_refresh_outcome by blast
  then have "sha256_hex sample_env (refresh_token r) \<noteq> sha256_hex sample_env (ada_token 0)"
    using ada_digests by (simp add: sample_env_simps)
  from refresh_rotates [OF ada_session_ok r(1) this] r(1) show ?thesis by blast
qed

text \<open>
  C35. Tokens carry no identifier and their times are whole seconds: in the second of a login, a further login
  of the user and a refresh with the token just obtained both fail with a violated constraint (status 500).
\<close>

theorem same_second_fails:
  assumes "schema_ok (w_db w)" "auth_library E" "j \<notin> row_id ` set (refresh_tokens (w_db w))"
    and "login E cfg now j data ip agent w = (Inr r, w1)"
    and "now2 div usec = now div usec" "0 < REFRESH_TOKEN_EXPIRE_DAYS cfg"
    and "varchar 512 agent2" "varchar 45 ip2" "j2 \<notin> row_id ` set (refresh_tokens (w_db w1))"
  shows "fst (login E cfg now2 j2 data ip2 agent2 w1) = Inl IntegrityError \<and>
    fst (refresh E cfg now2 j2 (refresh_token r) w1) = Inl IntegrityError \<and>
    handle_exception IntegrityError = (500, ''Internal server error'')"
proof -
  let ?P = "\<lambda>u. email u = login_email data \<and> u_is_active u \<and> verify_password E (login_password data) (hashed_password u)"
  obtain u where u: "find ?P (users (w_db w)) = Some u"
    using assms(4) login_eq [OF assms(1-3), of cfg now data ip agent] by (auto split: option.splits)
  define tok where "tok = create_refresh_token E cfg now (str_uuid (row_id u)) None"
  define row where "row = new_refresh_row j now (row_id u) (sha256_hex E tok)
      (now + timedelta_days (REFRESH_TOKEN_EXPIRE_DAYS cfg)) agent ip"
  have w1: "refresh_token r = tok" "users (w_db w1) = users (w_db w)"
    "refresh_tokens (w_db w1) = refresh_tokens (w_db w) @ [row]"
    using assms(4) login_eq [OF assms(1-3), of cfg now data ip agent] u
    by (auto simp: Let_def tok_def row_def token_pair_def split: if_splits)
  have ok1: "schema_ok (w_db w1)"
    using login_keeps_schema [OF assms(1), of E cfg now j data ip agent] assms(4) by simp
  have same: "create_refresh_token E cfg now2 (str_uuid (row_id u)) None = tok"
    unfolding tok_def by (rule refresh_token_second) (use assms(5) in simp)
  have rowf: "token_hash row = sha256_hex E tok" "user_id row = row_id u" by (simp_all add: row_def new_refresh_row_def)
  have login2: "fst (login E cfg now2 j2 data ip2 agent2 w1) = Inl IntegrityError"
    using login_eq [OF ok1 assms(2,9), of cfg now2 data ip2 agent2] u assms(7,8) w1 same rowf
    by (simp add: Let_def)
  have "now2 = now div usec * usec + now2 mod usec" "now = now div usec * usec + now mod usec"
    by (metis assms(5) div_mult_mod_eq, simp)
  moreover have "now2 mod usec < usec" "0 \<le> now mod usec" by (simp_all add: usec_def)
  ultimately have "now2 < now + usec" by linarith
  moreover have "1 * usec \<le> REFRESH_TOKEN_EXPIRE_DAYS cfg * 86400 * usec"
    using assms(6) by (intro mult_right_mono) (simp_all add: usec_def)
  ultimately have "now2 < now + timedelta_days (REFRESH_TOKEN_EXPIRE_DAYS cfg)"
    by (simp add: timedelta_usec)
  then have stored: "get_by_hash now2 (sha256_hex E tok) (w_db w1) = Inr (Some row)"
    using w1(3) rowf by (simp add: get_by_hash_iff [OF ok1] usable_def) (simp add: row_def new_refresh_row_def)
  have dec: "decode_token E cfg now2 tok =
      Inr \<lparr>sub = Some (str_uuid (row_id u)), exp_claim = (now + timedelta_days (REFRESH_TOKEN_EXPIRE_DAYS cfg)) div usec,
           type_claim = Some ''refresh''\<rparr>"
    using auth_library.decode_encode [OF assms(2)] assms(5,6)
    by (simp add: decode_token_def tok_def create_refresh_token_def delta_or_def timedelta_usec exp_seconds)
  have "sha256_hex E tok \<in> token_hash ` set (refresh_tokens (revoke_token now2 row (w_db w1)))"
    using revoke_token_other [OF ok1, of row now2] w1(3) rowf(1) by simp
  then have "create_with insert_token (new_refresh_row j2 now2 (user_id row) (sha256_hex E tok)
      (now2 + timedelta_days (REFRESH_TOKEN_EXPIRE_DAYS cfg)) None None) (revoke_token now2 row (w_db w1)) = Inl IntegrityError"
    using auth_library.digest_length [OF assms(2)]
    by (simp add: create_token_effect [OF revoke_token_ok [OF ok1]] refresh_columns_def new_refresh_row_def)
  then have "fst (refresh E cfg now2 j2 tok w1) = Inl IntegrityError"
    using stored dec same by (simp add: refresh_def Let_def)
  with login2 show ?thesis by (simp add: w1(1))
qed

theorem same_second_fails_witness:
  "fst (login sample_env default_settings 999999 2 ada_login None None ada_session_world) = Inl IntegrityError"
proof -
  have "schema_ok (w_db ada_world)" "1 \<notin> row_id ` set (refresh_tokens (w_db ada_world))"
    "2 \<notin> row_id ` set (refresh_tokens (w_db ada_session_world))" "999999 div usec = 0 div usec"
    "0 < REFRESH_TOKEN_EXPIRE_DAYS default_settings"
    using ada_db_ok
    by (simp_all add: ada_world_def ada_db_def empty_database_def ada_session_world_def ada_session_def
        new_refresh_row_def usec_def default_settings_simps)
  then show ?thesis
    using same_second_fails [OF _ sample_auth.auth_library_axioms _ ada_login_outcome, of 999999 None None 2] by simp
qed

text \<open>
  Logout: the token is refused from then on, no other token changes its state, and the answer does not
  reveal whether the token was known.
\<close>

lemma logout_revokes:
  assumes "schema_ok (w_db w)" "logout E now raw w = (res, w')" "now \<le> t"
  shows "res = Inr () \<and>
    fst (refresh E cfg t j raw w') = Inl (auth_error ''Invalid or expired refresh token'') \<and>
    (\<forall>h. h \<noteq> sha256_hex E raw \<longrightarrow> get_by_hash t h (w_db w') = get_by_hash t h (w_db w))"
proof (cases "get_by_hash now (sha256_hex E raw) (w_db w)")
  case (Inl e)
  then show ?thesis using get_by_hash_iff(3) [OF assms(1)] by blast
next
  case (Inr found)
  show ?thesis
  proof (cases found)
    case None
    then have "res = Inr ()" "w' = w" using assms(2) Inr by (auto simp: logout_def)
    then show ?thesis
      using get_by_hash_later [OF assms(1) _ assms(3)] Inr None refresh_unknown by fastforce
  next
    case (Some old)
    then have old: "old \<in> set (refresh_tokens (w_db w))" "token_hash old = sha256_hex E raw"
      using Inr by (auto simp: get_by_hash_iff [OF assms(1)])
    have w': "res = Inr ()" "w_db w' = revoke_token now old (w_db w)"
      using assms(2) Inr Some by (auto simp: logout_def)
    have "get_by_hash t (sha256_hex E raw) (w_db w') = Inr None"
      using revoke_hides [OF assms(1) old(1)] old(2) by (simp add: w')
    then show ?thesis
      using w' revoke_keeps [OF assms(1) old(1)] old(2) by (simp add: refresh_unknown)
  qed
qed

text \<open>
  C18. The guard of the authenticated endpoints accepts exactly the tokens that decode to an access token
  whose subject is the identifier of an active account, and yields that account.
\<close>

theorem current_user_iff:
  assumes "schema_ok db"
  shows "get_current_user E cfg now cred db = Inr u \<longleftrightarrow>
    (\<exists>tok c s. cred = Some tok \<and> jwt_decode E now (SECRET_KEY cfg) (ALGORITHM cfg) tok = Some c \<and>
       type_claim c = Some ''access'' \<and> sub c = Some s \<and> parse_uuid s = Some (row_id u) \<and>
       u \<in> set (users db) \<and> u_is_active u)"
proof -
  have g: "get_by_id (users db) i = Inr (find (\<lambda>r. row_id r = i) (users db))" for i
    by (rule get_by_id_find [OF schema_distinct(3) [OF assms]])
  have f: "find (\<lambda>r. row_id r = i) (users db) = Some x \<longleftrightarrow> x \<in> set (users db) \<and> row_id x = i" for i x
    using find_key [OF schema_distinct(3) [OF assms], of i "\<lambda>_. True" x] by simp
  show ?thesis
proof
    assume "get_current_user E cfg now cred db = Inr u"
    then show "\<exists>tok c s. cred = Some tok \<and> jwt_decode E now (SECRET_KEY cfg) (ALGORITHM cfg) tok = Some c \<and>
       type_claim c = Some ''access'' \<and> sub c = Some s \<and> parse_uuid s = Some (row_id u) \<and>
       u \<in> set (users db) \<and> u_is_active u"
      by (auto simp: get_current_user_def decode_token_def g f split: option.splits sum.splits list.splits if_splits)
  next
    assume "\<exists>tok c s. cred = Some tok \<and> jwt_decode E now (SECRET_KEY cfg) (ALGORITHM cfg) tok = Some c \<and>
       type_claim c = Some ''access'' \<and> sub c = Some s \<and> parse_uuid s = Some (row_id u) \<and>
       u \<in> set (users db) \<and> u_is_active u"
    then obtain tok c s where a: "cred = Some tok" "jwt_decode E now (SECRET_KEY cfg) (ALGORITHM cfg) tok = Some c"
      "type_claim c = Some ''access''" "sub c = Some s" "parse_uuid s = Some (row_id u)"
      "u \<in> set (users db)" "u_is_active u"
      by blast
    then obtain ch s' where "s = ch # s'" using parse_uuid_nonempty [of s "row_id u"] by (cases s) auto
    moreover have "find (\<lambda>r. row_id r = row_id u) (users db) = Some u" using a(6) by (simp add: f)
    ultimately show "get_current_user E cfg now cred db = Inr u"
      using a by (simp add: get_current_user_def decode_token_def g)
  qed
qed

theorem current_user_iff_witness:
  "get_current_user sample_env default_settings 0 (Some (ada_token 0)) ada_db \<noteq> Inr ada"
proof -
  have "jwt_decode sample_env 0 (SECRET_KEY default_settings) (ALGORITHM default_settings) (ada_token 0) =
      Some \<lparr>sub = Some (str_uuid 7), exp_claim = 2592000, type_claim = Some ''refresh''\<rparr>"
    using sample_auth.decode_encode [of 0 "''change-this-secret-key''" "''HS256''"
        "\<lparr>sub = Some (str_uuid 7), exp_claim = 2592000, type_claim = Some ''refresh''\<rparr>"]
    by (simp add: ada_token_def default_settings_simps sample_env_simps usec_def)
  then show ?thesis
    using current_user_iff [OF ada_db_ok, of sample_env default_settings 0 "Some (ada_token 0)" ada] by simp
qed

end
