(* ===== verification/Events.thy ===== *)
theory Events
  imports World
begin

text \<open>
  \<open>app/utils/user_agent_parser.py\<close> and \<open>app/analytics/events.py\<close>: what is recorded of a click.  Parsing a
  User-Agent header is the third-party function \<open>ua_parse\<close>, hashing is \<open>sha256_hex\<close>.
\<close>

section \<open>\<open>parse_user_agent\<close>\<close>

record parsed_ua =
  pu_browser :: pystr
  pu_os :: pystr
  pu_device :: pystr

definition parse_user_agent :: "('r, 'x) ext_scheme \<Rightarrow> pystr option \<Rightarrow> parsed_ua" where
  "parse_user_agent E ua_string =
     (case ua_string of
        Some (ch # s) \<Rightarrow>
          (let ua = ua_parse E (ch # s)
           in \<lparr>pu_browser = (if ua_browser ua = [] then ''Unknown'' else ua_browser ua),
               pu_os = (if ua_os ua = [] then ''Unknown'' else ua_os ua),
               pu_device = (if ua_mobile ua then ''Mobile''
                            else if ua_tablet ua then ''Tablet''
                            else if ua_bot ua then ''Bot''
                            else ''Desktop'')\<rparr>)
      | _ \<Rightarrow> \<lparr>pu_browser = ''Unknown'', pu_os = ''Unknown'', pu_device = ''Other''\<rparr>)"

section \<open>\<open>ClickEvent\<close>\<close>

record click_event =
  ev_url_id :: uuid
  ev_timestamp :: instant
  ev_ip_address :: "pystr option"
  ev_user_agent :: "pystr option"
  ev_referrer :: "pystr option"
  ev_country :: "pystr option"
  ev_city :: "pystr option"
  ev_browser :: "pystr option"
  ev_os :: "pystr option"
  ev_device :: "pystr option"

definition ev_visitor_hash :: "('r, 'x) ext_scheme \<Rightarrow> click_event \<Rightarrow> pystr option" where
  "ev_visitor_hash E e =
     (case (ev_ip_address e, ev_user_agent e) of
        (Some (c # ip), Some (d # ua)) \<Rightarrow> Some (sha256_hex E ((c # ip) @ '':'' @ (d # ua)))
      | _ \<Rightarrow> None)"

definition event_to_dict :: "('r, 'x) ext_scheme \<Rightarrow> click_event \<Rightarrow> json" where
  "event_to_dict E e =
     JObj [(''short_url_id'', JStr (str_uuid (ev_url_id e))),
           (''timestamp'', JStr (isoformat (ev_timestamp e))),
           (''visitor_hash'', str_or_null (ev_visitor_hash E e)),
           (''user_agent'', str_or_null (ev_user_agent e)),
           (''referrer'', str_or_null (ev_referrer e)),
           (''country'', str_or_null (ev_country e)),
           (''city'', str_or_null (ev_city e)),
           (''browser'', str_or_null (ev_browser e)),
           (''os'', str_or_null (ev_os e)),
           (''device'', str_or_null (ev_device e))]"

lemma str_or_null_wf [simp]: "json_wf (str_or_null x)"
  by (cases x) auto

lemma event_to_dict_wf [simp]: "json_wf (event_to_dict E e)"
  by (simp add: event_to_dict_def)

section \<open>Property\<close>

text \<open>
  What is queued for a click depends on the visitor's address only through the digest of address and
  user agent, and does not depend on it at all when the user agent is missing: the address itself is not stored.
\<close>

lemma no_raw_ip_queued:
  "event_to_dict E (e\<lparr>ev_ip_address := ip\<rparr>) =
     (case event_to_dict E (e\<lparr>ev_ip_address := None\<rparr>) of
        JObj kvs \<Rightarrow> JObj (AList.update ''visitor_hash''
          (str_or_null
             (if ip = None \<or> ip = Some [] \<or> ev_user_agent e = None \<or> ev_user_agent e = Some [] then None
              else Some (sha256_hex E (the ip @ '':'' @ the (ev_user_agent e))))) kvs)
      | j \<Rightarrow> j)"
  by (auto simp: event_to_dict_def ev_visitor_hash_def split: option.splits list.splits)

end
