(* ===== verification/Redirect.thy ===== *)
theory Redirect
  imports Url_Service Events
begin

text \<open>
  \<open>app/services/redirect.py\<close> and the redirect endpoint of \<open>app/main.py\<close>.  \<open>resolve\<close> reads the cache, falls
  back to the database and returns the target together with the background tasks, which the server runs in
  order after the response; a request that raises runs none of them.
\<close>

section \<open>Resolution\<close>

fun json_truthy :: "json \<Rightarrow> bool" where
  "json_truthy JNull = False"
| "json_truthy (JBool b) = b"
| "json_truthy (JInt i) = (i \<noteq> 0)"
| "json_truthy (JDec d) = (d \<noteq> 0)"
| "json_truthy (JStr s) = (s \<noteq> [])"
| "json_truthy (JArr xs) = (xs \<noteq> [])"
| "json_truthy (JObj kvs) = (kvs \<noteq> [])"

text \<open>\<open>cached["k"]\<close> on a dictionary.\<close>

definition dict_item :: "json \<Rightarrow> pystr \<Rightarrow> json result" where
  "dict_item j k = (case obj_lookup j k of Some v \<Rightarrow> Inr v | None \<Rightarrow> Inl PyKeyError)"

definition uuid_of_json :: "json \<Rightarrow> uuid result" where
  "uuid_of_json j =
     (case j of
        JStr s \<Rightarrow> (case parse_uuid s of Some u \<Rightarrow> Inr u | None \<Rightarrow> Inl PyValueError)
      | JNull \<Rightarrow> Inl PyTypeError
      | _ \<Rightarrow> Inl PyAttributeError)"

text \<open>The target of a redirect is a string; no writer of the cache stores anything else there.\<close>

definition str_of_json :: "json \<Rightarrow> pystr result" where
  "str_of_json j = (case j of JStr s \<Rightarrow> Inr s | _ \<Rightarrow> Inl PyTypeError)"

definition guard_expiry :: "instant \<Rightarrow> json \<Rightarrow> unit result" where
  "guard_expiry now cached =
     (case cached of
        JObj _ \<Rightarrow>
          (let expires_at = obj_get cached ''expires_at''
           in if json_truthy expires_at then
                (case expires_at of
                   JStr s \<Rightarrow>
                     (case fromisoformat s of
                        None \<Rightarrow> Inl PyValueError
                      | Some expiry \<Rightarrow> if expiry \<le> now then Inl (App URLExpiredError) else Inr ())
                 | _ \<Rightarrow> Inl PyTypeError)
              else Inr ())
      | _ \<Rightarrow> Inl PyAttributeError)"

datatype task =
    CacheSet pystr json
  | TrackClick pystr
  | EnqueueClick uuid "pystr option" "pystr option" "pystr option"

text \<open>\<open>resolve\<close> after its lookup in the cache, then the whole.\<close>

definition resolve_from ::
  "instant \<Rightarrow> pystr \<Rightarrow> pystr option \<Rightarrow> pystr option \<Rightarrow> pystr option \<Rightarrow> json option \<Rightarrow> database \<Rightarrow>
   (pystr \<times> task list) result"
where
  "resolve_from now c ip agent refer hit db =
     (case (case hit of Some v \<Rightarrow> if json_truthy v then Some v else None | None \<Rightarrow> None) of
        Some cached \<Rightarrow>
          (case guard_expiry now cached of
             Inl e \<Rightarrow> Inl e
           | Inr _ \<Rightarrow>
               (case dict_item cached ''id'' of
                  Inl e \<Rightarrow> Inl e
                | Inr i \<Rightarrow>
                    (case uuid_of_json i of
                       Inl e \<Rightarrow> Inl e
                     | Inr url_id \<Rightarrow>
                         (case dict_item cached ''original_url'' of
                            Inl e \<Rightarrow> Inl e
                          | Inr o' \<Rightarrow>
                              (case str_of_json o' of
                                 Inl e \<Rightarrow> Inl e
                               | Inr original \<Rightarrow>
                                   Inr (original, [TrackClick c, EnqueueClick url_id ip agent refer]))))))
      | None \<Rightarrow>
          (case get_active_by_code now c db of
             Inl e \<Rightarrow> Inl e
           | Inr None \<Rightarrow> Inl (App URLNotFoundError)
           | Inr (Some url) \<Rightarrow>
               Inr (original_url url,
                    [CacheSet c (serialize url), TrackClick c, EnqueueClick (row_id url) ip agent refer])))"

definition resolve ::
  "('r, 'x) ext_scheme \<Rightarrow> instant \<Rightarrow> pystr \<Rightarrow> pystr option \<Rightarrow> pystr option \<Rightarrow> pystr option \<Rightarrow>
   'r world \<Rightarrow> (pystr \<times> task list) result"
where
  "resolve E now c ip agent refer w =
     (case url_cache_get E now c (w_redis w) of
        Inl e \<Rightarrow> Inl e
      | Inr hit \<Rightarrow> resolve_from now c ip agent refer hit (w_db w))"

section \<open>Background tasks\<close>

definition enqueue_click ::
  "('r, 'x) ext_scheme \<Rightarrow> instant \<Rightarrow> uuid \<Rightarrow> pystr option \<Rightarrow> pystr option \<Rightarrow> pystr option \<Rightarrow> 'r \<Rightarrow> 'r" where
  "enqueue_click E now url_id ip agent refer r =
     (let ua = parse_user_agent E agent
      in push_event E now (event_to_dict E
           \<lparr>ev_url_id = url_id, ev_timestamp = now, ev_ip_address = ip, ev_user_agent = agent,
            ev_referrer = refer, ev_country = None, ev_city = None, ev_browser = Some (pu_browser ua),
            ev_os = Some (pu_os ua), ev_device = Some (pu_device ua)\<rparr>) r)"

fun run_task :: "('r, 'x) ext_scheme \<Rightarrow> settings \<Rightarrow> instant \<Rightarrow> task \<Rightarrow> 'r \<Rightarrow> 'r" where
  "run_task E cfg now (CacheSet c v) r = url_cache_set E cfg now c v None r"
| "run_task E cfg now (TrackClick c) r = snd (track_click E cfg now c r)"
| "run_task E cfg now (EnqueueClick i ip agent refer) r = enqueue_click E now i ip agent refer r"

definition run_tasks :: "('r, 'x) ext_scheme \<Rightarrow> settings \<Rightarrow> instant \<Rightarrow> task list \<Rightarrow> 'r \<Rightarrow> 'r" where
  "run_tasks E cfg now ts r = fold (run_task E cfg now) ts r"

section \<open>The endpoint\<close>

text \<open>The parts of a request that handlers read: headers and the peer address.\<close>

record request =
  x_forwarded_for :: "pystr option"
  client_host :: "pystr option"
  h_user_agent :: "pystr option"
  h_referer :: "pystr option"

definition first_forwarded :: "pystr \<Rightarrow> pystr" where
  "first_forwarded h = py_strip (hd (split_on (CHR '','') h))"

definition redirect_ip :: "request \<Rightarrow> pystr option" where
  "redirect_ip req =
     (let x = first_forwarded (case x_forwarded_for req of Some h \<Rightarrow> h | None \<Rightarrow> [])
      in if x \<noteq> [] then Some x else client_host req)"

definition reserved_paths :: "pystr list" where
  "reserved_paths = [''docs'', ''redoc'', ''openapi.json'', ''health'', ''favicon.ico'']"

text \<open>The answer of the endpoint is the \<open>Location\<close> of a 302 response.\<close>

definition redirect ::
  "('r, 'x) ext_scheme \<Rightarrow> settings \<Rightarrow> instant \<Rightarrow> request \<Rightarrow> pystr \<Rightarrow> ('r, pystr) handler" where
  "redirect E cfg now req c w =
     (if c \<in> set reserved_paths then (Inl (HTTPException 404 ''Not Found''), w)
      else
        (case resolve E now c (redirect_ip req) (h_user_agent req) (h_referer req) w of
           Inl e \<Rightarrow> (Inl e, w)
         | Inr (target, tasks) \<Rightarrow> (Inr target, w\<lparr>w_redis := run_tasks E cfg now tasks (w_redis w)\<rparr>)))"

section \<open>Lemmas\<close>

lemma serialize_fields [simp]:
  "obj_lookup (serialize s) ''id'' = Some (JStr (str_uuid (row_id s)))"
  "obj_lookup (serialize s) ''original_url'' = Some (JStr (original_url s))"
  "obj_lookup (serialize s) ''expires_at'' = Some (str_or_null (map_option isoformat (expires_at s)))"
  "json_truthy (serialize s)"
  by (simp_all add: serialize_def)

lemma isoformat_nonempty: "isoformat t \<noteq> []"
  by (simp add: isoformat_def Let_def split: prod.split)

lemma guard_expiry_serialize:
  assumes "expiry_in_range (expires_at s)"
  shows "guard_expiry now (serialize s) = (if unexpired now s then Inr () else Inl (App URLExpiredError))"
proof -
  obtain kvs where s: "serialize s = JObj kvs" by (simp add: serialize_def)
  have "obj_get (JObj kvs) ''expires_at'' = str_or_null (map_option isoformat (expires_at s))"
    using serialize_fields(3) [of s] by (simp add: s obj_get_def)
  then show ?thesis
    using assms unfolding s guard_expiry_def
    by (cases "expires_at s")
      (auto simp: Let_def unexpired_def expiry_in_range_def fromiso_iso isoformat_nonempty)
qed

definition clicked_event ::
  "('r, 'x) ext_scheme \<Rightarrow> instant \<Rightarrow> uuid \<Rightarrow> pystr option \<Rightarrow> pystr option \<Rightarrow> pystr option \<Rightarrow> json" where
  "clicked_event E now url_id ip agent refer =
     event_to_dict E
       \<lparr>ev_url_id = url_id, ev_timestamp = now, ev_ip_address = ip, ev_user_agent = agent,
        ev_referrer = refer, ev_country = None, ev_city = None,
        ev_browser = Some (pu_browser (parse_user_agent E agent)),
        ev_os = Some (pu_os (parse_user_agent E agent)), ev_device = Some (pu_device (parse_user_agent E agent))\<rparr>"

lemma enqueue_click_push: "enqueue_click E now i ip agent refer r = push_event E now (clicked_event E now i ip agent refer) r"
  by (simp add: enqueue_click_def clicked_event_def Let_def)

definition resolve_tasks :: "bool \<Rightarrow> pystr \<Rightarrow> short_url \<Rightarrow> pystr option \<Rightarrow> pystr option \<Rightarrow> pystr option \<Rightarrow> task list" where
  "resolve_tasks hit c s ip agent refer =
     (if hit then [] else [CacheSet c (serialize s)]) @ [TrackClick c, EnqueueClick (row_id s) ip agent refer]"

lemma dates_ok_row: "dates_ok db \<Longrightarrow> links db c = Some s \<Longrightarrow> expiry_in_range (expires_at s)"
  by (auto simp: dates_ok_def list_all_iff dest: links_Some)

text \<open>With a cache in agreement with the table, resolution is a function of the table.\<close>

lemma resolve_world_ok:
  assumes "world_ok E now w"
    and hit_def: "hit \<longleftrightarrow> url_cache_get E now c (w_redis w) \<noteq> Inr None"
  shows "resolve E now c ip agent refer w =
    (case links (w_db w) c of
       None \<Rightarrow> Inl (App URLNotFoundError)
     | Some s \<Rightarrow>
         if live now s then Inr (original_url s, resolve_tasks hit c s ip agent refer)
         else Inl (App (if hit then URLExpiredError else URLNotFoundError)))"
proof -
  have ok: "links_ok (w_db w)" and dates: "dates_ok (w_db w)"
    and cache: "holds (url_cache_get E) (cached_link (w_db w)) now (w_redis w)"
    using assms(1) by (auto simp: world_ok_def)
  from cache consider "url_cache_get E now c (w_redis w) = Inr None"
    | s where "url_cache_get E now c (w_redis w) = Inr (Some (serialize s))" "links (w_db w) c = Some s" "is_active s"
    by (auto simp: holds_def cached_link_def)
  then show ?thesis
  proof cases
    case 1
    then show ?thesis
      using link.active_link [OF ok, of now c]
      by (auto simp: resolve_def resolve_from_def hit_def resolve_tasks_def split: option.splits)
  next
    case (2 s)
    then show ?thesis
      using guard_expiry_serialize [OF dates_ok_row [OF dates 2(2)]]
      by (simp add: resolve_def resolve_from_def hit_def resolve_tasks_def dict_item_def uuid_of_json_def str_of_json_def live_def)
  qed
qed

lemma resolve_tasks_run:
  "run_tasks E cfg now (resolve_tasks hit c s ip agent refer) r =
     (let r1 = (if hit then r else url_cache_set E cfg now c (serialize s) None r)
      in push_event E now (clicked_event E now (row_id s) ip agent refer) (snd (track_click E cfg now c r1)))"
  by (simp add: run_tasks_def resolve_tasks_def enqueue_click_push)

lemma redirect_world_ok_eq:
  assumes "world_ok E now w" "c \<notin> set reserved_paths"
  shows "redirect E cfg now req c w =
    (case links (w_db w) c of
       None \<Rightarrow> (Inl (App URLNotFoundError), w)
     | Some s \<Rightarrow>
         (let hit = (url_cache_get E now c (w_redis w) \<noteq> Inr None)
          in if live now s
             then (Inr (original_url s), w\<lparr>w_redis := run_tasks E cfg now
                     (resolve_tasks hit c s (redirect_ip req) (h_user_agent req) (h_referer req)) (w_redis w)\<rparr>)
             else (Inl (App (if hit then URLExpiredError else URLNotFoundError)), w)))"
  using assms(2)
  by (auto simp: redirect_def resolve_world_ok [OF assms(1) refl] Let_def split: option.splits)

context services
begin

lemma url_get_push:
  "now \<le> t \<Longrightarrow> url_cache_get E t c (push_event E now e r) = url_cache_get E t c r"
  by (rule url_get_cong) (simp add: push_event_def look_rpush_other)

lemma holds_push:
  "holds (url_cache_get E) P now r \<Longrightarrow> holds (url_cache_get E) P now (push_event E now e r)"
  by (simp add: holds_def url_get_push)

lemma queued_url_set:
  "events_queued r now es \<Longrightarrow> events_queued (url_cache_set E cfg now c v None r) now es"
  using ttl_positive by (auto simp: url_cache_set_def look_setex intro: queued_frame)

lemma queued_track:
  "events_queued r now es \<Longrightarrow> events_queued (snd (track_click E cfg now c r)) now es"
  by (rule queued_frame) (simp_all add: look_track)

lemma tasks_queue:
  assumes "events_queued r now es"
  shows "events_queued (run_tasks E cfg now (resolve_tasks hit c s ip agent refer) r) now
    (es @ [clicked_event E now (row_id s) ip agent refer])"
  unfolding resolve_tasks_run Let_def
  by (intro queue.queued_push queued_track) (auto simp: assms queued_url_set clicked_event_def)

lemma tasks_cache:
  assumes "holds (url_cache_get E) P now r" "\<not> hit \<Longrightarrow> P c (serialize s)"
  shows "holds (url_cache_get E) P now (run_tasks E cfg now (resolve_tasks hit c s ip agent refer) r)"
  unfolding resolve_tasks_run Let_def
  by (intro holds_push url_cache.holds_touch order_refl) (auto intro: assms url_cache.holds_put)

text \<open>A payload written by a redirect survives its own click.\<close>

lemma warmed_entry:
  assumes "now \<le> t" "t < now + timedelta_seconds (URL_CACHE_TTL cfg)"
  shows "url_cache_get E t c (run_tasks E cfg now (resolve_tasks False c s ip agent refer) r) = Inr (Some (serialize s))"
proof -
  let ?r = "url_cache_set E cfg now c (serialize s) None r"
  have l: "look ?r u (url_key c) = Some (RStr (dumps (serialize s)))" if "now \<le> u" "u \<le> t" for u
    using that assms(2) ttl_positive by (simp add: url_cache_set_def look_setex)
  have "t < now + timedelta_seconds (URL_CACHE_TTL cfg * 2)"
    using assms(2) ttl_positive(1) by (simp add: timedelta_seconds_def usec_def)
  then have "look (snd (track_click E cfg now c ?r)) t (url_key c) = Some (RStr (dumps (serialize s)))"
    using look_track [OF assms(1), of "url_key c" c ?r] l [OF assms(1) order_refl] l [OF order_refl assms(1)] by simp
  then show ?thesis
    unfolding resolve_tasks_run Let_def using url_get_push [OF assms(1)] by (simp add: url_get_hit)
qed

lemma redirect_keeps_world_ok:
  assumes "world_ok E now w"
  shows "world_ok E now (snd (redirect E cfg now req c w))"
proof (cases "c \<in> set reserved_paths")
  case True
  then show ?thesis using assms by (simp add: redirect_def)
next
  case False
  show ?thesis
  proof (cases "links (w_db w) c")
    case None
    then show ?thesis using assms redirect_world_ok_eq [OF assms False, of cfg req] by simp
  next
    case (Some s)
    then show ?thesis
      using assms redirect_world_ok_eq [OF assms False, of cfg req]
        tasks_cache [of "cached_link (w_db w)" now "w_redis w" "url_cache_get E now c (w_redis w) \<noteq> Inr None" c s]
      by (auto simp: Let_def world_ok_def cached_link_def live_def)
  qed
qed

end

text \<open>The answer of the endpoint.\<close>

lemma redirect_answer:
  assumes "world_ok E now w"
  shows "fst (redirect E cfg now req c w) =
    (if c \<in> set reserved_paths then Inl (HTTPException 404 ''Not Found'')
     else
       (case links (w_db w) c of
          None \<Rightarrow> Inl (App URLNotFoundError)
        | Some s \<Rightarrow>
            if live now s then Inr (original_url s)
            else if url_cache_get E now c (w_redis w) = Inr None then Inl (App URLNotFoundError)
            else Inl (App URLExpiredError)))"
proof (cases "c \<in> set reserved_paths")
  case True
  then show ?thesis by (simp add: redirect_def)
next
  case False
  then show ?thesis by (simp add: redirect_world_ok_eq [OF assms] Let_def split: option.splits)
qed

section \<open>Properties\<close>

text \<open>
  C1. The redirect endpoint, on every branch: a reserved path is answered 404 whatever the table says.  For every other
  code, as long as cached payloads agree with the table (\<open>world_ok\<close>, which holds in every state that requests reach one
  after the other), the answer is that of the table: the target of the link when it
  is active and unexpired, otherwise 404, or 410 in the one case that the link expired while its payload was still
  cached.
\<close>

theorem redirect_outcome:
  assumes "world_ok E now w"
  shows "fst (redirect E cfg now req c w) =
    (if c \<in> set reserved_paths then Inl (HTTPException 404 ''Not Found'')
     else
       (case links (w_db w) c of
          None \<Rightarrow> Inl (App URLNotFoundError)
        | Some s \<Rightarrow>
            if live now s then Inr (original_url s)
            else if url_cache_get E now c (w_redis w) = Inr None then Inl (App URLNotFoundError)
            else Inl (App URLExpiredError)))"
  using assms by (rule redirect_answer)

lemma redirect_queues:
  assumes "services E look cfg" "world_ok E now w" "c \<notin> set reserved_paths"
    and "links (w_db w) c = Some s" "live now s"
    and "redis_server.events_queued look (w_redis w) now es"
    and "redirect E cfg now req c w = (res, w')"
  shows "res = Inr (original_url s) \<and> w_db w' = w_db w \<and> world_ok E now w' \<and>
    redis_server.events_queued look (w_redis w') now
      (es @ [clicked_event E now (row_id s) (redirect_ip req) (h_user_agent req) (h_referer req)])"
proof -
  let ?hit = "url_cache_get E now c (w_redis w) \<noteq> Inr None"
  have "(res, w') = (Inr (original_url s), w\<lparr>w_redis := run_tasks E cfg now
      (resolve_tasks ?hit c s (redirect_ip req) (h_user_agent req) (h_referer req)) (w_redis w)\<rparr>)"
    using redirect_world_ok_eq [OF assms(2,3), of cfg req] assms(4,5,7) by (simp add: Let_def)
  then show ?thesis
    using services.tasks_queue [OF assms(1,6)] services.redirect_keeps_world_ok [OF assms(1,2), of req c] assms(7)
    by auto
qed

text \<open>
  A successful redirect changes nothing in the database, keeps the invariant, leaves the link cached,
  and queues exactly one event, for that link, behind those already waiting.
\<close>

lemma redirect_effects:
  assumes "services E look cfg" "world_ok E now w" "c \<notin> set reserved_paths"
    and "links (w_db w) c = Some s" "live now s"
    and "redis_server.events_queued look (w_redis w) now es"
    and "redirect E cfg now req c w = (res, w')"
  shows "res = Inr (original_url s) \<and> w_db w' = w_db w \<and> world_ok E now w' \<and>
    redis_server.events_queued look (w_redis w') now
      (es @ [clicked_event E now (row_id s) (redirect_ip req) (h_user_agent req) (h_referer req)])"
  using assms by (rule redirect_queues)

definition sample_request :: request where
  "sample_request = \<lparr>x_forwarded_for = None, client_host = Some ''203.0.113.9'', h_user_agent = Some ''UA'', h_referer = None\<rparr>"

lemma empty_redis_misses: "url_cache_get sample_env t c (\<lambda>_. None) = Inr None"
  by (rule sample.url_get_miss) simp

lemma sample_world_ok: "world_ok sample_env t sample_world"
  by (simp add: world_ok_def sample_world_def sample_db_ok holds_def empty_redis_misses)
    (simp add: dates_ok_def sample_db_def sample_link_def new_short_url_def expiry_in_range_def)

lemma sample_lookup: "links (w_db sample_world) ''my-link'' = Some sample_link"
  by (simp add: sample_world_def sample_db_def links_def sample_link_def new_short_url_def)

lemma sample_live: "live t sample_link"
  by (simp add: sample_link_def new_short_url_def live_def unexpired_def)

lemma sample_not_reserved: "''my-link'' \<notin> set reserved_paths"
  by (simp add: reserved_paths_def)

theorem redirect_outcome_witness:
  "fst (redirect sample_env default_settings 5 sample_request ''my-link'' sample_world) = Inr ''https://example.com/''"
  using redirect_outcome [where now = 5 and cfg = default_settings and req = sample_request and c = "''my-link''",
      OF sample_world_ok]
  by (simp add: sample_lookup sample_live sample_not_reserved) (simp add: sample_link_def new_short_url_def)

text \<open>
  Three aliases that the schema accepts can never be followed: the endpoint answers 404 for them before
  looking anything up.
\<close>

lemma reserved_aliases_unreachable:
  "list_all (\<lambda>a. alias_field (Some a) \<and>
      redirect E cfg now req a w = (Inl (HTTPException 404 ''Not Found''), w))
    [''docs'', ''redoc'', ''health'']"
  by (simp add: redirect_def reserved_paths_def alias_char_def is_ascii_alpha_def code_def)

text \<open>
  C30. Invalidation before commit: when a redirect falls between the cache invalidation of an update and the
  commit of its transaction, it reads the old row and caches it again; the deactivated link then goes on
  redirecting until the time to live has passed.
\<close>

theorem stale_redirect_after_update:
  assumes "services E look cfg" "world_ok E now w" "c \<notin> set reserved_paths"
    and "links (w_db w) c = Some s" "live now s" "may_change requester is_admin s"
    and "varchar 255 (u_title upd)" "u_set_active upd = Some False"
    and "now \<le> t" "t < now + timedelta_seconds (URL_CACHE_TTL cfg)" "unexpired t s"
    and "url_update E cfg now (row_id s) upd requester is_admin w = (res, w1)"
    and "redirect E cfg now req c (w\<lparr>w_redis := w_redis w1\<rparr>) = (seen, w2)"
  shows "seen = Inr (original_url s) \<and>
    fst (redirect E cfg t req' c (w1\<lparr>w_redis := w_redis w2\<rparr>)) = Inr (original_url s) \<and>
    (\<exists>s'. links (w_db w1) c = Some s' \<and> \<not> is_active s')"
proof -
  have ok: "links_ok (w_db w)" and dates: "dates_ok (w_db w)" using assms(2) by (auto simp: world_ok_def)
  have s: "s \<in> set (short_urls (w_db w))" "short_code s = c" using links_Some [OF assms(4)] by auto
  let ?s' = "updated_row (local_to_utc E) now upd s"
  have g: "get_by_id (short_urls (w_db w)) (row_id s) = Inr (Some s)"
    using get_by_id_Some [OF schema_distinct(1) [OF links_ok_schema [OF ok]]] s(1) by blast
  have w1: "w1 = w\<lparr>w_db := update_short_url (row_id s) (\<lambda>_. ?s') (w_db w), w_redis := drop_cached E ?s' (w_redis w)\<rparr>"
    using assms(6,12) g url_repo_update_row [OF ok s(1) assms(7), of "local_to_utc E" now]
    by (auto simp: url_update_def may_change_def)
  have k: "row_id ?s' = row_id s" "short_code ?s' = c" "alias_is_code ?s'" "\<not> is_active ?s'"
    using links_ok_row [OF ok s(1)] s(2) assms(8) by (auto simp: updated_row_def alias_is_code_def)
  have new: "links (w_db w1) c = Some ?s'"
    using links_update [OF ok s(1) k(1), of c] k(2) s(2) by (simp add: w1)
  have miss: "url_cache_get E now c (w_redis w1) = Inr None"
    using services.get_drop_cached [OF assms(1) k(3)] k(2) by (simp add: w1)
  have "holds (url_cache_get E) (cached_link (w_db w)) now (drop_cached E ?s' (w_redis w))"
    by (rule services.holds_drop_cached [OF assms(1) k(3)]) (use assms(2) in \<open>simp_all add: world_ok_def\<close>)
  then have "world_ok E now (w\<lparr>w_redis := w_redis w1\<rparr>)"
    using ok dates by (simp add: world_ok_def w1)
  note mid = redirect_world_ok_eq [OF this assms(3), of cfg req]
  then have w2: "seen = Inr (original_url s)"
    "w_redis w2 = run_tasks E cfg now
       (resolve_tasks False c s (redirect_ip req) (h_user_agent req) (h_referer req)) (w_redis w1)"
    using assms(4,5,13) miss by (auto simp: Let_def)
  have "url_cache_get E t c (w_redis w2) = Inr (Some (serialize s))"
    unfolding w2 by (rule services.warmed_entry [OF assms(1,9,10)])
  then have "fst (redirect E cfg t req' c (w1\<lparr>w_redis := w_redis w2\<rparr>)) = Inr (original_url s)"
    using assms(3,11) guard_expiry_serialize [OF dates_ok_row [OF dates assms(4)]]
    by (simp add: redirect_def resolve_def resolve_from_def dict_item_def uuid_of_json_def str_of_json_def)
  with w2(1) new k(4) show ?thesis by blast
qed

theorem stale_redirect_after_update_witness:
  "let w1 = snd (url_update sample_env default_settings 0 1 sample_update 7 False sample_world);
       w2 = snd (redirect sample_env default_settings 0 sample_request ''my-link'' (sample_world\<lparr>w_redis := w_redis w1\<rparr>))
   in fst (redirect sample_env default_settings 1000000 sample_request ''my-link'' (w1\<lparr>w_redis := w_redis w2\<rparr>))
      = Inr ''https://example.com/''"
proof -
  let ?u = "url_update sample_env default_settings 0 1 sample_update 7 False sample_world"
  let ?r = "redirect sample_env default_settings 0 sample_request ''my-link'' (sample_world\<lparr>w_redis := w_redis (snd ?u)\<rparr>)"
  have c: "may_change 7 False sample_link" "varchar 255 (u_title sample_update)" "u_set_active sample_update = Some False"
    "unexpired 1000000 sample_link" "row_id sample_link = 1" "original_url sample_link = ''https://example.com/''"
    "1000000 < 0 + timedelta_seconds (URL_CACHE_TTL default_settings)"
    by (simp_all add: may_change_def sample_link_def new_short_url_def sample_update_def unexpired_def
        default_settings_def timedelta_seconds_def usec_def)
  have u: "url_update sample_env default_settings 0 (row_id sample_link) sample_update 7 False sample_world = (fst ?u, snd ?u)"
    by (simp add: c)
  have "0 \<le> (1000000::int)" by simp
  from stale_redirect_after_update [OF sample.services_axioms sample_world_ok sample_not_reserved sample_lookup
      sample_live c(1-3) this c(7,4) u, of sample_request "fst ?r" "snd ?r" sample_request]
  show ?thesis by (simp add: c)
qed

end
