(* ===== verification/Processor.thy ===== *)
theory Processor
  imports Redirect
begin

text \<open>
  \<open>app/analytics/processor.py\<close> and \<open>app/tasks/analytics_tasks.py\<close>: the background worker that moves click
  events from the Redis queue into the database, one batch per iteration, and the denormalised click
  counters.  A batch is one transaction: \<open>session.commit()\<close> is its last statement, and leaving the session
  by an exception (or by cancellation) undoes it, but not the pop.
\<close>

section \<open>Parsing events\<close>

text \<open>
  The keyword arguments built from one raw event.  The \<open>try\<close> block of the code skips an event whose
  identifier or timestamp cannot be read; the other values are passed on as they are.
\<close>

record parsed_click =
  pc_url_id :: uuid
  pc_created_at :: instant
  pc_fields :: "json list"

definition field_names :: "pystr list" where
  "field_names = [''visitor_hash'', ''country'', ''city'', ''referrer'', ''user_agent'', ''browser'', ''os'', ''device'']"

definition parse_event :: "json \<Rightarrow> parsed_click option" where
  "parse_event raw =
     (case obj_lookup raw ''short_url_id'' of
        Some (JStr i) \<Rightarrow>
          (case parse_uuid i of
             None \<Rightarrow> None
           | Some url_id \<Rightarrow>
               (case obj_lookup raw ''timestamp'' of
                  Some (JStr ts) \<Rightarrow>
                    (case fromisoformat ts of
                       None \<Rightarrow> None
                     | Some t \<Rightarrow> Some \<lparr>pc_url_id = url_id, pc_created_at = t, pc_fields = map (obj_get raw) field_names\<rparr>)
                | _ \<Rightarrow> None))
      | _ \<Rightarrow> None)"

text \<open>A text column takes strings and \<open>NULL\<close>; the driver refuses anything else.\<close>

fun text_value :: "json \<Rightarrow> pystr option option" where
  "text_value JNull = Some None"
| "text_value (JStr s) = Some (Some s)"
| "text_value _ = None"

text \<open>\<open>ClickEvent(**e)\<close> with the primary key drawn at the flush.\<close>

definition new_click :: "uuid \<Rightarrow> instant \<Rightarrow> parsed_click \<Rightarrow> click_row result" where
  "new_click i now p =
     (case map text_value (pc_fields p) of
        [Some vh, Some co, Some ci, Some re, Some ua, Some br, Some os', Some de] \<Rightarrow>
          Inr \<lparr>row_id = i, created_at = pc_created_at p, updated_at = now, short_url_id = pc_url_id p,
               visitor_hash = vh, country = co, city = ci, referrer = re, user_agent = ua,
               browser = br, os = os', device = de\<rparr>
      | _ \<Rightarrow> Inl DataError)"

fun new_clicks :: "uuid list \<Rightarrow> instant \<Rightarrow> parsed_click list \<Rightarrow> click_row list result" where
  "new_clicks ids now [] = Inr []"
| "new_clicks ids now (p # ps) =
     (case new_click (hd ids) now p of
        Inl e \<Rightarrow> Inl e
      | Inr r \<Rightarrow> (case new_clicks (tl ids) now ps of Inl e \<Rightarrow> Inl e | Inr rs \<Rightarrow> Inr (r # rs)))"

section \<open>One flush\<close>

text \<open>\<open>collections.Counter\<close>: the elements in the order of their first occurrence.\<close>

definition counter :: "'a list \<Rightarrow> ('a \<times> int) list" where
  "counter xs = fold (\<lambda>x c. AList.update x ((case map_of c x of None \<Rightarrow> 0 | Some n \<Rightarrow> n) + 1) c) xs []"

definition bump_all :: "instant \<Rightarrow> (uuid \<times> int) list \<Rightarrow> database \<Rightarrow> database" where
  "bump_all now counts db = fold (\<lambda>(i, n). increment_click_count now i n) counts db"

text \<open>From the popped events to the commit.\<close>

definition persist_batch :: "uuid list \<Rightarrow> instant \<Rightarrow> json list \<Rightarrow> database \<Rightarrow> database result" where
  "persist_batch ids now events db =
     (let db_events = List.map_filter parse_event events;
          inserted = (if db_events \<noteq> []
                      then (case new_clicks ids now db_events of
                              Inl e \<Rightarrow> Inl e | Inr rows \<Rightarrow> bulk_insert rows db)
                      else Inr db)
      in case inserted of
           Inl e \<Rightarrow> Inl e
         | Inr db1 \<Rightarrow> Inr (bump_all now (counter (map pc_url_id db_events)) db1))"

text \<open>The first half of \<open>_flush\<close>: the queue is looked at and the batch popped.\<close>

definition flush_pop :: "('r, 'x) ext_scheme \<Rightarrow> settings \<Rightarrow> instant \<Rightarrow> ('r, json list) handler" where
  "flush_pop E cfg now w =
     (if queue_length E now (w_redis w) = 0 then (Inr [], w)
      else
        (case pop_events E now (nat (ANALYTICS_BATCH_SIZE cfg)) (w_redis w) of
           (res, r') \<Rightarrow> (res, w\<lparr>w_redis := r'\<rparr>)))"

definition flush :: "('r, 'x) ext_scheme \<Rightarrow> settings \<Rightarrow> instant \<Rightarrow> uuid list \<Rightarrow> ('r, unit) handler" where
  "flush E cfg now ids w =
     (case flush_pop E cfg now w of
        (Inl e, w1) \<Rightarrow> (Inl e, w1)
      | (Inr events, w1) \<Rightarrow>
          if events = [] then (Inr (), w1)
          else
            (case persist_batch ids now events (w_db w1) of
               Inl e \<Rightarrow> (Inl e, w1)
             | Inr db' \<Rightarrow> (Inr (), w1\<lparr>w_db := db'\<rparr>)))"

section \<open>The worker\<close>

text \<open>
  The worker is the module's singleton: \<open>Stopped\<close> when there is none, \<open>Running\<close> from \<open>start_analytics_worker\<close> on, and
  \<open>Halted\<close> when its loop has been cancelled while the singleton is still set, because the final flush raised.  An
  iteration of \<open>_run\<close> catches and logs every exception of the flush.
\<close>

datatype worker = Stopped | Running | Halted

definition run_iteration :: "('r, 'x) ext_scheme \<Rightarrow> settings \<Rightarrow> instant \<Rightarrow> uuid list \<Rightarrow> 'r world \<Rightarrow> 'r world" where
  "run_iteration E cfg now ids w = snd (flush E cfg now ids w)"

definition start_worker :: "worker \<Rightarrow> worker" where
  "start_worker s = Running"

text \<open>
  \<open>stop\<close>: the task is cancelled, if it was in a flush after the pop, then one final flush runs.
  \<open>in_flush\<close> says whether the cancellation falls there.
\<close>

definition stop_worker ::
  "('r, 'x) ext_scheme \<Rightarrow> settings \<Rightarrow> instant \<Rightarrow> uuid list \<Rightarrow> bool \<Rightarrow> worker \<Rightarrow> 'r world \<Rightarrow>
   unit result \<times> worker \<times> 'r world"
where
  "stop_worker E cfg now ids in_flush s w =
     (case s of
        Stopped \<Rightarrow> (Inr (), Stopped, w)
      | _ \<Rightarrow>
          (let w1 = (if in_flush \<and> s = Running then snd (flush_pop E cfg now w) else w);
               (res, w2) = flush E cfg now ids w1
           in (res, (case res of Inr _ \<Rightarrow> Stopped | Inl _ \<Rightarrow> Halted), w2)))"

section \<open>Counting\<close>

lemma counter_append_aux:
  "distinct (map fst c) \<Longrightarrow>
   (case map_of (fold (\<lambda>x c. AList.update x ((case map_of c x of None \<Rightarrow> 0 | Some n \<Rightarrow> n) + 1) c) xs c) y of
      None \<Rightarrow> 0 | Some n \<Rightarrow> n) = (case map_of c y of None \<Rightarrow> 0 | Some n \<Rightarrow> n) + int (count_list xs y) \<and>
   distinct (map fst (fold (\<lambda>x c. AList.update x ((case map_of c x of None \<Rightarrow> 0 | Some n \<Rightarrow> n) + 1) c) xs c))"
proof (induction xs arbitrary: c)
  case Nil
  then show ?case by simp
next
  case (Cons x xs)
  let ?c = "AList.update x ((case map_of c x of None \<Rightarrow> 0 | Some n \<Rightarrow> n) + 1) c"
  have "distinct (map fst ?c)" using Cons.prems by (rule distinct_update)
  from Cons.IH [OF this] show ?case by (simp add: update_conv')
qed

lemma counter_count: "(case map_of (counter xs) y of None \<Rightarrow> 0 | Some n \<Rightarrow> n) = int (count_list xs y)"
  and counter_distinct: "distinct (map fst (counter xs))"
  using counter_append_aux [of "[]" xs y] by (simp_all add: counter_def)

definition click_total :: "uuid \<Rightarrow> database \<Rightarrow> int" where
  "click_total i db = int (length (filter (\<lambda>e. short_url_id e = i) (click_events db)))"

text \<open>The denormalised counter of every link is the number of its rows in \<open>click_events\<close>.\<close>

definition counts_agree :: "database \<Rightarrow> bool" where
  "counts_agree db \<longleftrightarrow> list_all (\<lambda>s. click_count s = click_total (row_id s) db) (short_urls db)"

definition amount :: "(uuid \<times> int) list \<Rightarrow> uuid \<Rightarrow> int" where
  "amount cs i = (case map_of cs i of None \<Rightarrow> 0 | Some n \<Rightarrow> n)"

definition bumped :: "instant \<Rightarrow> (uuid \<times> int) list \<Rightarrow> short_url \<Rightarrow> short_url" where
  "bumped now cs s =
     (case map_of cs (row_id s) of
        None \<Rightarrow> s | Some n \<Rightarrow> s\<lparr>click_count := click_count s + n, updated_at := now\<rparr>)"

lemma bump_all_rows:
  "distinct (map fst cs) \<Longrightarrow> bump_all now cs db = db\<lparr>short_urls := map (bumped now cs) (short_urls db)\<rparr>"
proof (induction cs arbitrary: db)
  case Nil
  have "map (bumped now []) (short_urls db) = short_urls db"
    by (rule map_idI) (simp add: bumped_def)
  then show ?case by (simp add: bump_all_def)
next
  case (Cons c cs)
  obtain i n where c: "c = (i, n)" by (cases c)
  have "bump_all now (c # cs) db = bump_all now cs (increment_click_count now i n db)"
    by (simp add: bump_all_def c)
  also have "\<dots> = db\<lparr>short_urls := map (bumped now cs) (upd_where (\<lambda>s. row_id s = i)
      (\<lambda>s. s\<lparr>click_count := click_count s + n, updated_at := now\<rparr>) (short_urls db))\<rparr>"
    using Cons by (simp add: increment_click_count_def update_short_url_def)
  also have "\<dots> = db\<lparr>short_urls := map (bumped now (c # cs)) (short_urls db)\<rparr>"
  proof -
    have "map_of cs i = None" using Cons.prems c by (auto simp: map_of_eq_None_iff)
    then show ?thesis by (simp add: upd_where_def c bumped_def comp_def)
  qed
  finally show ?case .
qed

lemma bumped_keys [simp]:
  "row_id (bumped now cs s) = row_id s" "short_code (bumped now cs s) = short_code s"
  "custom_alias (bumped now cs s) = custom_alias s" "owner_id (bumped now cs s) = owner_id s"
  "is_active (bumped now cs s) = is_active s" "expires_at (bumped now cs s) = expires_at s"
  "original_url (bumped now cs s) = original_url s" "title (bumped now cs s) = title s"
  "is_public (bumped now cs s) = is_public s"
  "click_count (bumped now cs s) = click_count s + amount cs (row_id s)"
  by (simp_all add: bumped_def amount_def split: option.split)

lemma bulk_insert_effect:
  "bulk_insert es db = Inr db' \<Longrightarrow> db' = db\<lparr>click_events := click_events db @ es\<rparr>"
  by (induction es arbitrary: db) (fastforce simp: insert_click_def split: sum.splits if_splits)+

lemma bulk_insert_ok [invariant_intros]: "schema_ok db \<Longrightarrow> bulk_insert es db = Inr db' \<Longrightarrow> schema_ok db'"
  by (induction es arbitrary: db) (auto intro: insert_click_ok split: sum.splits)

lemma new_clicks_url:
  "new_clicks ids now ps = Inr rs \<Longrightarrow> map short_url_id rs = map pc_url_id ps"
proof (induction ps arbitrary: ids rs)
  case (Cons p ps)
  have "short_url_id r = pc_url_id p" if "new_click i now p = Inr r" for i r
    using that by (auto simp: new_click_def split: list.splits option.splits)
  with Cons show ?case by (auto split: sum.splits)
qed simp

lemma bulk_insert_urls:
  "bulk_insert es db = Inr db' \<Longrightarrow> e \<in> set es \<Longrightarrow> short_url_id e \<in> row_id ` set (short_urls db)"
proof (induction es arbitrary: db)
  case (Cons x es)
  from Cons.prems(1) obtain db1 where x: "insert_click x db = Inr db1" "bulk_insert es db1 = Inr db'"
    by (auto split: sum.splits)
  then have "short_urls db1 = short_urls db" "short_url_id x \<in> row_id ` set (short_urls db)"
    by (auto simp: insert_click_def split: if_splits)
  with Cons.IH [OF x(2)] Cons.prems(2) show ?case by auto
qed simp

section \<open>The effect of a batch\<close>

lemma persist_batch_effect:
  assumes "persist_batch ids now events db = Inr db'"
  defines "us \<equiv> map pc_url_id (List.map_filter parse_event events)"
  obtains rows where "map short_url_id rows = us" "bulk_insert rows db = Inr (db\<lparr>click_events := click_events db @ rows\<rparr>)"
    "db' = db\<lparr>click_events := click_events db @ rows, short_urls := map (bumped now (counter us)) (short_urls db)\<rparr>"
proof -
  let ?ps = "List.map_filter parse_event events"
  obtain rows where r: "map short_url_id rows = us" "bulk_insert rows db = Inr (db\<lparr>click_events := click_events db @ rows\<rparr>)"
    "Inr db' = Inr (bump_all now (counter us) (db\<lparr>click_events := click_events db @ rows\<rparr>))"
  proof (cases "?ps = []")
    case True
    then show ?thesis using assms that [of "[]"] by (simp add: persist_batch_def Let_def us_def)
  next
    case False
    then obtain rows db1 where rows: "new_clicks ids now ?ps = Inr rows" "bulk_insert rows db = Inr db1"
      "db' = bump_all now (counter us) db1"
      using assms(1) by (auto simp: persist_batch_def Let_def us_def split: sum.splits)
    then show ?thesis
      using that [of rows] new_clicks_url [OF rows(1)] bulk_insert_effect [OF rows(2)] by (simp add: us_def)
  qed
  then show ?thesis
    using that [of rows] bump_all_rows [OF counter_distinct, of now us "db\<lparr>click_events := click_events db @ rows\<rparr>"]
    by simp
qed

lemma amount_counter: "amount (counter us) i = int (count_list us i)"
  using counter_count [of us i] by (simp add: amount_def)

lemma click_total_append:
  "click_total i (db\<lparr>click_events := click_events db @ rows\<rparr>) =
    click_total i db + int (count_list (map short_url_id rows) i)"
proof -
  have "length (filter (\<lambda>e. short_url_id e = i) rows) = count_list (map short_url_id rows) i"
    by (induction rows) auto
  then show ?thesis by (simp add: click_total_def)
qed

lemma click_total_short_urls [simp]: "click_total i (db\<lparr>short_urls := ss\<rparr>) = click_total i db"
  by (simp add: click_total_def)

lemma persist_batch_counts [invariant_intros]:
  assumes "counts_agree db" "persist_batch ids now events db = Inr db'"
  shows "counts_agree db'"
proof -
  obtain rows where rows: "map short_url_id rows = map pc_url_id (List.map_filter parse_event events)"
    "db' = db\<lparr>click_events := click_events db @ rows,
       short_urls := map (bumped now (counter (map pc_url_id (List.map_filter parse_event events)))) (short_urls db)\<rparr>"
    using persist_batch_effect [OF assms(2)] by metis
  then show ?thesis
    using assms(1) click_total_append [of _ db rows]
    by (auto simp: counts_agree_def list_all_iff amount_counter rows(1) [symmetric] click_total_def)
qed

lemma find_map_key:
  "(\<And>x. P (f x) = P x) \<Longrightarrow> find P (map f xs) = map_option f (find P xs)"
  by (induction xs) auto

lemma persist_batch_links_ok [invariant_intros]:
  assumes "links_ok db" "persist_batch ids now events db = Inr db'"
  shows "links_ok db'" "links db' c = map_option (bumped now (counter (map pc_url_id (List.map_filter parse_event events)))) (links db c)"
    "users db' = users db" "refresh_tokens db' = refresh_tokens db"
proof -
  let ?cs = "counter (map pc_url_id (List.map_filter parse_event events))"
  obtain rows where rows: "bulk_insert rows db = Inr (db\<lparr>click_events := click_events db @ rows\<rparr>)"
    "db' = db\<lparr>click_events := click_events db @ rows, short_urls := map (bumped now ?cs) (short_urls db)\<rparr>"
    using persist_batch_effect [OF assms(2)] by metis
  let ?db1 = "db\<lparr>click_events := click_events db @ rows\<rparr>"
  have "schema_ok ?db1" by (rule bulk_insert_ok [OF links_ok_schema [OF assms(1)] rows(1)])
  then have "schema_ok db'"
    unfolding rows(2) schema_ok_def short_urls_ok_def clicks_ok_def snapshots_ok_def
    by (simp add: comp_def list_all_iff short_url_columns_def unique_col_def)
  then show "links_ok db'"
    using assms(1) rows(2) by (simp add: links_ok_def list_all_iff alias_is_code_def)
  show "links db' c = map_option (bumped now ?cs) (links db c)"
    by (simp add: rows(2) links_def find_map_key)
  show "users db' = users db" "refresh_tokens db' = refresh_tokens db"
    by (simp_all add: rows(2))
qed

lemma serialize_bumped [simp]: "serialize (bumped now cs s) = serialize s"
  by (simp add: serialize_def)

lemma persist_batch_dates:
  assumes "dates_ok db" "persist_batch ids now events db = Inr db'"
  shows "dates_ok db'"
proof -
  obtain cs rows where "db' = db\<lparr>click_events := click_events db @ rows, short_urls := map (bumped now cs) (short_urls db)\<rparr>"
    using persist_batch_effect [OF assms(2)] by metis
  then show ?thesis using assms(1) by (simp add: dates_ok_def list_all_iff)
qed

lemma flush_cases:
  obtains (empty) "flush E cfg now ids w = (Inr (), snd (flush_pop E cfg now w))" "fst (flush_pop E cfg now w) = Inr []"
  | (failed) e where "flush E cfg now ids w = (Inl e, snd (flush_pop E cfg now w))"
  | (persisted) events db' where "fst (flush_pop E cfg now w) = Inr events" "persist_batch ids now events (w_db w) = Inr db'"
      "flush E cfg now ids w = (Inr (), (snd (flush_pop E cfg now w))\<lparr>w_db := db'\<rparr>)"
proof -
  have db: "w_db (snd (flush_pop E cfg now w)) = w_db w"
    by (simp add: flush_pop_def split: prod.split)
  obtain res w1 where p: "flush_pop E cfg now w = (res, w1)" by (cases "flush_pop E cfg now w")
  show ?thesis
  proof (cases res)
    case (Inl e)
    then show ?thesis using p that(2) by (simp add: flush_def)
  next
    case (Inr events)
    then show ?thesis
      using p that db
      by (cases "events = []"; cases "persist_batch ids now events (w_db w)") (auto simp: flush_def)
  qed
qed

context services
begin

lemma pop_frame:
  assumes "k \<noteq> queue_key" "now \<le> t"
  shows "look (w_redis (snd (flush_pop E cfg now w))) t k = look (w_redis w) t k"
proof -
  have "w_redis (snd (flush_pop E cfg now w)) = w_redis w \<or>
      w_redis (snd (flush_pop E cfg now w)) = snd (redis_lmpop E now queue_key (nat (ANALYTICS_BATCH_SIZE cfg)) (w_redis w))"
    by (auto simp: flush_pop_def pop_events_def split: prod.splits option.splits)
  then show ?thesis using look_lmpop_other [OF assms] by (elim disjE) simp_all
qed

lemma pop_db [simp]: "w_db (snd (flush_pop E cfg now w)) = w_db w"
  by (simp add: flush_pop_def split: prod.split)

end

context cached_services
begin

lemma pop_world_ok: "world_ok_with promise E now w \<Longrightarrow> world_ok_with promise E now (snd (flush_pop E cfg now w))"
proof -
  assume w: "world_ok_with promise E now w"
  have "url_cache_get E now c (w_redis (snd (flush_pop E cfg now w))) = url_cache_get E now c (w_redis w)" for c
    by (rule url_get_cong) (simp add: pop_frame)
  with w show ?thesis by (simp add: world_ok_with_def holds_def)
qed

lemma persist_world_ok:
  assumes "world_ok_with promise E now w" "persist_batch ids now events (w_db w) = Inr db'"
  shows "world_ok_with promise E now (w\<lparr>w_db := db'\<rparr>)"
proof -
  note keep = persist_batch_links_ok [OF world_ok_with_links [OF assms(1)] assms(2)]
  have "promise db' c v" if "promise (w_db w) c v" for c v
    by (rule promise_kept [OF _ that]) (use keep(2) in auto)
  then show ?thesis
    using assms keep(1) persist_batch_dates [OF _ assms(2)]
    by (auto simp: world_ok_with_def elim: url_cache.holds_mono)
qed

lemma flush_keeps_world_ok:
  assumes "world_ok_with promise E now w"
  shows "world_ok_with promise E now (snd (flush E cfg now ids w))"
proof -
  note p = pop_world_ok [OF assms]
  show ?thesis
  proof (cases rule: flush_cases [of E cfg now ids w])
    case (persisted events db')
    then show ?thesis using persist_world_ok [OF p, of ids events db'] by simp
  qed (use p in simp_all)
qed

end

context services
begin

text \<open>With a queue of events, the pop takes a prefix.\<close>

lemma pop_queue:
  assumes "events_queued (w_redis w) now es" "0 < ANALYTICS_BATCH_SIZE cfg"
  defines "n \<equiv> nat (ANALYTICS_BATCH_SIZE cfg)"
  shows "fst (flush_pop E cfg now w) = Inr (take n es)"
    and "events_queued (w_redis (snd (flush_pop E cfg now w))) now (drop n es)"
proof -
  have n: "0 < n" using assms(2) by (simp add: n_def)
  have len: "queue_length E now (w_redis w) = int (length es)"
    by (rule queue.size_queued [OF assms(1)])
  show "fst (flush_pop E cfg now w) = Inr (take n es)"
    using queue.pop_front [OF assms(1) n] len
    by (cases "es = []") (auto simp: flush_pop_def n_def split: prod.splits)
  show "events_queued (w_redis (snd (flush_pop E cfg now w))) now (drop n es)"
    using queue.queued_pop [OF assms(1) n] len assms(1)
    by (cases "es = []") (auto simp: flush_pop_def n_def split: prod.splits)
qed

end

lemma flush_keeps_counts:
  assumes "counts_agree (w_db w)"
  shows "counts_agree (w_db (snd (flush E cfg now ids w)))"
proof -
  have db: "w_db (snd (flush_pop E cfg now w)) = w_db w"
    by (simp add: flush_pop_def split: prod.split)
  show ?thesis
    by (cases rule: flush_cases [of E cfg now ids w])
      (use assms db persist_batch_counts [OF assms] in auto)
qed

section \<open>What a redirect queues is what a flush stores\<close>

definition stored_click :: "('r, 'x) ext_scheme \<Rightarrow> uuid \<Rightarrow> instant \<Rightarrow> instant \<Rightarrow> uuid \<Rightarrow> pystr option \<Rightarrow> pystr option \<Rightarrow> pystr option \<Rightarrow> click_row" where
  "stored_click E i at now url_id ip agent refer =
     (let ua = parse_user_agent E agent
      in \<lparr>row_id = i, created_at = at, updated_at = now, short_url_id = url_id,
          visitor_hash = (if ip = None \<or> ip = Some [] \<or> agent = None \<or> agent = Some [] then None
                          else Some (sha256_hex E (the ip @ '':'' @ the agent))),
          country = None, city = None, referrer = refer, user_agent = agent,
          browser = Some (pu_browser ua), os = Some (pu_os ua), device = Some (pu_device ua)\<rparr>)"

lemma text_value_str_or_null [simp]: "text_value (str_or_null x) = Some x"
  by (cases x) auto

lemma parse_clicked_event:
  assumes "0 \<le> at" "at < max_instant"
  shows "\<exists>p. parse_event (clicked_event E at url_id ip agent refer) = Some p \<and> pc_url_id p = url_id \<and>
    new_click i now p = Inr (stored_click E i at now url_id ip agent refer)"
proof -
  have "ev_visitor_hash E \<lparr>ev_url_id = url_id, ev_timestamp = at, ev_ip_address = ip, ev_user_agent = agent,
        ev_referrer = refer, ev_country = None, ev_city = None, ev_browser = b, ev_os = o', ev_device = d\<rparr> =
      visitor_hash (stored_click E i at now url_id ip agent refer)" for b o' d
    by (auto simp: ev_visitor_hash_def stored_click_def Let_def split: option.splits list.splits)
  then show ?thesis
    using fromiso_iso [OF assms]
    by (simp add: parse_event_def clicked_event_def event_to_dict_def field_names_def obj_get_def new_click_def)
      (simp add: stored_click_def Let_def)
qed

lemma flush_unfold:
  assumes "fst (flush_pop E cfg now w) = Inr events"
  shows "flush E cfg now ids w =
    (let w1 = snd (flush_pop E cfg now w)
     in if events = [] then (Inr (), w1)
        else case persist_batch ids now events (w_db w1) of
               Inl e \<Rightarrow> (Inl e, w1) | Inr db' \<Rightarrow> (Inr (), w1\<lparr>w_db := db'\<rparr>))"
  using assms by (cases "flush_pop E cfg now w") (simp add: flush_def)

lemma click_total_fresh:
  "schema_ok db \<Longrightarrow> i \<notin> row_id ` set (short_urls db) \<Longrightarrow> click_total i db = 0"
  by (auto simp: click_total_def schema_ok_def clicks_ok_def list_all_iff filter_empty_conv)

lemma create_keeps_counts:
  assumes "links_ok (w_db w)" "counts_agree (w_db w)" "valid_create data" "insertable cfg i owner (w_db w)"
  shows "counts_agree (w_db (snd (url_create E cfg now i rng data owner w)))"
proof -
  have "click_total i (w_db w) = 0"
    using click_total_fresh [OF links_ok_schema [OF assms(1)]] assms(4) by (simp add: insertable_def)
  then show ?thesis
    using assms(2) unfolding url_create_eq [OF assms(1,3,4)]
    by (cases "choose_code cfg rng (w_db w) (c_custom_alias data)")
      (simp_all add: Let_def counts_agree_def new_short_url_def)
qed

lemma update_keeps_counts:
  assumes "links_ok (w_db w)" "counts_agree (w_db w)" "varchar 255 (u_title data)"
  shows "counts_agree (w_db (snd (url_update E cfg now i data requester is_admin w)))"
proof (cases rule: get_link_by_id [OF assms(1), of i])
  case 1
  then show ?thesis using assms(2) by (simp add: url_update_def)
next
  case (2 s)
  have "click_count (updated_row u n data s) = click_count s" "row_id (updated_row u n data s) = row_id s" for u n
    by (simp_all add: updated_row_def)
  then show ?thesis
    using assms(2) 2 url_repo_update_row [OF assms(1) 2(2) assms(3), of "local_to_utc E" now]
    by (auto simp: url_update_def counts_agree_def list_all_iff update_short_url_def set_upd_where)
qed

lemma counts_agree_delete:
  assumes "counts_agree db"
  shows "counts_agree (delete_short_url i db)"
proof -
  have "click_total j (delete_short_url i db) = click_total j db" if "j \<noteq> i" for j
  proof -
    have "filter (\<lambda>e. short_url_id e = j) (filter (\<lambda>e. short_url_id e \<noteq> i) es) =
        filter (\<lambda>e. short_url_id e = j) es" for es :: "click_row list"
      using that by (induction es) auto
    then show ?thesis by (simp add: click_total_def delete_short_url_def)
  qed
  then show ?thesis
    using assms by (simp add: counts_agree_def list_all_iff) (simp add: delete_short_url_def)
qed

lemma delete_keeps_counts:
  assumes "links_ok (w_db w)" "counts_agree (w_db w)"
  shows "counts_agree (w_db (snd (url_delete E i requester is_admin w)))"
  using assms(2) counts_agree_delete [OF assms(2)]
  by (cases rule: get_link_by_id [OF assms(1), of i]) (simp_all add: url_delete_def url_repo_delete_def)

lemma redirect_db [simp]: "w_db (snd (redirect E cfg now req c w)) = w_db w"
  by (simp add: redirect_def split: sum.split)

section \<open>Properties\<close>

lemma flush_effect:
  assumes "services E look cfg" "0 < ANALYTICS_BATCH_SIZE cfg"
    and "redis_server.events_queued look (w_redis w) now es"
    and "flush E cfg now ids w = (res, w')"
  defines "n \<equiv> nat (ANALYTICS_BATCH_SIZE cfg)"
  defines "us \<equiv> map pc_url_id (List.map_filter parse_event (take n es))"
  shows "redis_server.events_queued look (w_redis w') now (drop n es) \<and>
    (if res = Inr ()
     then \<exists>rows. map short_url_id rows = us \<and> click_events (w_db w') = click_events (w_db w) @ rows \<and>
            map row_id (short_urls (w_db w')) = map row_id (short_urls (w_db w)) \<and>
            map click_count (short_urls (w_db w')) =
              map (\<lambda>s. click_count s + int (count_list us (row_id s))) (short_urls (w_db w))
     else w_db w' = w_db w)"
proof -
  have pop: "fst (flush_pop E cfg now w) = Inr (take n es)"
    and rest: "redis_server.events_queued look (w_redis (snd (flush_pop E cfg now w))) now (drop n es)"
    unfolding n_def using services.pop_queue [OF assms(1,3,2)] by auto
  have db: "w_db (snd (flush_pop E cfg now w)) = w_db w" by (rule services.pop_db [OF assms(1)])
  show ?thesis
  proof (cases "take n es = []")
    case True
    then have "res = Inr ()" "w' = snd (flush_pop E cfg now w)" "us = []"
      using assms(4) flush_unfold [OF pop, of ids] by (auto simp: us_def Let_def)
    then show ?thesis using rest db by auto
  next
    case False
    show ?thesis
    proof (cases "persist_batch ids now (take n es) (w_db w)")
      case (Inl e)
      then have "res = Inl e" "w' = snd (flush_pop E cfg now w)"
        using assms(4) flush_unfold [OF pop, of ids] False db by (auto simp: Let_def)
      then show ?thesis using rest db by simp
    next
      case (Inr db')
      then have w': "res = Inr ()" "w' = (snd (flush_pop E cfg now w))\<lparr>w_db := db'\<rparr>"
        using assms(4) flush_unfold [OF pop, of ids] False db by (auto simp: Let_def)
      obtain rows where "map short_url_id rows = us"
        "db' = w_db w\<lparr>click_events := click_events (w_db w) @ rows,
           short_urls := map (bumped now (counter us)) (short_urls (w_db w))\<rparr>"
        using persist_batch_effect [OF Inr] unfolding us_def by metis
      then show ?thesis
        using rest w' by (intro conjI) (auto simp: amount_counter)
    qed
  qed
qed

text \<open>
  C13. A flush is all or nothing for the database, and at most once for the queue: exactly the first batch
  leaves the queue, and either every event that could be parsed becomes a row, in order, and every link's
  counter grows by its number of events, or nothing is stored at all.
\<close>

theorem flush_atomic:
  assumes "services E look cfg" "0 < ANALYTICS_BATCH_SIZE cfg"
    and "redis_server.events_queued look (w_redis w) now es"
    and "flush E cfg now ids w = (res, w')"
  defines "n \<equiv> nat (ANALYTICS_BATCH_SIZE cfg)"
  defines "us \<equiv> map pc_url_id (List.map_filter parse_event (take n es))"
  shows "redis_server.events_queued look (w_redis w') now (drop n es) \<and>
    (if res = Inr ()
     then \<exists>rows. map short_url_id rows = us \<and> click_events (w_db w') = click_events (w_db w) @ rows \<and>
            map row_id (short_urls (w_db w')) = map row_id (short_urls (w_db w)) \<and>
            map click_count (short_urls (w_db w')) =
              map (\<lambda>s. click_count s + int (count_list us (row_id s))) (short_urls (w_db w))
     else w_db w' = w_db w)"
  unfolding n_def us_def by (rule flush_effect [OF assms(1-4)])

definition ghost_click :: json where
  "ghost_click = clicked_event sample_env 5 99 None None None"

definition ghost_world :: "keyspace world" where
  "ghost_world = sample_world\<lparr>w_redis := push_event sample_env 5 ghost_click (\<lambda>_. None)\<rparr>"

lemma ghost_queued: "sample.events_queued (w_redis ghost_world) 5 [ghost_click]"
proof -
  have "sample.events_queued (\<lambda>_. None) 5 []" by (simp add: sample.events_queued_def wrap_list_def)
  from sample.queue.queued_push [OF this, of ghost_click] show ?thesis
    by (simp add: ghost_world_def ghost_click_def clicked_event_def)
qed

lemma default_batch: "0 < ANALYTICS_BATCH_SIZE default_settings" "take (nat (ANALYTICS_BATCH_SIZE default_settings)) [x] = [x]"
  "drop (nat (ANALYTICS_BATCH_SIZE default_settings)) [x] = []"
  by (simp_all add: default_settings_def)

theorem flush_atomic_witness:
  "sample.events_queued (w_redis (snd (flush sample_env default_settings 5 [3] ghost_world))) 5 []"
  using flush_atomic [OF sample.services_axioms default_batch(1) ghost_queued, of "[3]"
      "fst (flush sample_env default_settings 5 [3] ghost_world)" "snd (flush sample_env default_settings 5 [3] ghost_world)"]
  by (simp add: default_batch)

lemma persist_unknown_link:
  assumes "p \<in> set (List.map_filter parse_event events)" "pc_url_id p \<notin> row_id ` set (short_urls db)"
  shows "\<exists>e. persist_batch ids now events db = Inl e"
proof (cases "persist_batch ids now events db")
  case (Inr db')
  then obtain rows where rows: "map short_url_id rows = map pc_url_id (List.map_filter parse_event events)"
    "bulk_insert rows db = Inr (db\<lparr>click_events := click_events db @ rows\<rparr>)"
    using persist_batch_effect by metis
  have "pc_url_id p \<in> set (map pc_url_id (List.map_filter parse_event events))"
    using assms(1) by (rule image_eqI [THEN set_map [THEN equalityD2, THEN subsetD], OF refl])
  then have "pc_url_id p \<in> set (map short_url_id rows)" by (simp only: rows(1))
  then show ?thesis using bulk_insert_urls [OF rows(2)] assms(2) by auto
qed blast

text \<open>
  One bad event loses its batch: when a batch holds an event of a link that has meanwhile been deleted,
  the flush fails on the foreign key, stores nothing, and all events of the batch are gone from the queue.
\<close>

lemma deleted_link_loses_batch:
  assumes "services E look cfg" "0 < ANALYTICS_BATCH_SIZE cfg"
    and "redis_server.events_queued look (w_redis w) now es"
    and "p \<in> set (List.map_filter parse_event (take (nat (ANALYTICS_BATCH_SIZE cfg)) es))"
    and "pc_url_id p \<notin> row_id ` set (short_urls (w_db w))"
  shows "\<exists>e. fst (flush E cfg now ids w) = Inl e \<and> w_db (run_iteration E cfg now ids w) = w_db w \<and>
    redis_server.events_queued look (w_redis (run_iteration E cfg now ids w)) now
      (drop (nat (ANALYTICS_BATCH_SIZE cfg)) es)"
proof -
  let ?batch = "take (nat (ANALYTICS_BATCH_SIZE cfg)) es"
  obtain e where e: "persist_batch ids now ?batch (w_db w) = Inl e"
    using persist_unknown_link [OF assms(4,5)] by blast
  have "?batch \<noteq> []" using assms(4) by (auto simp: map_filter_simps)
  with e have "flush E cfg now ids w = (Inl e, snd (flush_pop E cfg now w))"
    using flush_unfold [OF services.pop_queue(1) [OF assms(1,3,2)], of ids] services.pop_db [OF assms(1)]
    by (simp add: Let_def)
  then show ?thesis
    using services.pop_queue(2) [OF assms(1,3,2)] services.pop_db [OF assms(1)]
    by (auto simp: run_iteration_def)
qed

lemma ghost_parsed: "\<exists>p. parse_event ghost_click = Some p \<and> pc_url_id p = 99"
  using parse_clicked_event [of 5 sample_env 99 None None None] by (auto simp: ghost_click_def max_instant_def usec_def)

text \<open>
  C34. The queue empties: if nothing is pushed, as many worker iterations as there are batches leave it empty,
  whether or not the individual flushes succeed.
\<close>

theorem queue_drains:
  assumes "services E look cfg" "0 < ANALYTICS_BATCH_SIZE cfg"
    and "redis_server.events_queued look (w_redis w) now es"
    and "length es \<le> length idss * nat (ANALYTICS_BATCH_SIZE cfg)"
  shows "redis_server.events_queued look (w_redis (fold (run_iteration E cfg now) idss w)) now []"
  using assms(3,4)
proof (induction idss arbitrary: w es)
  case Nil
  then show ?case by simp
next
  case (Cons ids idss)
  let ?n = "nat (ANALYTICS_BATCH_SIZE cfg)"
  have "redis_server.events_queued look (w_redis (run_iteration E cfg now ids w)) now (drop ?n es)"
    using flush_effect [OF assms(1,2) Cons.prems(1) prod.collapse [symmetric], of ids] by (simp add: run_iteration_def)
  from Cons.IH [OF this] Cons.prems(2) show ?case by simp
qed

theorem queue_drains_witness:
  "sample.events_queued (w_redis (fold (run_iteration sample_env default_settings 5) [[3]] ghost_world)) 5 []"
  by (rule queue_drains [OF sample.services_axioms default_batch(1) ghost_queued]) (simp add: default_settings_def)

text \<open>
  Stopping the worker while a flush is between its pop and its commit loses that batch: the final flush
  only takes the batch after it.
\<close>

lemma cancelled_flush_loses_batch:
  assumes "services E look cfg" "0 < ANALYTICS_BATCH_SIZE cfg"
    and "redis_server.events_queued look (w_redis w) now es"
    and "stop_worker E cfg now ids True Running w = (Inr (), s, w')"
  defines "n \<equiv> nat (ANALYTICS_BATCH_SIZE cfg)"
  shows "s = Stopped \<and> redis_server.events_queued look (w_redis w') now (drop (n + n) es) \<and>
    (\<exists>rows. click_events (w_db w') = click_events (w_db w) @ rows \<and>
       map short_url_id rows = map pc_url_id (List.map_filter parse_event (take n (drop n es))))"
proof -
  let ?w1 = "snd (flush_pop E cfg now w)"
  have f: "flush E cfg now ids ?w1 = (Inr (), w')" "s = Stopped"
    using assms(4) by (auto simp: stop_worker_def Let_def split: prod.splits sum.splits)
  have "redis_server.events_queued look (w_redis ?w1) now (drop n es)"
    unfolding n_def by (rule services.pop_queue(2) [OF assms(1,3,2)])
  from flush_effect [OF assms(1,2) this f(1)] show ?thesis
    using f(2) services.pop_db [OF assms(1)] by (auto simp: n_def [symmetric] add.commute)
qed

lemma click_stored:
  assumes "services E look cfg" "world_ok E now w" "0 < ANALYTICS_BATCH_SIZE cfg"
    and "c \<notin> set reserved_paths" "links (w_db w) c = Some s" "live now s" "0 \<le> now" "now < max_instant"
    and "redis_server.events_queued look (w_redis w) now []"
    and "redirect E cfg now req c w = (res, w1)" "now \<le> t" "flush E cfg t (i # ids) w1 = (res2, w2)"
    and "row = stored_click E i now t (row_id s) (redirect_ip req) (h_user_agent req) (h_referer req)"
    and "click_columns row" "i \<notin> row_id ` set (click_events (w_db w))"
  shows "res = Inr (original_url s) \<and> res2 = Inr () \<and> click_events (w_db w2) = click_events (w_db w) @ [row] \<and>
    links (w_db w2) c = Some (s\<lparr>click_count := click_count s + 1, updated_at := t\<rparr>) \<and>
    redis_server.events_queued look (w_redis w2) t []"
proof -
  let ?e = "clicked_event E now (row_id s) (redirect_ip req) (h_user_agent req) (h_referer req)"
  from redirect_queues [OF assms(1,2,4,5,6,9,10)]
  have r: "res = Inr (original_url s)" "w_db w1 = w_db w" "redis_server.events_queued look (w_redis w1) now [?e]"
    by auto
  have srv: "redis_server E look" using assms(1) by (simp add: services_def shortener_redis_def)
  have q: "redis_server.events_queued look (w_redis w1) t [?e]"
    using r(3) assms(11) by (simp add: redis_server.events_queued_def [OF srv])
  have n: "take (nat (ANALYTICS_BATCH_SIZE cfg)) [?e] = [?e]" "drop (nat (ANALYTICS_BATCH_SIZE cfg)) [?e] = []"
    using assms(3) by (cases "nat (ANALYTICS_BATCH_SIZE cfg)"; simp)+
  obtain p where p: "parse_event ?e = Some p" "pc_url_id p = row_id s" "new_click i t p = Inr row"
    using parse_clicked_event [OF assms(7,8)] assms(13) by metis
  have s: "s \<in> set (short_urls (w_db w))" "short_code s = c" using links_Some [OF assms(5)] by auto
  have rf: "short_url_id row = row_id s" "row_id row = i" by (simp_all add: assms(13) stored_click_def Let_def)
  have ins: "insert_click row (w_db w) = Inr (w_db w\<lparr>click_events := click_events (w_db w) @ [row]\<rparr>)"
    using assms(14,15) s(1) rf by (simp add: insert_click_def)
  have c1: "counter [row_id s] = [(row_id s, 1)]" by (simp add: counter_def)
  have pb: "persist_batch (i # ids) t [?e] (w_db w) =
      Inr (w_db w\<lparr>click_events := click_events (w_db w) @ [row], short_urls := map (bumped t [(row_id s, 1)]) (short_urls (w_db w))\<rparr>)"
    using bump_all_rows [of "[(row_id s, 1)]" t "w_db w\<lparr>click_events := click_events (w_db w) @ [row]\<rparr>"]
    by (simp add: persist_batch_def map_filter_simps p ins c1)
  note pop = services.pop_queue [OF assms(1) q assms(3)]
  have fl: "(res2, w2) = (Inr (), (snd (flush_pop E cfg t w1))\<lparr>w_db := w_db w\<lparr>click_events := click_events (w_db w) @ [row],
      short_urls := map (bumped t [(row_id s, 1)]) (short_urls (w_db w))\<rparr>\<rparr>)"
    using assms(12) flush_unfold [OF pop(1), of "i # ids"] pb services.pop_db [OF assms(1)] r(2) n
    by (simp add: Let_def)
  have "links (w_db w2) c = map_option (bumped t [(row_id s, 1)]) (links (w_db w) c)"
    using fl by (simp add: links_def find_map_key)
  also have "\<dots> = Some (s\<lparr>click_count := click_count s + 1, updated_at := t\<rparr>)"
    using assms(5) by (simp add: bumped_def)
  finally show ?thesis
    using r(1) fl pop(2) n by simp
qed

text \<open>
  C26. From request to row: a click on a live link with an otherwise empty queue is stored by the next flush as
  one row with the request's data, the visitor's address only as a digest, and raises the link's counter by one.
\<close>

theorem click_is_recorded:
  assumes "services E look cfg" "world_ok E now w" "0 < ANALYTICS_BATCH_SIZE cfg"
    and "c \<notin> set reserved_paths" "links (w_db w) c = Some s" "live now s" "0 \<le> now" "now < max_instant"
    and "redis_server.events_queued look (w_redis w) now []"
    and "redirect E cfg now req c w = (res, w1)" "now \<le> t" "flush E cfg t (i # ids) w1 = (res2, w2)"
    and "row = stored_click E i now t (row_id s) (redirect_ip req) (h_user_agent req) (h_referer req)"
    and "click_columns row" "i \<notin> row_id ` set (click_events (w_db w))"
  shows "res = Inr (original_url s) \<and> res2 = Inr () \<and> click_events (w_db w2) = click_events (w_db w) @ [row] \<and>
    links (w_db w2) c = Some (s\<lparr>click_count := click_count s + 1, updated_at := t\<rparr>) \<and>
    redis_server.events_queued look (w_redis w2) t []"
  using assms by (rule click_stored)

theorem click_is_recorded_witness:
  "click_events (w_db (snd (flush sample_env default_settings 6 [3]
     (snd (redirect sample_env default_settings 5 sample_request ''my-link'' sample_world))))) =
   [stored_click sample_env 3 5 6 1 (Some ''203.0.113.9'') (Some ''UA'') None]"
proof -
  let ?r = "redirect sample_env default_settings 5 sample_request ''my-link'' sample_world"
  let ?f = "flush sample_env default_settings 6 [3] (snd ?r)"
  have "sample.events_queued (w_redis sample_world) 5 []"
    by (simp add: sample.events_queued_def sample_world_def wrap_list_def)
  note main = click_is_recorded [OF sample.services_axioms sample_world_ok default_batch(1) sample_not_reserved
      sample_lookup sample_live _ _ this, of sample_request "fst ?r" "snd ?r" 6 3 "[]" "fst ?f" "snd ?f"]
  have ip: "redirect_ip sample_request = Some ''203.0.113.9''" "h_user_agent sample_request = Some ''UA''" "h_referer sample_request = None"
    by (simp_all add: sample_request_def redirect_ip_def first_forwarded_def py_strip_def Let_def)
  have i: "row_id sample_link = 1" "click_events (w_db sample_world) = []"
    by (simp_all add: sample_link_def new_short_url_def sample_world_def sample_db_def empty_database_def)
  have "click_columns (stored_click sample_env 3 5 6 1 (Some ''203.0.113.9'') (Some ''UA'') None)"
    by (simp add: click_columns_def stored_click_def Let_def sample_env_simps sample_digest_def parse_user_agent_def
        sample_env_def redis_ops.defs)
  with main show ?thesis by (simp add: ip i max_instant_def usec_def)
qed


end
