(* ===== verification/Py_Float.thy ===== *)
theory Py_Float
  imports Complex_Main
begin

text \<open>
  Python's floating-point arithmetic, as far as \<open>round(n / total * 100, 1)\<close> needs it: a double is the rational
  number it denotes, every operation is the exact one followed by rounding to 53 significant bits, ties to even,
  and \<open>round(x, 1)\<close> rounds the exact value of the double to tenths, ties to even.  The operands are counts, so
  no value is negative, overflows or is subnormal.
\<close>

section \<open>Rounding\<close>

definition round_half_even :: "rat \<Rightarrow> int" where
  "round_half_even x =
     (let f = \<lfloor>x\<rfloor>; r = x - of_int f
      in if r < 1 / 2 then f else if 1 / 2 < r then f + 1 else if even f then f else f + 1)"

lemma round_half_even_error: "\<bar>of_int (round_half_even x) - x\<bar> \<le> 1 / 2"
proof -
  have "of_int \<lfloor>x\<rfloor> \<le> x" "x < of_int \<lfloor>x\<rfloor> + 1" by linarith+
  then show ?thesis by (auto simp: round_half_even_def Let_def abs_le_iff)
qed

lemma round_half_even_le: "x \<le> of_int c \<Longrightarrow> round_half_even x \<le> c"
  using round_half_even_error [of x] by linarith

lemma round_half_even_ge: "of_int c \<le> x \<Longrightarrow> c \<le> round_half_even x"
  using round_half_even_error [of x] by linarith

section \<open>Doubles\<close>

text \<open>The number of binary digits, and the exponent of the leading bit of a positive number.\<close>

function bit_length :: "int \<Rightarrow> int" where
  "bit_length n = (if n \<le> 0 then 0 else 1 + bit_length (n div 2))"
  by auto
termination
  by (relation "measure nat") auto

declare bit_length.simps [simp del]

definition leading_exp :: "rat \<Rightarrow> int" where
  "leading_exp x =
     (let (p, q) = quotient_of x; k = bit_length p - bit_length q
      in if x < 2 powi k then k - 1 else k)"

lemma bit_length_bounds:
  "0 < n \<Longrightarrow> 0 < bit_length n \<and> 2 ^ nat (bit_length n - 1) \<le> n \<and> n < 2 ^ nat (bit_length n)"
proof (induction n rule: bit_length.induct)
  case (1 n)
  show ?case
  proof (cases "n = 1")
    case True
    then show ?thesis by (simp add: bit_length.simps)
  next
    case False
    then have "0 < n div 2" using 1(2) by simp
    with 1 have ih: "0 < bit_length (n div 2)" "2 ^ nat (bit_length (n div 2) - 1) \<le> n div 2"
      "n div 2 < 2 ^ nat (bit_length (n div 2))" by auto
    have "(2::int) ^ nat (bit_length (n div 2)) = 2 * 2 ^ nat (bit_length (n div 2) - 1)"
      using ih(1) by (simp add: nat_diff_distrib flip: power_Suc)
    moreover have "2 * (n div 2) \<le> n" "n < 2 * (n div 2) + 2" by linarith+
    moreover have "bit_length n = 1 + bit_length (n div 2)" using 1(2) by (simp add: bit_length.simps [of n])
    ultimately show ?thesis using ih by (simp add: nat_add_distrib)
  qed
qed

lemma leading_exp:
  assumes "0 < x"
  shows "2 powi leading_exp x \<le> x" "x < 2 * 2 powi leading_exp x"
proof -
  obtain p q where pq: "quotient_of x = (p, q)" by (cases "quotient_of x")
  then have q: "0 < q" and x: "x = of_int p / of_int q"
    by (rule quotient_of_denom_pos, rule quotient_of_div)
  have p: "0 < p" using assms q by (simp add: x zero_less_divide_iff)
  have bounds: "2 powi (bit_length n - 1) \<le> (of_int n :: rat) \<and> (of_int n :: rat) < 2 powi bit_length n"
    if "0 < n" for n :: int
  proof -
    note n = bit_length_bounds [OF that]
    then have "(of_int (2 ^ nat (bit_length n - 1)) :: rat) \<le> of_int n" "(of_int n :: rat) < of_int (2 ^ nat (bit_length n))"
      by (simp_all only: of_int_le_iff of_int_less_iff)
    then show ?thesis using n by (simp add: power_int_def)
  qed
  note a = bounds [OF p] and b = bounds [OF q]
  define k where "k = bit_length p - bit_length q"
  have "2 powi (k - 1) * of_int q \<le> (2 powi (k - 1) * 2 powi bit_length q :: rat)"
    using b by (intro mult_left_mono) auto
  also have "\<dots> = 2 powi (bit_length p - 1)" by (simp add: k_def del: power_int_of_nat flip: power_int_add)
  also note a [THEN conjunct1]
  finally have lo: "2 powi (k - 1) \<le> x" using q by (simp add: x pos_le_divide_eq)
  note a [THEN conjunct2]
  also have "(2 powi bit_length p :: rat) = 2 powi (k + 1) * 2 powi (bit_length q - 1)" by (simp add: k_def flip: power_int_add)
  also have "\<dots> \<le> 2 powi (k + 1) * of_int q" using b by (intro mult_left_mono) auto
  finally have hi: "x < 2 powi (k + 1)" using q by (simp add: x pos_divide_less_eq)
  have two: "(2::rat) * 2 powi e = 2 powi (e + 1)" for e by (simp add: power_int_add)
  have "leading_exp x = (if x < 2 powi k then k - 1 else k)"
    by (simp add: leading_exp_def pq k_def)
  then show "2 powi leading_exp x \<le> x" "x < 2 * 2 powi leading_exp x"
    using lo hi by (auto simp: two)
qed

text \<open>The nearest double.\<close>

definition to_double :: "rat \<Rightarrow> rat" where
  "to_double x =
     (if x \<le> 0 then 0
      else (let ulp = 2 powi (leading_exp x - 52) in of_int (round_half_even (x / ulp)) * ulp))"

lemma to_double_error:
  assumes "0 \<le> x"
  shows "\<bar>to_double x - x\<bar> \<le> x / 2 ^ 53"
proof (cases "x = 0")
  case False
  with assms have x: "0 < x" by simp
  define ulp :: rat where "ulp = 2 powi (leading_exp x - 52)"
  have ulp: "0 < ulp" by (simp add: ulp_def)
  have "to_double x - x = (of_int (round_half_even (x / ulp)) - x / ulp) * ulp"
    using x ulp by (simp add: to_double_def ulp_def [symmetric] Let_def left_diff_distrib)
  then have "\<bar>to_double x - x\<bar> \<le> 1 / 2 * ulp"
    using round_half_even_error [of "x / ulp"] ulp by (simp add: abs_mult mult_right_mono)
  also have "ulp = 2 powi leading_exp x / 2 ^ 52" by (simp add: ulp_def power_int_diff)
  also have "1 / 2 * (2 powi leading_exp x / 2 ^ 52) \<le> x / 2 ^ 53"
    using leading_exp(1) [OF x] by simp
  finally show ?thesis .
qed (simp add: to_double_def)

lemma to_double_nonneg: "0 \<le> to_double x"
proof (cases "x \<le> 0")
  case False
  then have "0 \<le> round_half_even (x / 2 powi (leading_exp x - 52))" by (intro round_half_even_ge) simp
  then show ?thesis by (simp add: to_double_def Let_def)
qed (simp add: to_double_def)

text \<open>Integers below \<open>2 ^ 52\<close> are doubles, so rounding does not step over them.\<close>

lemma to_double_le:
  assumes "x \<le> of_int c" "0 \<le> c" "c \<le> 2 ^ 52"
  shows "to_double x \<le> of_int c"
proof (cases "x \<le> 0")
  case False
  define e where "e = leading_exp x - 52"
  have "(2::rat) powi leading_exp x \<le> x" using leading_exp(1) [of x] False by simp
  also have "\<dots> \<le> of_int (2 ^ 52)" using assms(1,3) by (meson of_int_le_iff order_trans)
  also have "\<dots> = 2 powi 52" by simp
  finally have "leading_exp x \<le> 52" using power_int_strict_increasing [of 52 "leading_exp x" "2::rat"] by linarith
  then have ulp: "(2::rat) powi e = 1 / of_int (2 ^ nat (- e))"
    by (simp add: e_def power_int_def inverse_eq_divide power_one_over)
  have "x / 2 powi e \<le> of_int (c * 2 ^ nat (- e))"
    using assms(1) by (simp add: ulp mult_right_mono)
  from round_half_even_le [OF this]
  have "(of_int (round_half_even (x / 2 powi e)) :: rat) \<le> of_int (c * 2 ^ nat (- e))"
    by (simp only: of_int_le_iff)
  then show ?thesis using False by (simp add: to_double_def Let_def e_def [symmetric] ulp pos_divide_le_eq)
qed (use assms(2) in \<open>simp add: to_double_def\<close>)

section \<open>Percentages\<close>

text \<open>\<open>round(n / total * 100, 1) if total else 0\<close>, in tenths.\<close>

definition rounded_percentage :: "int \<Rightarrow> int \<Rightarrow> int" where
  "rounded_percentage n whole =
     (if whole = 0 then 0
      else round_half_even (10 * to_double (to_double (of_int n / of_int whole) * 100)))"

lemma rounded_percentage_range:
  assumes "0 \<le> n" "n \<le> whole"
  shows "0 \<le> rounded_percentage n whole" "rounded_percentage n whole \<le> 1000"
proof -
  let ?q = "to_double (of_int n / of_int whole)"
  have "?q \<le> 1" if "0 < whole"
    using to_double_le [of "of_int n / of_int whole" 1] assms that by (simp add: pos_divide_le_eq)
  then have "to_double (?q * 100) \<le> 100" if "0 < whole"
    using to_double_le [of "?q * 100" 100] that by simp
  then show "rounded_percentage n whole \<le> 1000"
    using assms by (auto simp: rounded_percentage_def intro!: round_half_even_le)
  show "0 \<le> rounded_percentage n whole"
    using to_double_nonneg [of "?q * 100"] by (auto simp: rounded_percentage_def intro!: round_half_even_ge)
qed

lemma rounded_percentage_error:
  assumes "0 \<le> n" "n \<le> whole" "0 < whole"
  shows "\<bar>of_int (rounded_percentage n whole) - 1000 * (of_int n / of_int whole :: rat)\<bar> < 501 / 1000"
proof -
  define x :: rat where "x = of_int n / of_int whole"
  have x: "0 \<le> x" "x \<le> 1" using assms by (simp_all add: x_def)
  define y where "y = to_double x"
  have y: "\<bar>y - x\<bar> \<le> 1 / 2 ^ 53" using to_double_error [OF x(1)] x(2) unfolding y_def by (elim order_trans) (simp add: divide_right_mono)
  have y1: "0 \<le> y" "y \<le> 1" using to_double_nonneg to_double_le [of x 1] x(2) by (simp_all add: y_def)
  define z where "z = to_double (y * 100)"
  have "y * 100 / 2 ^ 53 \<le> 100 / 2 ^ 53" using y1 by simp
  then have z: "\<bar>z - y * 100\<bar> \<le> 100 / 2 ^ 53"
    using to_double_error [of "y * 100"] y1 unfolding z_def by linarith
  have "rounded_percentage n whole = round_half_even (10 * z)"
    using assms(3) by (simp add: rounded_percentage_def z_def y_def x_def)
  moreover have "\<bar>10 * z - 1000 * x\<bar> \<le> 2000 / 2 ^ 53" using y z by linarith
  moreover have "(2000 / 2 ^ 53 :: rat) < 1 / 1000" by simp
  ultimately show ?thesis using round_half_even_error [of "10 * z"] unfolding x_def by linarith
qed

end
