(* ===== verification/Analytics_Service.thy ===== *)
theory Analytics_Service
  imports Processor Py_Float
begin

text \<open>
  \<open>app/services/analytics.py\<close>: the summary of a link's clicks, computed from the database and cached under the
  short code.  Its JSON form is pydantic's: \<open>model_dump(mode="json")\<close> is the argument \<open>summary_dump\<close> and
  \<open>AnalyticsSummary(**cached)\<close>, which raises when validation fails, is \<open>summary_load\<close>; locale \<open>services\<close> has their laws.
\<close>

section \<open>The summary\<close>

definition to_breakdown :: "(pystr \<times> int) list \<Rightarrow> int \<Rightarrow> dimension_breakdown list" where
  "to_breakdown rows n =
     map (\<lambda>(l, k). \<lparr>label = l, d_count = k, percentage = rounded_percentage k n\<rparr>) rows"

definition compute_summary :: "instant \<Rightarrow> pystr \<Rightarrow> int \<Rightarrow> short_url \<Rightarrow> database \<Rightarrow> analytics_summary" where
  "compute_summary now c days url db =
     (let since = now - timedelta_days days;
          dim = (\<lambda>col. to_breakdown (get_dimension_counts (row_id url) col (Some since) 10 db) (click_count url))
      in \<lparr>s_short_code = c, s_total_clicks = click_count url,
          s_unique_visitors = count_unique_visitors (row_id url) (Some since) db,
          top_countries = dim country, top_browsers = dim browser, top_os = dim os, top_devices = dim device,
          top_referrers = dim referrer,
          daily_stats = map (\<lambda>(d, n, u). \<lparr>d_date = d, clicks = n, d_unique_visitors = u\<rparr>)
            (get_daily_stats now (row_id url) days db),
          period_days = days\<rparr>)"

definition get_summary ::
  "('r, 'x) ext_scheme \<Rightarrow> settings \<Rightarrow> instant \<Rightarrow> pystr \<Rightarrow> int \<Rightarrow> ('r, analytics_summary) handler" where
  "get_summary E cfg now c days w =
     (case get_cached_summary E now c (w_redis w) of
        Inl e \<Rightarrow> (Inl e, w)
      | Inr hit \<Rightarrow>
          (case (case hit of Some v \<Rightarrow> if json_truthy v then Some v else None | None \<Rightarrow> None) of
             Some (JObj kvs) \<Rightarrow>
               (case summary_load E (JObj kvs) of None \<Rightarrow> (Inl PyValueError, w) | Some s \<Rightarrow> (Inr s, w))
           | Some _ \<Rightarrow> (Inl PyTypeError, w)
           | None \<Rightarrow>
               (case get_by_short_code c (w_db w) of
                  Inl e \<Rightarrow> (Inl e, w)
                | Inr None \<Rightarrow> (Inl (App (NotFoundError ''Short URL'')), w)
                | Inr (Some url) \<Rightarrow>
                    (let summary = compute_summary now c days url (w_db w)
                     in (Inr summary,
                         w\<lparr>w_redis := set_cached_summary E cfg now c (summary_dump E summary) (w_redis w)\<rparr>)))))"

section \<open>What the figures mean\<close>

lemma sum_indicator:
  "distinct ks \<Longrightarrow> sum_list (map (\<lambda>k. if x = k then 1 else 0 :: int) ks) = (if x \<in> set ks then 1 else 0)"
  by (induction ks) auto

lemma sum_by_key:
  "distinct ks \<Longrightarrow> f ` set es \<subseteq> set ks \<Longrightarrow>
   sum_list (map (\<lambda>k. int (length (filter (\<lambda>e. f e = k) es))) ks) = int (length es)"
proof (induction es)
  case (Cons e es)
  have one: "sum_list (map (\<lambda>k. if f e = k then 1 else 0 :: int) ks) = 1"
    using Cons.prems sum_indicator [of ks "f e"] by simp
  have "(\<lambda>k. int (length (filter (\<lambda>x. f x = k) (e # es)))) =
      (\<lambda>k. (if f e = k then 1 else 0) + int (length (filter (\<lambda>x. f x = k) es)))" by auto
  then show ?case using Cons one by (simp add: sum_list_addf)
qed simp

lemma daily_total: "sum_list (map (\<lambda>(d, n, u). n) (get_daily_stats now i days db)) =
    int (length (clicks_since i (Some (now - timedelta_days days)) db))"
  by (simp add: get_daily_stats_def Let_def comp_def case_prod_beta sum_by_key)

lemma clicks_since_le: "int (length (clicks_since i since db)) \<le> click_total i db"
proof -
  have "clicks_since i since db =
      filter (\<lambda>e. case since of None \<Rightarrow> True | Some t \<Rightarrow> t \<le> created_at e) (filter (\<lambda>e. short_url_id e = i) (click_events db))"
    by (simp add: clicks_since_def conj_commute)
  then show ?thesis unfolding click_total_def by (metis length_filter_le of_nat_mono)
qed

lemma group_count_le: "(k, n) \<in> set (group_counts vs) \<Longrightarrow> 0 < n \<and> n \<le> int (length vs)"
  by (auto simp: group_counts_def Let_def filter_empty_conv)

lemma dimension_count_le:
  assumes "(k, n) \<in> set (get_dimension_counts i col since limit db)"
  shows "0 < n" "n \<le> click_total i db"
proof -
  have "(k, n) \<in> set (group_counts (map col (clicks_since i since db)))"
    using assms by (auto simp: get_dimension_counts_def dest: in_set_takeD)
  from group_count_le [OF this] clicks_since_le [of i since db]
  show "0 < n" "n \<le> click_total i db" by auto
qed

definition in_bounds :: "int \<Rightarrow> dimension_breakdown \<Rightarrow> bool" where
  "in_bounds n b \<longleftrightarrow> 0 < d_count b \<and> d_count b \<le> n \<and> 0 \<le> percentage b \<and> percentage b \<le> 1000 \<and>
     \<bar>of_int (percentage b) - 1000 * (of_int (d_count b) / of_int n :: rat)\<bar> < 501 / 1000"

lemma to_breakdown_bounds:
  assumes "click_count url = click_total (row_id url) db"
  shows "list_all (in_bounds (click_count url))
    (to_breakdown (get_dimension_counts (row_id url) col since limit db) (click_count url))"
proof -
  have "in_bounds (click_count url) \<lparr>label = l, d_count = k, percentage = rounded_percentage k (click_count url)\<rparr>"
    if "(l, k) \<in> set (get_dimension_counts (row_id url) col since limit db)" for l k
    using dimension_count_le [OF that] rounded_percentage_range [of k "click_count url"]
      rounded_percentage_error [of k "click_count url"]
    by (simp add: in_bounds_def assms)
  then show ?thesis by (auto simp: to_breakdown_def list_all_iff)
qed

lemma unique_le: "count_unique_visitors i since db \<le> int (length (clicks_since i since db))"
proof -
  have "card (set (map visitor_hash (clicks_since i since db)) - {None}) \<le> card (set (map visitor_hash (clicks_since i since db)))"
    by (intro card_mono) auto
  also have "\<dots> \<le> length (clicks_since i since db)" by (metis card_length length_map)
  finally show ?thesis by (simp add: count_unique_visitors_def)
qed

definition ranked :: "dimension_breakdown list \<Rightarrow> bool" where
  "ranked bs \<longleftrightarrow> length bs \<le> 10 \<and> distinct (map label bs) \<and> sorted_wrt (\<lambda>a b. d_count b \<le> d_count a) bs"

lemma to_breakdown_ranked: "ranked (to_breakdown (get_dimension_counts i col since 10 db) n)"
proof -
  let ?g = "group_counts (map col (clicks_since i since db))"
  let ?l = "sort_key (\<lambda>(_, cnt). - cnt) ?g"
  have "distinct (map fst ?g)" by (simp add: group_counts_def Let_def comp_def)
  then have d: "distinct (map fst ?l)" by (simp add: distinct_map)
  have "sorted_wrt (\<lambda>a b. snd b \<le> snd a) ?l"
    using sorted_sort_key [of "\<lambda>(_, cnt). - cnt" ?g] by (simp add: sorted_map case_prod_beta)
  with d show ?thesis
    by (simp add: ranked_def to_breakdown_def get_dimension_counts_def comp_def case_prod_beta sorted_wrt_map
        sorted_wrt_take distinct_take flip: take_map)
qed

lemma compute_summary_dates:
  assumes "list_all (\<lambda>e. 0 \<le> created_at e \<and> created_at e < max_instant) (click_events db)"
  shows "summary_dates (compute_summary now c days url db)"
  using assms
  by (auto simp: summary_dates_def compute_summary_def Let_def get_daily_stats_def list_all_iff clicks_since_def
      date_range_def day_of_def max_instant_def usec_def)

section \<open>What a request sees\<close>

text \<open>The cached summaries are written by the service itself.\<close>

definition cached_summary :: "('r, 'x) ext_scheme \<Rightarrow> pystr \<Rightarrow> json \<Rightarrow> bool" where
  "cached_summary E c v \<longleftrightarrow> (\<exists>s. v = summary_dump E s \<and> summary_dates s \<and> s_short_code s = c)"

definition clicks_dated :: "database \<Rightarrow> bool" where
  "clicks_dated db \<longleftrightarrow> list_all (\<lambda>e. 0 \<le> created_at e \<and> created_at e < max_instant) (click_events db)"

lemma get_summary_fresh:
  assumes "links_ok (w_db w)" "get_cached_summary E now c (w_redis w) = Inr None"
  shows "get_summary E cfg now c days w =
    (case links (w_db w) c of
       None \<Rightarrow> (Inl (App (NotFoundError ''Short URL'')), w)
     | Some url \<Rightarrow> (let s = compute_summary now c days url (w_db w)
                   in (Inr s, w\<lparr>w_redis := set_cached_summary E cfg now c (summary_dump E s) (w_redis w)\<rparr>)))"
  using assms by (simp add: get_summary_def link.by_code_link split: option.split)

context services
begin

lemma get_summary_hit:
  assumes "get_cached_summary E now c (w_redis w) = Inr (Some (summary_dump E s))" "summary_dates s"
  shows "get_summary E cfg now c days w = (Inr s, w)"
proof -
  obtain kvs where kvs: "summary_dump E s = JObj kvs" "kvs \<noteq> []" using summary_dump_object by blast
  then show ?thesis using assms summary_load_dump [OF assms(2)] by (cases kvs) (auto simp: get_summary_def)
qed

lemma summary_reused:
  assumes "links_ok (w_db w)" "clicks_dated (w_db w)" "get_cached_summary E now c (w_redis w) = Inr None"
    and "get_summary E cfg now c days w = (Inr s, w')"
    and "now \<le> t" "t < now + timedelta_seconds (ANALYTICS_CACHE_TTL cfg)"
  shows "get_summary E cfg t c days' (w'\<lparr>w_db := db'\<rparr>) = (Inr s, w'\<lparr>w_db := db'\<rparr>)" "period_days s = days"
proof -
  obtain url where url: "links (w_db w) c = Some url" "s = compute_summary now c days url (w_db w)"
    "w_redis w' = set_cached_summary E cfg now c (summary_dump E s) (w_redis w)"
    using assms(4) get_summary_fresh [OF assms(1,3)] by (auto simp: Let_def split: option.splits)
  have d: "summary_dates s"
    unfolding url(2) by (rule compute_summary_dates) (use assms(2) in \<open>simp add: clicks_dated_def\<close>)
  have "get_cached_summary E t c (w_redis w') = Inr (Some (summary_dump E s))"
    using summaries.get_put_same [of "summary_dump E s" now t c "w_redis w"] assms(5,6) url(3) by (simp add: summary_dump_wf)
  then show "get_summary E cfg t c days' (w'\<lparr>w_db := db'\<rparr>) = (Inr s, w'\<lparr>w_db := db'\<rparr>)"
    by (intro get_summary_hit d) simp
  show "period_days s = days" by (simp add: url(2) compute_summary_def Let_def)
qed

end

section \<open>Properties\<close>

text \<open>
  C31. A freshly computed summary is consistent with the table of clicks: the total is the number of all stored
  clicks of the link, the days add up to the clicks of the period, no figure exceeds the total, and every
  percentage is between 0 and 100 and within 0.0501 of the exact quotient, although it is computed in doubles.
\<close>

theorem summary_figures:
  assumes "links_ok (w_db w)" "counts_agree (w_db w)" "get_cached_summary E now c (w_redis w) = Inr None"
    and "get_summary E cfg now c days w = (Inr s, w')"
  shows "\<exists>url. links (w_db w) c = Some url \<and> s_total_clicks s = click_total (row_id url) (w_db w) \<and>
    sum_list (map clicks (daily_stats s)) =
      int (length (clicks_since (row_id url) (Some (now - timedelta_days days)) (w_db w))) \<and>
    s_unique_visitors s \<le> sum_list (map clicks (daily_stats s)) \<and>
    sum_list (map clicks (daily_stats s)) \<le> s_total_clicks s \<and>
    (\<forall>bs \<in> {top_countries s, top_browsers s, top_os s, top_devices s, top_referrers s}.
       ranked bs \<and> list_all (in_bounds (s_total_clicks s)) bs)"
proof -
  obtain url where url: "links (w_db w) c = Some url" and s: "s = compute_summary now c days url (w_db w)"
    using assms(4) get_summary_fresh [OF assms(1,3)] by (auto simp: Let_def split: option.splits)
  have total: "click_count url = click_total (row_id url) (w_db w)"
    using links_Some [OF url] assms(2) by (simp add: counts_agree_def list_all_iff)
  have daily: "sum_list (map clicks (daily_stats s)) =
      int (length (clicks_since (row_id url) (Some (now - timedelta_days days)) (w_db w)))"
    by (simp add: s compute_summary_def Let_def comp_def case_prod_beta daily_total [unfolded case_prod_beta, symmetric])
  note since = clicks_since_le [of "row_id url" "Some (now - timedelta_days days)" "w_db w"]
    unique_le [of "row_id url" "Some (now - timedelta_days days)" "w_db w"]
  have dims: "\<forall>bs \<in> {top_countries s, top_browsers s, top_os s, top_devices s, top_referrers s}.
      ranked bs \<and> list_all (in_bounds (s_total_clicks s)) bs"
    by (simp add: s compute_summary_def Let_def to_breakdown_ranked to_breakdown_bounds [OF total])
  have "s_total_clicks s = click_total (row_id url) (w_db w)"
    "s_unique_visitors s = count_unique_visitors (row_id url) (Some (now - timedelta_days days)) (w_db w)"
    by (simp_all add: s compute_summary_def Let_def total)
  then show ?thesis using url daily dims since by auto
qed

definition clicked_world :: "keyspace world" where
  "clicked_world = sample_world\<lparr>w_db := sample_db
     \<lparr>short_urls := [sample_link\<lparr>click_count := 1\<rparr>],
      click_events := [stored_click sample_env 3 5 6 1 (Some ''203.0.113.9'') (Some ''UA'') None]\<rparr>\<rparr>"

lemma empty_summaries: "get_cached_summary sample_env t c (\<lambda>_. None) = Inr None"
  by (simp add: get_cached_summary_def sample.get_miss)

lemma clicked_world_facts:
  "links_ok (w_db clicked_world)" "counts_agree (w_db clicked_world)" "clicks_dated (w_db clicked_world)"
  "get_cached_summary sample_env t c (w_redis clicked_world) = Inr None"
  "links (w_db clicked_world) ''my-link'' = Some (sample_link\<lparr>click_count := 1\<rparr>)"
proof -
  have "click_columns (stored_click sample_env 3 5 6 1 (Some ''203.0.113.9'') (Some ''UA'') None)"
    by (simp add: click_columns_def stored_click_def Let_def sample_env_simps sample_digest_def parse_user_agent_def
        sample_env_def redis_ops.defs)
  moreover have "short_url_id (stored_click sample_env 3 5 6 1 (Some ''203.0.113.9'') (Some ''UA'') None) = 1"
    "row_id (stored_click sample_env 3 5 6 1 (Some ''203.0.113.9'') (Some ''UA'') None) = 3"
    "created_at (stored_click sample_env 3 5 6 1 (Some ''203.0.113.9'') (Some ''UA'') None) = 5"
    by (simp_all add: stored_click_def Let_def)
  ultimately show "links_ok (w_db clicked_world)" "counts_agree (w_db clicked_world)" "clicks_dated (w_db clicked_world)"
    "get_cached_summary sample_env t c (w_redis clicked_world) = Inr None"
    "links (w_db clicked_world) ''my-link'' = Some (sample_link\<lparr>click_count := 1\<rparr>)"
    using sample_db_ok
    by (simp_all add: clicked_world_def sample_world_def sample_db_def sample_link_def new_short_url_def links_ok_def
        schema_ok_def short_urls_ok_def clicks_ok_def snapshots_ok_def users_ok_def tokens_ok_def empty_database_def
        counts_agree_def click_total_def clicks_dated_def links_def empty_summaries max_instant_def usec_def
        alias_is_code_def short_url_columns_def unique_col_def)
qed

lemma clicked_total: "click_total (row_id sample_link) (w_db clicked_world) = 1"
  by (simp add: click_total_def clicked_world_def stored_click_def Let_def sample_link_def new_short_url_def sample_db_def)

lemma clicked_summary:
  "get_summary sample_env default_settings 10 ''my-link'' 7 clicked_world =
    (Inr (compute_summary 10 ''my-link'' 7 (sample_link\<lparr>click_count := 1\<rparr>) (w_db clicked_world)),
     snd (get_summary sample_env default_settings 10 ''my-link'' 7 clicked_world))"
  using get_summary_fresh [OF clicked_world_facts(1) clicked_world_facts(4) [of 10 "''my-link''"], of default_settings 7]
  by (simp add: clicked_world_facts(5) Let_def)

theorem summary_figures_witness:
  "s_total_clicks (compute_summary 10 ''my-link'' 7 (sample_link\<lparr>click_count := 1\<rparr>) (w_db clicked_world)) = 1"
  using summary_figures [OF clicked_world_facts(1,2,4) clicked_summary]
  by (auto simp: clicked_world_facts(5) clicked_total)

text \<open>
  The cache key has no period: for the life of the cached entry every request for the short code gets the
  first requester's summary, whatever period it asks for and whatever happens to the database meanwhile,
  the deletion of the link included.
\<close>

lemma summary_cache_ignores_days:
  assumes "services E look cfg" "links_ok (w_db w)" "clicks_dated (w_db w)"
    and "get_cached_summary E now c (w_redis w) = Inr None"
    and "get_summary E cfg now c days w = (Inr s, w')"
    and "now \<le> t" "t < now + timedelta_seconds (ANALYTICS_CACHE_TTL cfg)"
  shows "period_days s = days \<and>
    get_summary E cfg t c days' (w'\<lparr>w_db := db'\<rparr>) = (Inr s, w'\<lparr>w_db := db'\<rparr>)"
  using services.summary_reused [OF assms] by simp

end
