(* ===== verification/Qr.thy ===== *)
theory Qr
  imports Analytics_Service
begin

text \<open>
  \<open>app/services/qr.py\<close>: QR images of links, cached in Redis as base64 text, over the standard library's
  base64 encoder and its decoder (the lenient state machine of \<open>binascii.a2b_base64\<close>).  A byte string is a
  list of characters; drawing the image is the parameter \<open>qr_image\<close>, called by
  \<open>render_png\<close> of theory \<open>World\<close>.
\<close>

section \<open>Base64\<close>

definition b64_alphabet :: pystr where
  "b64_alphabet = ''ABCDEFGHIJKLMNOPQRSTUVWXYZabcdefghijklmnopqrstuvwxyz0123456789+/''"

definition b64_digit :: "nat \<Rightarrow> char" where
  "b64_digit n = b64_alphabet ! n"

fun b64encode :: "pystr \<Rightarrow> pystr" where
  "b64encode [] = []"
| "b64encode [a] = [b64_digit (code a div 4), b64_digit (code a mod 4 * 16), CHR ''='', CHR ''='']"
| "b64encode [a, b] =
     [b64_digit (code a div 4), b64_digit (code a mod 4 * 16 + code b div 16), b64_digit (code b mod 16 * 4), CHR ''='']"
| "b64encode (a # b # c # bs) =
     b64_digit (code a div 4) # b64_digit (code a mod 4 * 16 + code b div 16) #
     b64_digit (code b mod 16 * 4 + code c div 64) # b64_digit (code c mod 64) # b64encode bs"

definition b64_value :: "char \<Rightarrow> nat option" where
  "b64_value c =
     (if 65 \<le> code c \<and> code c \<le> 90 then Some (code c - 65)
      else if 97 \<le> code c \<and> code c \<le> 122 then Some (code c - 71)
      else if 48 \<le> code c \<and> code c \<le> 57 then Some (code c + 4)
      else if code c = 43 then Some 62
      else if code c = 47 then Some 63
      else None)"

text \<open>
  \<open>a2b pos left pads s\<close>: position in the group of four, the bits left over from the last character, and the
  padding characters since.  Characters outside the alphabet are skipped; enough padding ends the text.
\<close>

fun a2b :: "nat \<Rightarrow> nat \<Rightarrow> nat \<Rightarrow> pystr \<Rightarrow> pystr option" where
  "a2b pos left pads [] = (if pos = 0 then Some [] else None)"
| "a2b pos left pads (c # s) =
     (if c = CHR ''='' then
        if 2 \<le> pos then if 4 \<le> pos + (pads + 1) then Some [] else a2b pos left (pads + 1) s
        else a2b pos left pads s
      else
        case b64_value c of
          None \<Rightarrow> a2b pos left pads s
        | Some v \<Rightarrow>
            if pos = 0 then a2b 1 v 0 s
            else if pos = 1 then map_option (Cons (char_of (left * 4 + v div 16))) (a2b 2 (v mod 16) 0 s)
            else if pos = 2 then map_option (Cons (char_of (left * 16 + v div 4))) (a2b 3 (v mod 4) 0 s)
            else map_option (Cons (char_of (left * 64 + v))) (a2b 0 0 0 s))"

definition b64decode :: "pystr \<Rightarrow> pystr option" where
  "b64decode s = a2b 0 0 0 s"

lemma b64_alphabet_codes: "map code b64_alphabet = [65..<91] @ [97..<123] @ [48..<58] @ [43, 47]"
  by (simp add: b64_alphabet_def code_def upt_rec)

lemma code_b64_digit:
  assumes "n < 64"
  shows "code (b64_digit n) =
    (if n < 26 then n + 65 else if n < 52 then n + 71 else if n < 62 then n - 4 else if n = 62 then 43 else 47)"
proof -
  have "length b64_alphabet = 64" using arg_cong [OF b64_alphabet_codes, of length] by (simp del: upt_rec_numeral)
  then have nth: "code (b64_digit n) = ([65..<91] @ [97..<123] @ [48..<58] @ [43, 47]) ! n"
    using assms nth_map [of n b64_alphabet code] by (simp only: b64_alphabet_codes b64_digit_def)
  have "n < 26 \<or> n = 26 + (n - 26) \<and> n - 26 < 26 \<or> n = 52 + (n - 52) \<and> n - 52 < 10 \<or> n = 62 \<or> n = 63"
    using assms by linarith
  then consider "n < 26" | k where "n = 26 + k" "k < 26" | k where "n = 52 + k" "k < 10" | "n = 62" | "n = 63"
    by blast
  then show ?thesis by cases (insert nth, simp_all add: nth_append del: upt_rec_numeral)
qed

lemma b64_digit_value:
  assumes "n < 64"
  shows "b64_value (b64_digit n) = Some n" "b64_digit n \<noteq> CHR ''=''"
proof -
  have "code CHR ''='' = 61" by (simp add: code_def)
  then show "b64_value (b64_digit n) = Some n" "b64_digit n \<noteq> CHR ''=''"
    using assms code_b64_digit [OF assms] by (auto simp: b64_value_def split: if_splits)
qed

lemma a2b_digit:
  assumes "n < 64"
  shows "a2b pos left pads (b64_digit n # s) =
    (if pos = 0 then a2b 1 n 0 s
     else if pos = 1 then map_option (Cons (char_of (left * 4 + n div 16))) (a2b 2 (n mod 16) 0 s)
     else if pos = 2 then map_option (Cons (char_of (left * 16 + n div 4))) (a2b 3 (n mod 4) 0 s)
     else map_option (Cons (char_of (left * 64 + n))) (a2b 0 0 0 s))"
  using b64_digit_value [OF assms] by simp

lemma byte_parts:
  "code c div 4 < 64" "code c mod 4 * 16 < 64" "code c mod 4 * 16 + code c' div 16 < 64"
  "code c mod 16 * 4 < 64" "code c mod 16 * 4 + code c' div 64 < 64" "code c mod 64 < 64"
  using code_less [of c] code_less [of c'] by linarith+

lemma byte_join:
  "code c div 16 div 16 = 0" "code c div 16 mod 16 = code c div 16"
  "code c div 64 div 4 = 0" "code c div 64 mod 4 = code c div 64"
proof -
  have "code c div 16 < 16" "code c div 64 < 4" using code_less [of c] by linarith+
  then show "code c div 16 div 16 = 0" "code c div 16 mod 16 = code c div 16"
    "code c div 64 div 4 = 0" "code c div 64 mod 4 = code c div 64"
    by (simp_all only: div_less mod_less)
qed

lemma b64_roundtrip: "b64decode (b64encode bs) = Some bs"
  unfolding b64decode_def
  by (induction bs rule: b64encode.induct)
    (simp_all add: a2b_digit byte_parts del: a2b.simps(2), simp_all add: byte_join)

lemma b64encode_nonempty [simp]: "b64encode bs = [] \<longleftrightarrow> bs = []"
  by (cases bs rule: b64encode.cases) simp_all

section \<open>The service\<close>

definition qr_key :: "pystr \<Rightarrow> pystr" where
  "qr_key c = ''qr:'' @ c"

definition qr_get :: "('r, 'x) redis_ops_scheme \<Rightarrow> instant \<Rightarrow> pystr \<Rightarrow> 'r \<Rightarrow> pystr option result" where
  "qr_get R now c r =
     (case redis_get R now (qr_key c) r of
        None \<Rightarrow> Inr None
      | Some cached \<Rightarrow>
          if cached = [] then Inr None
          else (case b64decode cached of None \<Rightarrow> Inl PyValueError | Some png \<Rightarrow> Inr (Some png)))"

definition qr_put :: "('r, 'x) redis_ops_scheme \<Rightarrow> settings \<Rightarrow> instant \<Rightarrow> pystr \<Rightarrow> pystr \<Rightarrow> 'r \<Rightarrow> 'r" where
  "qr_put R cfg now c png r = redis_setex R now (qr_key c) (QR_CACHE_TTL cfg) (b64encode png) r"

definition qr_invalidate :: "('r, 'x) redis_ops_scheme \<Rightarrow> pystr \<Rightarrow> 'r \<Rightarrow> 'r" where
  "qr_invalidate R c r = redis_delete R [qr_key c] r"

definition qr_target :: "settings \<Rightarrow> short_url \<Rightarrow> pystr" where
  "qr_target cfg url =
     BASE_URL cfg @ ''/'' @ (case custom_alias url of Some a \<Rightarrow> if a = [] then short_code url else a | None \<Rightarrow> short_code url)"

definition get_or_generate :: "('r, 'x) ext_scheme \<Rightarrow> settings \<Rightarrow> instant \<Rightarrow> pystr \<Rightarrow> ('r, pystr) handler" where
  "get_or_generate E cfg now c w =
     (case qr_get E now c (w_redis w) of
        Inl e \<Rightarrow> (Inl e, w)
      | Inr (Some png) \<Rightarrow> (Inr png, w)
      | Inr None \<Rightarrow>
          (case get_by_short_code c (w_db w) of
             Inl e \<Rightarrow> (Inl e, w)
           | Inr None \<Rightarrow> (Inl (App (NotFoundError ''Short URL'')), w)
           | Inr (Some url) \<Rightarrow>
               (let png = render_png E (qr_target cfg url)
                in (Inr png, w\<lparr>w_redis := qr_put E cfg now c png (w_redis w)\<rparr>))))"

lemma qr_key_space [simp]:
  "qr_key c = qr_key c' \<longleftrightarrow> c = c'" "qr_key c \<noteq> url_key c'" "qr_key c \<noteq> hot_key c'" "qr_key c \<noteq> queue_key"
  "qr_key c \<noteq> summary_key c'" "url_key c' \<noteq> qr_key c" "hot_key c' \<noteq> qr_key c" "queue_key \<noteq> qr_key c"
  "summary_key c' \<noteq> qr_key c"
  by (simp_all add: qr_key_def url_key_def hot_key_def queue_key_def summary_key_def)

sublocale shortener_redis \<subseteq> images:
  ttl_cache "qr_get R" "qr_put R cfg" "qr_invalidate R" "\<lambda>png :: pystr. png \<noteq> []" "timedelta_seconds (QR_CACHE_TTL cfg)"
proof
  have cong: "look r t (qr_key c) = look r' t' (qr_key c') \<Longrightarrow> qr_get R t c r = qr_get R t' c' r'" for r r' t t' c c'
    unfolding qr_get_def by (simp add: get_cong [of r t "qr_key c" r' t' "qr_key c'"])
  have miss: "look r t (qr_key c) = None \<Longrightarrow> qr_get R t c r = Inr None" for r t c
    by (simp add: qr_get_def get_miss)
  {
    fix t t' :: instant and c v :: pystr and r assume a: "v \<noteq> []" "t \<le> t'"
    let ?r = "qr_put R cfg t c v r"
    have "look ?r t' (qr_key c) =
        (if t' < t + timedelta_seconds (QR_CACHE_TTL cfg) then Some (RStr (b64encode v)) else None)"
      using a ttl_positive by (simp add: qr_put_def look_setex)
    then show "qr_get R t' c ?r = Inr (if t' < t + timedelta_seconds (QR_CACHE_TTL cfg) then Some v else None)"
      using miss [of ?r t' c] get_hit [of ?r t' "qr_key c"] a
      by (simp add: qr_get_def b64_roundtrip split: if_splits)
  next
    fix t t' :: instant and c c' v :: pystr and r assume "c' \<noteq> c" "t \<le> t'"
    then show "qr_get R t' c' (qr_put R cfg t c v r) = qr_get R t' c' r"
      using ttl_positive by (intro cong) (simp add: qr_put_def look_setex)
  next
    fix t' :: instant and c' c :: pystr and r
    show "qr_get R t' c' (qr_invalidate R c r) = (if c' = c then Inr None else qr_get R t' c' r)"
      by (simp add: miss qr_invalidate_def look_delete) (intro impI cong, simp add: look_delete)
  next
    fix t t' :: instant and c :: pystr and r assume "t \<le> t'"
    then show "qr_get R t' c r = Inr None \<or> qr_get R t' c r = qr_get R t c r"
      using look_same [of t t' r "qr_key c"] miss cong by metis
  }
qed

context services
begin

lemma image_reused:
  assumes "links_ok (w_db w)" "links (w_db w) c = Some url" "qr_get E now c (w_redis w) = Inr None"
    and "png = render_png E (qr_target cfg url)" "png \<noteq> []" "get_or_generate E cfg now c w = (res, w')" "now \<le> t"
  shows "res = Inr png" "w_db w' = w_db w"
    and "qr_get E t c (w_redis w') = Inr (if t < now + timedelta_seconds (QR_CACHE_TTL cfg) then Some png else None)"
proof -
  have "res = Inr png \<and> w' = w\<lparr>w_redis := qr_put E cfg now c png (w_redis w)\<rparr>"
    using assms(4,6) by (simp add: get_or_generate_def assms(2,3) link.by_code_link [OF assms(1)] Let_def)
  then show "res = Inr png" "w_db w' = w_db w"
    "qr_get E t c (w_redis w') = Inr (if t < now + timedelta_seconds (QR_CACHE_TTL cfg) then Some png else None)"
    using images.get_put_same [OF assms(5,7), of c "w_redis w"] by auto
qed

end

section \<open>Properties\<close>

text \<open>
  C32. The QR endpoint draws the link's public address, the one shown in its response, and caches it; for the
  life of the cached image every request gets the same bytes, whatever happens to the database meanwhile
  (nothing invalidates the image when the link is deleted); after that the lookup misses.
\<close>

theorem qr_served_until_expiry:
  assumes "services E look cfg" "links_ok (w_db w)" "links (w_db w) c = Some url"
    and "qr_get E now c (w_redis w) = Inr None" "png = render_png E (r_short_url (to_response cfg url))" "png \<noteq> []"
    and "get_or_generate E cfg now c w = (res, w')" "now \<le> t"
  shows "res = Inr png \<and>
    (if t < now + timedelta_seconds (QR_CACHE_TTL cfg)
     then get_or_generate E cfg t c (w'\<lparr>w_db := db'\<rparr>) = (Inr png, w'\<lparr>w_db := db'\<rparr>)
     else qr_get E t c (w_redis w') = Inr None)"
proof -
  have "qr_target cfg url = r_short_url (to_response cfg url)" by (simp add: qr_target_def to_response_def)
  then show ?thesis
    using services.image_reused [OF assms(1-4) _ assms(6,7,8)] assms(5) by (simp add: get_or_generate_def)
qed

theorem qr_served_until_expiry_witness:
  "fst (get_or_generate sample_env default_settings 9 ''my-link''
     ((snd (get_or_generate sample_env default_settings 5 ''my-link'' sample_world))\<lparr>w_db := empty_database\<rparr>)) =
   Inr ''http://localhost:8000/my-link''"
proof -
  let ?g = "get_or_generate sample_env default_settings 5 ''my-link'' sample_world"
  have "qr_get sample_env 5 ''my-link'' (w_redis sample_world) = Inr None"
    by (simp add: qr_get_def sample.get_miss sample_world_def)
  moreover have "links_ok (w_db sample_world)" by (simp add: sample_world_def sample_db_ok)
  moreover have "render_png sample_env (r_short_url (to_response default_settings sample_link)) = ''http://localhost:8000/my-link''"
    by (simp add: sample_env_simps to_response_def sample_link_def new_short_url_def default_settings_simps)
  moreover have "9 < 5 + timedelta_seconds (QR_CACHE_TTL default_settings)"
    by (simp add: default_settings_def timedelta_seconds_def usec_def)
  ultimately show ?thesis
    using qr_served_until_expiry [OF sample.services_axioms _ sample_lookup, of 5 _ "fst ?g" "snd ?g" 9 empty_database]
    by simp
qed

end
