(* ===== verification/Rate_Limiter.thy ===== *)
theory Rate_Limiter
  imports Redis
begin

text \<open>
  \<open>app/cache/rate_limiter.py\<close>: the sliding-window limiter, its Lua script command by command.
  Instants are microseconds, windows seconds; \<open>time.time()\<close> is a double, and for the times of this
  century a difference of whole seconds is exact in doubles, so integers lose nothing.  A sorted
  set is a list of members with scores.  The specification the script refines is a log of the admitted
  requests.
\<close>

section \<open>The script and its caller\<close>

definition rate_key :: "pystr \<Rightarrow> pystr \<Rightarrow> pystr" where
  "rate_key identifier endpoint = ''ratelimit:'' @ identifier @ '':'' @ endpoint"

text \<open>\<open>math.ceil\<close> of a number of microseconds, in seconds.\<close>

definition ceil_seconds :: "int \<Rightarrow> int" where
  "ceil_seconds x = - ((- x) div usec)"

definition sliding_window_script ::
  "('r, 'x) redis_ops_scheme \<Rightarrow> pystr \<Rightarrow> instant \<Rightarrow> instant \<Rightarrow> int \<Rightarrow> int \<Rightarrow> pystr \<Rightarrow> 'r \<Rightarrow> (int \<times> int \<times> int) \<times> 'r"
where
  "sliding_window_script R key now window_start limit window req_id r =
     (let r1 = redis_zremrangebyscore R now key window_start r;
          count = redis_zcard R now key r1
      in if count \<ge> limit then
           ((0, 0, ceil_seconds (timedelta_seconds window - (now - window_start)) + 1), r1)
         else
           (let r2 = redis_zadd R now key now req_id r1;
                r3 = redis_expire R now key window r2
            in ((1, limit - count - 1, window), r3)))"

definition is_allowed ::
  "('r, 'x) redis_ops_scheme \<Rightarrow> instant \<Rightarrow> uuid \<Rightarrow> pystr \<Rightarrow> int \<Rightarrow> int \<Rightarrow> pystr \<Rightarrow> 'r \<Rightarrow> (bool \<times> int \<times> int) \<times> 'r"
where
  "is_allowed R now uuid4 identifier limit window endpoint r =
     (let key = rate_key identifier endpoint;
          window_start = now - timedelta_seconds window;
          req_id = str_uuid uuid4;
          (result, r') = sliding_window_script R key now window_start limit window req_id r
      in ((fst result \<noteq> 0, fst (snd result), snd (snd result)), r'))"

definition get_anonymous_limit :: "settings \<Rightarrow> int \<times> int" where
  "get_anonymous_limit cfg = (ANONYMOUS_RATE_LIMIT cfg, ANONYMOUS_RATE_LIMIT_WINDOW cfg)"

definition get_user_limit :: "settings \<Rightarrow> int \<times> int" where
  "get_user_limit cfg = (RATE_LIMIT_REQUESTS cfg, RATE_LIMIT_WINDOW cfg)"

text \<open>
  The key determines the endpoint and the identifier, although an identifier may contain colons,
  because the names of endpoints do not.
\<close>

lemma rate_key_inject:
  assumes "CHR '':'' \<notin> set e" "CHR '':'' \<notin> set e'"
  shows "rate_key i e = rate_key i' e' \<longleftrightarrow> i = i' \<and> e = e'"
proof -
  have "takeWhile (\<lambda>c. c \<noteq> CHR '':'') (rev (rate_key i e)) = rev e" if "CHR '':'' \<notin> set e" for i e
  proof -
    have "rev (rate_key i e) = rev e @ CHR '':'' # rev (''ratelimit:'' @ i)"
      by (simp add: rate_key_def)
    then show ?thesis using that by (simp add: takeWhile_append takeWhile_neq_absent)
  qed
  then have "e = e'" if "rate_key i e = rate_key i' e'"
    using that assms by (metis rev_rev_ident)
  then show ?thesis by (auto simp: rate_key_def)
qed

section \<open>A request log as specification\<close>

text \<open>
  A call of the limiter; the log holds the keys and times of the admitted calls, oldest first.
\<close>

record call =
  c_identifier :: pystr
  c_endpoint :: pystr
  c_limit :: int
  c_window :: int
  c_now :: instant
  c_uuid :: uuid

definition call_key :: "call \<Rightarrow> pystr" where
  "call_key c = rate_key (c_identifier c) (c_endpoint c)"

type_synonym request_log = "(pystr \<times> instant) list"

definition admissions :: "pystr \<Rightarrow> request_log \<Rightarrow> instant list" where
  "admissions k log = map snd (filter (\<lambda>(k', s). k' = k) log)"

definition recent :: "instant \<Rightarrow> int \<Rightarrow> instant list \<Rightarrow> instant list" where
  "recent t window ss = filter (\<lambda>s. t - timedelta_seconds window < s) ss"

definition log_admits :: "request_log \<Rightarrow> call \<Rightarrow> bool" where
  "log_admits log c \<longleftrightarrow>
     int (length (recent (c_now c) (c_window c) (admissions (call_key c) log))) < c_limit c"

definition log_step :: "request_log \<Rightarrow> call \<Rightarrow> request_log" where
  "log_step log c = (if log_admits log c then log @ [(call_key c, c_now c)] else log)"

text \<open>The answers of the specification and of the code to a sequence of calls.\<close>

fun log_run :: "request_log \<Rightarrow> call list \<Rightarrow> bool list" where
  "log_run log [] = []"
| "log_run log (c # cs) = log_admits log c # log_run (log_step log c) cs"

definition limiter_call :: "('r, 'x) redis_ops_scheme \<Rightarrow> call \<Rightarrow> 'r \<Rightarrow> (bool \<times> int \<times> int) \<times> 'r" where
  "limiter_call R c =
     is_allowed R (c_now c) (c_uuid c) (c_identifier c) (c_limit c) (c_window c) (c_endpoint c)"

fun limiter_run :: "('r, 'x) redis_ops_scheme \<Rightarrow> call list \<Rightarrow> 'r \<Rightarrow> bool list" where
  "limiter_run R [] r = []"
| "limiter_run R (c # cs) r =
     (let (result, r') = limiter_call R c r in fst result # limiter_run R cs r')"

lemma admissions_simps [simp]:
  "admissions k [] = []"
  "admissions k (log @ [(k', s)]) = (if k' = k then admissions k log @ [s] else admissions k log)"
  by (auto simp: admissions_def)

lemma recent_simps [simp]:
  "recent t w [] = []"
  "recent t w (ss @ [s]) = (if t - timedelta_seconds w < s then recent t w ss @ [s] else recent t w ss)"
  by (auto simp: recent_def)

lemma recent_recent: "t \<le> t' \<Longrightarrow> recent t' w (recent t w ss) = recent t' w ss"
  by (induction ss) (auto simp: recent_def)

lemma recent_empty: "\<forall>s \<in> set ss. s \<le> t' - timedelta_seconds w \<Longrightarrow> recent t' w ss = []"
  by (auto simp: recent_def filter_empty_conv)

text \<open>Calls arrive in the order of their clock readings.\<close>

fun in_order :: "instant \<Rightarrow> call list \<Rightarrow> bool" where
  "in_order t [] = True"
| "in_order t (c # cs) = (t \<le> c_now c \<and> in_order (c_now c) cs)"

definition log_until :: "instant \<Rightarrow> request_log \<Rightarrow> bool" where
  "log_until t log \<longleftrightarrow> (\<forall>(k, s) \<in> set log. s \<le> t)"

lemma log_until_admissions: "log_until t log \<Longrightarrow> s \<in> set (admissions k log) \<Longrightarrow> s \<le> t"
  by (auto simp: log_until_def admissions_def)

lemma log_until_step: "log_until t log \<Longrightarrow> t \<le> c_now c \<Longrightarrow> log_until (c_now c) (log_step log c)"
  by (auto simp: log_until_def log_step_def)

section \<open>The log never exceeds the limit in any window\<close>

definition window_count :: "instant \<Rightarrow> int \<Rightarrow> instant list \<Rightarrow> int" where
  "window_count T w ss = int (length (filter (\<lambda>s. T - timedelta_seconds w < s \<and> s \<le> T) ss))"

lemma window_count_snoc:
  "window_count T w (ss @ [s]) = window_count T w ss + (if T - timedelta_seconds w < s \<and> s \<le> T then 1 else 0)"
  by (simp add: window_count_def)

lemma window_count_recent: "s \<le> T \<Longrightarrow> window_count T w ss \<le> int (length (recent s w ss))"
  unfolding window_count_def recent_def
  by (induction ss) (auto simp: )

text \<open>\<open>bounded k L w log\<close>: the statement to be carried along a run.\<close>

definition bounded_log :: "pystr \<Rightarrow> int \<Rightarrow> int \<Rightarrow> request_log \<Rightarrow> bool" where
  "bounded_log k L w log \<longleftrightarrow> (\<forall>T. window_count T w (admissions k log) \<le> L)"

lemma bounded_log_step [invariant_intros]:
  assumes "bounded_log k L w log" "call_key c = k \<Longrightarrow> c_limit c \<le> L \<and> c_window c = w"
  shows "bounded_log k L w (log_step log c)"
  unfolding bounded_log_def
proof
  fix T
  have old: "window_count T w (admissions k log) \<le> L"
    using assms(1) by (simp add: bounded_log_def)
  show "window_count T w (admissions k (log_step log c)) \<le> L"
  proof (cases "log_admits log c \<and> call_key c = k \<and> c_now c \<le> T")
    case True
    then have "int (length (recent (c_now c) w (admissions k log))) < L"
      using assms(2) by (auto simp: log_admits_def)
    moreover have "window_count T w (admissions k log) \<le> int (length (recent (c_now c) w (admissions k log)))"
      by (rule window_count_recent) (use True in simp)
    ultimately show ?thesis
      using True by (simp add: log_step_def window_count_snoc)
  next
    case False
    then show ?thesis
      using old by (auto simp: log_step_def window_count_snoc)
  qed
qed

section \<open>The script refines the log\<close>

lemma update_fresh: "m \<notin> fst ` set zs \<Longrightarrow> AList.update m s zs = zs @ [(m, s)]"
  by (induction zs) auto

lemma ceil_seconds_0 [simp]: "ceil_seconds 0 = 0"
  by (simp add: ceil_seconds_def)

text \<open>The calls a deployment makes: in clock order, with fresh request ids, one window per key.\<close>

definition call_trace :: "(pystr \<Rightarrow> int) \<Rightarrow> instant \<Rightarrow> call list \<Rightarrow> bool" where
  "call_trace win t cs \<longleftrightarrow>
     in_order t cs \<and> distinct (map c_uuid cs) \<and> list_all (\<lambda>c. c_window c = win (call_key c)) cs"

context redis_server
begin

text \<open>
  The sorted set under \<open>k\<close> holds, at every later time, exactly the admissions of the log that are
  still inside the window, and only members in \<open>ids\<close>.
\<close>

definition set_tracks :: "int \<Rightarrow> instant \<Rightarrow> pystr \<Rightarrow> pystr set \<Rightarrow> instant list \<Rightarrow> 'r \<Rightarrow> bool" where
  "set_tracks w t k ids ss r \<longleftrightarrow>
     (\<forall>t' \<ge> t. is_zset (look r t' k) \<and> fst ` set (zset_items (look r t' k)) \<subseteq> ids \<and>
        recent t' w (map snd (zset_items (look r t' k))) = recent t' w ss)"

lemma set_tracks_later: "set_tracks w t k ids ss r \<Longrightarrow> t \<le> t' \<Longrightarrow> ids \<subseteq> ids' \<Longrightarrow> set_tracks w t' k ids' ss r"
  unfolding set_tracks_def by (meson order_trans)

lemma set_tracks_frame:
  "set_tracks w t k ids ss r \<Longrightarrow> (\<And>t'. t \<le> t' \<Longrightarrow> look r' t' k = look r t' k) \<Longrightarrow> set_tracks w t k ids ss r'"
  by (simp add: set_tracks_def)

lemma filter_zset: "map snd (filter (\<lambda>(m, sc). lo < sc) zs) = filter (\<lambda>sc. lo < sc) (map snd zs)"
  by (induction zs) auto

lemma look_cleaned:
  assumes "set_tracks w t k ids ss r" "t \<le> t'"
  defines "r1 \<equiv> redis_zremrangebyscore R t k (t - timedelta_seconds w) r"
  shows "set_tracks w t k ids ss r1"
    and "zset_items (look r1 t k) = filter (\<lambda>(m, sc). t - timedelta_seconds w < sc) (zset_items (look r t k))"
proof -
  let ?zs = "zset_items (look r t k)" and ?old = "\<lambda>(m, sc). t - timedelta_seconds w < sc"
  have r1: "look r1 u k = persist (look r u k) (wrap_zset (filter ?old ?zs))" if "t \<le> u" for u
    using look_zrem [of r t k u] assms(1) that by (simp add: r1_def set_tracks_def)
  then show "zset_items (look r1 t k) = filter ?old ?zs"
    by (cases "look r t k") auto
  show "set_tracks w t k ids ss r1"
    unfolding set_tracks_def
  proof (intro allI impI)
    fix u assume u: "t \<le> u"
    have m: "fst ` set (filter ?old ?zs) \<subseteq> ids"
      using assms(1) order_refl unfolding set_tracks_def by fastforce
    have s: "recent u w (map snd (filter ?old ?zs)) = recent u w (map snd ?zs)"
      using recent_recent [OF u, of w "map snd ?zs"] by (simp add: recent_def filter_zset)
    show "is_zset (look r1 u k) \<and> fst ` set (zset_items (look r1 u k)) \<subseteq> ids \<and>
        recent u w (map snd (zset_items (look r1 u k))) = recent u w ss"
      using r1 [OF u] m s look_same [OF u, of r k] assms(1) u
      by (cases "look r u k") (auto simp: set_tracks_def)
  qed
qed

lemma script_decision:
  assumes "set_tracks w now k ids ss r"
  shows "fst (sliding_window_script R k now (now - timedelta_seconds w) limit w m r) =
    (let n = int (length (recent now w ss))
     in if n < limit then (1, limit - n - 1, w) else (0, 0, 1))"
proof -
  let ?r1 = "redis_zremrangebyscore R now k (now - timedelta_seconds w) r"
  have t: "set_tracks w now k ids ss ?r1"
    by (rule look_cleaned(1) [OF assms order_refl])
  have "zset_items (look ?r1 now k) = filter (\<lambda>(m, sc). now - timedelta_seconds w < sc) (zset_items (look r now k))"
    by (rule look_cleaned(2) [OF assms order_refl])
  then have "length (zset_items (look ?r1 now k)) = length (recent now w (map snd (zset_items (look r now k))))"
    by (metis filter_zset length_map recent_def)
  also have "\<dots> = length (recent now w ss)"
    using assms by (simp add: set_tracks_def)
  finally have "redis_zcard R now k ?r1 = int (length (recent now w ss))"
    using t by (simp add: zcard set_tracks_def)
  then show ?thesis by (simp add: sliding_window_script_def Let_def)
qed

lemma script_effect:
  assumes tr: "set_tracks w now k ids ss r" and "m \<notin> ids" and past: "\<forall>s \<in> set ss. s \<le> now"
  shows "set_tracks w now k (insert m ids)
    (if int (length (recent now w ss)) < limit then ss @ [now] else ss)
    (snd (sliding_window_script R k now (now - timedelta_seconds w) limit w m r))"
proof -
  let ?r1 = "redis_zremrangebyscore R now k (now - timedelta_seconds w) r"
  define r1 where "r1 = ?r1"
  define r2 where "r2 = redis_zadd R now k now m r1"
  define r3 where "r3 = redis_expire R now k w r2"
  note t = look_cleaned(1) [OF tr order_refl, folded r1_def]
  have eff: "snd (sliding_window_script R k now (now - timedelta_seconds w) limit w m r) =
      (if int (length (recent now w ss)) < limit then r3 else r1)"
    using script_decision [OF tr, of limit m]
    by (auto simp: sliding_window_script_def Let_def r1_def r2_def r3_def split: if_splits)
  have 1: "set_tracks w now k (insert m ids) ss r1"
    using set_tracks_later [OF t order_refl] by blast
  let ?zs = "zset_items (look r1 now k)"
  have zs: "m \<notin> fst ` set ?zs" "recent now w (map snd ?zs) = recent now w ss" "is_zset (look r1 now k)"
    using t assms(2) by (auto simp: set_tracks_def)
  have "look r2 now k = Some (RZset (?zs @ [(m, now)]))"
    using zs look_zadd [of r1 now k now now m] by (cases "look r1 now k") (auto simp: r2_def update_fresh)
  then have r3: "look r3 u k = (if u < now + timedelta_seconds w then Some (RZset (?zs @ [(m, now)])) else None)"
    if "now \<le> u" for u
    using that by (simp add: r3_def look_expire)
  have "set_tracks w now k (insert m ids) (ss @ [now]) r3"
    unfolding set_tracks_def
  proof (intro allI impI)
    fix u assume u: "now \<le> u"
    have e: "recent u w (map snd ?zs) = recent u w ss"
      using recent_recent [OF u] zs(2) by metis
    have "u - timedelta_seconds w < now \<longleftrightarrow> u < now + timedelta_seconds w" by linarith
    moreover have "recent u w ss = []" if "\<not> u < now + timedelta_seconds w"
      using past that by (intro recent_empty) auto
    ultimately show "is_zset (look r3 u k) \<and> fst ` set (zset_items (look r3 u k)) \<subseteq> insert m ids \<and>
        recent u w (map snd (zset_items (look r3 u k))) = recent u w (ss @ [now])"
      using r3 [OF u] e t order_refl by (auto simp: set_tracks_def)
  qed
  with 1 eff show ?thesis by simp
qed

lemma script_frame:
  assumes "k' \<noteq> k" "now \<le> t'"
  shows "look (snd (sliding_window_script R k now ws limit w m r)) t' k' = look r t' k'"
  using assms by (simp add: sliding_window_script_def Let_def look_expire look_zadd_other look_zrem_other)

text \<open>The state of the server represents a log for every key.\<close>

definition represents :: "(pystr \<Rightarrow> int) \<Rightarrow> instant \<Rightarrow> pystr set \<Rightarrow> request_log \<Rightarrow> 'r \<Rightarrow> bool" where
  "represents win t ids log r \<longleftrightarrow> (\<forall>k. set_tracks (win k) t k ids (admissions k log) r) \<and> log_until t log"

lemma limiter_call_script:
  assumes "c_window c = w"
  shows "limiter_call R c r =
    (let (res, r') = sliding_window_script R (call_key c) (c_now c) (c_now c - timedelta_seconds w)
           (c_limit c) w (str_uuid (c_uuid c)) r
     in ((fst res \<noteq> 0, fst (snd res), snd (snd res)), r'))"
  using assms by (simp add: limiter_call_def is_allowed_def call_key_def Let_def)

lemma limiter_call_step:
  assumes "represents win t ids log r" "t \<le> c_now c" "c_window c = win (call_key c)"
    and "str_uuid (c_uuid c) \<notin> ids"
  shows "fst (limiter_call R c r) =
      (let n = int (length (recent (c_now c) (c_window c) (admissions (call_key c) log)))
       in if n < c_limit c then (True, c_limit c - n - 1, c_window c) else (False, 0, 1))"
    and "represents win (c_now c) (insert (str_uuid (c_uuid c)) ids) (log_step log c)
      (snd (limiter_call R c r))"
proof -
  let ?k = "call_key c" and ?now = "c_now c" and ?m = "str_uuid (c_uuid c)"
  have tr: "set_tracks (win k) ?now k ids (admissions k log) r" for k
    using set_tracks_later [OF _ assms(2) subset_refl] assms(1) by (simp add: represents_def)
  note call = limiter_call_script [OF assms(3)]
  show "fst (limiter_call R c r) =
      (let n = int (length (recent (c_now c) (c_window c) (admissions (call_key c) log)))
       in if n < c_limit c then (True, c_limit c - n - 1, c_window c) else (False, 0, 1))"
    using script_decision [OF tr [of ?k], of "c_limit c" ?m] assms(3)
    by (auto simp: call Let_def split: prod.splits if_splits)
  have past: "\<forall>s \<in> set (admissions ?k log). s \<le> ?now"
    using assms(1,2) log_until_admissions unfolding represents_def by (meson order_trans)
  have r': "snd (limiter_call R c r) = snd (sliding_window_script R ?k ?now
      (?now - timedelta_seconds (win ?k)) (c_limit c) (win ?k) ?m r)"
    by (simp add: call Let_def split: prod.splits)
  have "set_tracks (win k) ?now k (insert ?m ids) (admissions k (log_step log c)) (snd (limiter_call R c r))" for k
  proof (cases "k = ?k")
    case True
    have "admissions ?k (log_step log c) =
        (if int (length (recent ?now (win ?k) (admissions ?k log))) < c_limit c
         then admissions ?k log @ [?now] else admissions ?k log)"
      using assms(3) by (simp add: log_step_def log_admits_def)
    then show ?thesis
      using script_effect [OF tr assms(4) past, of "c_limit c"] True r' by simp
  next
    case False
    then have "admissions k (log_step log c) = admissions k log"
      by (simp add: log_step_def)
    moreover have "set_tracks (win k) ?now k (insert ?m ids) (admissions k log) r"
      using set_tracks_later [OF tr order_refl] by blast
    ultimately show ?thesis
      using script_frame [OF False] r' by (auto intro: set_tracks_frame)
  qed
  moreover have "log_until ?now (log_step log c)"
    using log_until_step [of t log c] assms(1,2) by (simp add: represents_def)
  ultimately show "represents win ?now (insert ?m ids) (log_step log c) (snd (limiter_call R c r))"
    by (simp add: represents_def)
qed

lemma limiter_run_log:
  assumes "represents win t ids log r" "in_order t cs"
    and "\<forall>c \<in> set cs. c_window c = win (call_key c)"
    and "distinct (map c_uuid cs)" "\<forall>c \<in> set cs. str_uuid (c_uuid c) \<notin> ids"
  shows "limiter_run R cs r = log_run log cs"
  using assms
proof (induction cs arbitrary: t ids log r)
  case Nil
  then show ?case by simp
next
  case (Cons c cs)
  note step = limiter_call_step [OF Cons.prems(1), of c]
  obtain res r' where call: "limiter_call R c r = (res, r')" by (cases "limiter_call R c r")
  then have "fst res = log_admits log c"
    using step(1) Cons.prems by (auto simp: log_admits_def Let_def split: if_splits)
  moreover have "represents win (c_now c) (insert (str_uuid (c_uuid c)) ids) (log_step log c) r'"
    using step(2) Cons.prems call by simp
  then have "limiter_run R cs r' = log_run (log_step log c) cs"
    using Cons.prems by (intro Cons.IH) (auto simp: eq_commute [of "c_uuid c"])
  ultimately show ?case using call by simp
qed

lemma represents_empty: "(\<And>u k. t \<le> u \<Longrightarrow> look r u k = None) \<Longrightarrow> represents win t {} [] r"
  by (simp add: represents_def set_tracks_def log_until_def)

lemma limiter_run_empty:
  assumes "call_trace win t cs" "\<And>u k. t \<le> u \<Longrightarrow> look r u k = None"
  shows "limiter_run R cs r = log_run [] cs"
  using limiter_run_log [OF represents_empty [OF assms(2)], of t cs win] assms(1)
  by (simp add: call_trace_def list_all_iff)

end

section \<open>Properties\<close>

fun admitted_times :: "pystr \<Rightarrow> call list \<Rightarrow> bool list \<Rightarrow> instant list" where
  "admitted_times k (c # cs) (ok # oks) =
     (if ok \<and> call_key c = k then c_now c # admitted_times k cs oks else admitted_times k cs oks)"
| "admitted_times k _ _ = []"

lemma window_count_append:
  "window_count T w (xs @ ys) = window_count T w xs + window_count T w ys"
  by (simp add: window_count_def)

lemma admitted_times_bounded:
  assumes "bounded_log k L w log" "\<forall>c \<in> set cs. call_key c = k \<longrightarrow> c_limit c \<le> L \<and> c_window c = w"
  shows "window_count T w (admissions k log @ admitted_times k cs (log_run log cs)) \<le> L"
  using assms
proof (induction cs arbitrary: log)
  case Nil
  then show ?case by (simp add: bounded_log_def)
next
  case (Cons c cs)
  have "bounded_log k L w (log_step log c)"
    using Cons.prems by (intro bounded_log_step) auto
  from Cons.IH [OF this] Cons.prems(2)
  have "window_count T w (admissions k (log_step log c) @ admitted_times k cs (log_run (log_step log c) cs)) \<le> L"
    by simp
  moreover have "admissions k (log_step log c) @ X =
      admissions k log @ (if log_admits log c \<and> call_key c = k then c_now c # X else X)" for X
    by (simp add: log_step_def)
  ultimately show ?case by simp
qed

text \<open>
  C14. On a server that starts empty, the answers of the Lua script to any sequence of calls, over any
  mixture of clients and endpoints, are those of a log of admissions: a call is admitted exactly
  when fewer than \<open>limit\<close> calls of its key were admitted during the last window.  Expiry of keys and
  the interleaving with other keys make no difference.
\<close>

theorem limiter_refines_log:
  assumes "redis_server R look" and "call_trace win t cs"
    and "\<And>u k. t \<le> u \<Longrightarrow> look r u k = None"
  shows "limiter_run R cs r = log_run [] cs"
  using assms by (rule redis_server.limiter_run_empty)

text \<open>
  C10. The limit is never exceeded: whatever the calls, in every interval of one window's length at most
  \<open>limit\<close> of the calls of a key are admitted.
\<close>

theorem sliding_window_bound:
  assumes "redis_server R look" and "call_trace win t cs"
    and "\<And>u k. t \<le> u \<Longrightarrow> look r u k = None"
    and "0 \<le> limit" "list_all (\<lambda>c. call_key c = key \<longrightarrow> c_limit c \<le> limit) cs"
  shows "window_count T (win key) (admitted_times key cs (limiter_run R cs r)) \<le> limit"
proof -
  have "bounded_log key limit (win key) []"
    using assms(4) by (simp add: bounded_log_def window_count_def)
  from admitted_times_bounded [OF this, of cs T] assms(2,5)
  have "window_count T (win key) (admitted_times key cs (log_run [] cs)) \<le> limit"
    by (simp add: call_trace_def list_all_iff)
  then show ?thesis
    using redis_server.limiter_run_empty [OF assms(1-3)] by simp
qed

definition sample_call :: "nat \<Rightarrow> call" where
  "sample_call i = \<lparr>c_identifier = ''ip'', c_endpoint = ''login'', c_limit = 2, c_window = 300,
     c_now = int i * usec, c_uuid = of_nat i\<rparr>"

lemma sample_trace:
  "call_trace (\<lambda>_. 300) 0 (map sample_call [1, 2, 3, 302])"
  by (simp add: call_trace_def sample_call_def usec_def)

theorem limiter_refines_log_witness:
  "limiter_run store_ops (map sample_call [1, 2, 3, 302]) (\<lambda>_. None) = [True, True, False, True]"
proof -
  have "log_run [] (map sample_call [1, 2, 3, 302]) = [True, True, False, True]"
    by (simp add: log_admits_def log_step_def admissions_def recent_def sample_call_def call_key_def
        timedelta_seconds_def usec_def)
  then show ?thesis
    using limiter_refines_log [OF store.redis_server_axioms sample_trace, of "\<lambda>_. None"] by simp
qed

theorem sliding_window_bound_witness:
  "window_count 5000000 300 (admitted_times ''ratelimit:ip:login'' (map sample_call [1, 2, 3, 302])
     (limiter_run store_ops (map sample_call [1, 2, 3, 302]) (\<lambda>_. None))) \<le> 2"
  by (rule sliding_window_bound [OF store.redis_server_axioms sample_trace])
    (simp_all add: sample_call_def)

end
