(* ===== verification/Endpoints.thy ===== *)
theory Endpoints
  imports Auth Qr Rate_Limiter
begin

text \<open>
  \<open>app/api/v1/endpoints\<close> and the root page of \<open>app/main.py\<close>.  The framework resolves the dependencies of an
  endpoint first (session, bearer token), then validates path, query and body, then runs the handler; the session
  dependency commits or rolls back around all of it.  The fresh identifiers a request draws are arguments:
  \<open>lid\<close> for the limiter, \<open>i\<close> for a new row.
\<close>

section \<open>Client addresses\<close>

definition client_ip :: "request \<Rightarrow> pystr" where
  "client_ip req =
     (case x_forwarded_for req of
        Some (ch # h) \<Rightarrow> first_forwarded (ch # h)
      | _ \<Rightarrow> (case client_host req of Some h \<Rightarrow> h | None \<Rightarrow> ''unknown''))"

definition get_client_ip :: "request \<Rightarrow> pystr option" where
  "get_client_ip req =
     (case x_forwarded_for req of
        Some (ch # h) \<Rightarrow> Some (first_forwarded (ch # h))
      | _ \<Rightarrow> client_host req)"

definition or_anon :: "pystr option \<Rightarrow> pystr" where
  "or_anon ip = (case ip of Some (ch # s) \<Rightarrow> ch # s | _ \<Rightarrow> ''anon'')"

section \<open>Rate limits\<close>

text \<open>The three guarded endpoints call the limiter and raise when it refuses.\<close>

definition rate_guard ::
  "('r, 'x) ext_scheme \<Rightarrow> instant \<Rightarrow> uuid \<Rightarrow> pystr \<Rightarrow> int \<Rightarrow> int \<Rightarrow> pystr \<Rightarrow> pystr \<Rightarrow> ('r, unit) handler" where
  "rate_guard E now lid identifier limit window endpoint message w =
     (case is_allowed E now lid identifier limit window endpoint (w_redis w) of
        ((allowed, _, _), r') \<Rightarrow>
          (if \<not> allowed then Inl (App (RateLimitError message)) else Inr (), w\<lparr>w_redis := r'\<rparr>))"

text \<open>Sequencing: the second part runs only when the first returned.\<close>

definition and_then :: "('r, 'a) handler \<Rightarrow> ('a \<Rightarrow> ('r, 'b) handler) \<Rightarrow> ('r, 'b) handler" where
  "and_then h k w = (case h w of (Inl e, w') \<Rightarrow> (Inl e, w') | (Inr v, w') \<Rightarrow> k v w')"

definition returning :: "'a result \<Rightarrow> ('r, 'a) handler" where
  "returning v w = (v, w)"

definition current_user :: "('r, 'x) ext_scheme \<Rightarrow> settings \<Rightarrow> instant \<Rightarrow> pystr option \<Rightarrow> ('r, user) handler" where
  "current_user E cfg now cred w = (get_current_user E cfg now cred (w_db w), w)"

definition optional_user :: "('r, 'x) ext_scheme \<Rightarrow> settings \<Rightarrow> instant \<Rightarrow> pystr option \<Rightarrow> ('r, user option) handler" where
  "optional_user E cfg now cred w = (Inr (get_optional_user E cfg now cred (w_db w)), w)"

definition query_range :: "int \<Rightarrow> int \<Rightarrow> int \<Rightarrow> ('r, unit) handler" where
  "query_range lo hi n = returning (if lo \<le> n \<and> n \<le> hi then Inr () else Inl RequestValidationError)"

section \<open>\<open>endpoints/urls.py\<close>\<close>

definition create_url ::
  "('r, 'x) ext_scheme \<Rightarrow> settings \<Rightarrow> instant \<Rightarrow> uuid \<Rightarrow> uuid \<Rightarrow> (nat \<Rightarrow> nat \<Rightarrow> nat) \<Rightarrow> request \<Rightarrow> pystr option \<Rightarrow>
   url_create_body \<Rightarrow> ('r, url_response) handler"
where
  "create_url E cfg now lid i rng req cred body =
     with_session
       (and_then (optional_user E cfg now cred) (\<lambda>user.
        and_then (returning (validate_url_create (http_url E) now body)) (\<lambda>data.
        and_then
          (rate_guard E now lid (case user of Some u \<Rightarrow> str_uuid (row_id u) | None \<Rightarrow> client_ip req)
             (if user \<noteq> None then 100 else 10) 3600 ''create_url'' ''URL creation rate limit exceeded'') (\<lambda>_.
        url_create E cfg now i rng data (map_option row_id user)))))"

definition list_urls ::
  "('r, 'x) ext_scheme \<Rightarrow> settings \<Rightarrow> instant \<Rightarrow> (uuid \<Rightarrow> nat) \<Rightarrow> pystr option \<Rightarrow> int \<Rightarrow> int \<Rightarrow>
   ('r, url_list_response) handler" where
  "list_urls E cfg now rank cred page_no sz =
     with_session
       (and_then (current_user E cfg now cred) (\<lambda>u.
        and_then (returning (if 1 \<le> page_no then Inr () else Inl RequestValidationError)) (\<lambda>_.
        and_then (query_range 1 100 sz) (\<lambda>_.
        list_by_owner rank cfg (row_id u) page_no sz))))"

definition get_url ::
  "('r, 'x) ext_scheme \<Rightarrow> settings \<Rightarrow> instant \<Rightarrow> pystr option \<Rightarrow> uuid \<Rightarrow> ('r, url_response) handler" where
  "get_url E cfg now cred url_id =
     with_session
       (and_then (optional_user E cfg now cred) (\<lambda>user.
        url_get_by_id cfg url_id (map_option row_id user)))"

definition update_url ::
  "('r, 'x) ext_scheme \<Rightarrow> settings \<Rightarrow> instant \<Rightarrow> pystr option \<Rightarrow> uuid \<Rightarrow> url_update_request \<Rightarrow> ('r, url_response) handler" where
  "update_url E cfg now cred url_id body =
     with_session
       (and_then (current_user E cfg now cred) (\<lambda>u.
        and_then (returning (validate_url_update body)) (\<lambda>data.
        url_update E cfg now url_id data (row_id u) (role u = ''admin''))))"

definition delete_url ::
  "('r, 'x) ext_scheme \<Rightarrow> settings \<Rightarrow> instant \<Rightarrow> pystr option \<Rightarrow> uuid \<Rightarrow> ('r, unit) handler" where
  "delete_url E cfg now cred url_id =
     with_session
       (and_then (current_user E cfg now cred) (\<lambda>u.
        url_delete E url_id (row_id u) (role u = ''admin'')))"

section \<open>\<open>endpoints/auth.py\<close>\<close>

definition register_user ::
  "('r, 'x) ext_scheme \<Rightarrow> instant \<Rightarrow> uuid \<Rightarrow> uuid \<Rightarrow> nat \<Rightarrow> request \<Rightarrow> register_request \<Rightarrow> ('r, user_response) handler" where
  "register_user E now lid i salt req body =
     with_session
       (and_then (returning (validate_register (email_str E) body)) (\<lambda>data.
        and_then (rate_guard E now lid (or_anon (get_client_ip req)) 10 3600 ''register'' ''Too many registration attempts'') (\<lambda>_.
        and_then (register E now i salt data) (\<lambda>u.
        returning (Inr (user_to_response u))))))"

definition login_user ::
  "('r, 'x) ext_scheme \<Rightarrow> settings \<Rightarrow> instant \<Rightarrow> uuid \<Rightarrow> uuid \<Rightarrow> request \<Rightarrow> login_request \<Rightarrow> ('r, token_response) handler" where
  "login_user E cfg now lid i req body =
     with_session
       (and_then (returning (validate_login (email_str E) body)) (\<lambda>data.
        and_then (rate_guard E now lid (or_anon (get_client_ip req)) 20 300 ''login'' ''Too many login attempts'') (\<lambda>_.
        login E cfg now i data (get_client_ip req) (h_user_agent req))))"

definition refresh_session ::
  "('r, 'x) ext_scheme \<Rightarrow> settings \<Rightarrow> instant \<Rightarrow> uuid \<Rightarrow> pystr \<Rightarrow> ('r, token_response) handler" where
  "refresh_session E cfg now i raw = with_session (refresh E cfg now i raw)"

definition logout_session :: "('r, 'x) ext_scheme \<Rightarrow> instant \<Rightarrow> pystr \<Rightarrow> ('r, unit) handler" where
  "logout_session E now raw = with_session (logout E now raw)"

definition me :: "('r, 'x) ext_scheme \<Rightarrow> settings \<Rightarrow> instant \<Rightarrow> pystr option \<Rightarrow> ('r, user_response) handler" where
  "me E cfg now cred =
     with_session (and_then (current_user E cfg now cred) (\<lambda>u. returning (Inr (user_to_response u))))"

section \<open>\<open>endpoints/analytics.py\<close>, \<open>qr.py\<close>, \<open>health.py\<close> and the root page\<close>

definition get_analytics_summary ::
  "('r, 'x) ext_scheme \<Rightarrow> settings \<Rightarrow> instant \<Rightarrow> pystr option \<Rightarrow> pystr \<Rightarrow> int \<Rightarrow> ('r, analytics_summary) handler" where
  "get_analytics_summary E cfg now cred c days =
     with_session
       (and_then (current_user E cfg now cred) (\<lambda>_.
        and_then (query_range 1 365 days) (\<lambda>_.
        get_summary E cfg now c days)))"

definition get_qr_code :: "('r, 'x) ext_scheme \<Rightarrow> settings \<Rightarrow> instant \<Rightarrow> pystr \<Rightarrow> ('r, pystr) handler" where
  "get_qr_code E cfg now c = with_session (get_or_generate E cfg now c)"

text \<open>
  The health check probes both stores; \<open>None\<close> stands for a probe that succeeds, \<open>Some m\<close> for an exception
  with the text \<open>m\<close>, which is shown in debug mode only.
\<close>

definition probe :: "settings \<Rightarrow> pystr option \<Rightarrow> pystr" where
  "probe cfg failure =
     (case failure of None \<Rightarrow> ''ok'' | Some m \<Rightarrow> if DEBUG cfg then ''error: '' @ m else ''error'')"

definition health :: "settings \<Rightarrow> pystr option \<Rightarrow> pystr option \<Rightarrow> json" where
  "health cfg db_failure redis_failure =
     JObj [(''api'', JStr ''ok''), (''database'', JStr (probe cfg db_failure)),
           (''redis'', JStr (probe cfg redis_failure))]"

definition root_page :: pystr where
  "root_page = ''/docs''"

text \<open>The status of a response: the endpoint's own, or what the exception handlers make of the exception.\<close>

definition http_status :: "nat \<Rightarrow> 'a result \<Rightarrow> nat" where
  "http_status ok res = (case res of Inr _ \<Rightarrow> ok | Inl e \<Rightarrow> fst (handle_exception e))"

section \<open>Lemmas\<close>

lemma rate_guard_answer:
  assumes "redis_server E look" "redis_server.represents look win t ids hist (w_redis w)" "t \<le> now"
    and "win (rate_key ip ep) = window" "str_uuid lid \<notin> ids"
  shows "fst (rate_guard E now lid ip limit window ep m w) =
    (if int (length (recent now window (admissions (rate_key ip ep) hist))) < limit then Inr ()
     else Inl (App (RateLimitError m)))"
proof -
  let ?c = "\<lparr>c_identifier = ip, c_endpoint = ep, c_limit = limit, c_window = window, c_now = now, c_uuid = lid\<rparr>"
  from redis_server.limiter_call_step(1) [OF assms(1,2), of ?c] assms(3-5)
  show ?thesis by (auto simp: rate_guard_def limiter_call_def call_key_def Let_def split: prod.splits if_splits)
qed

lemma rate_guard_db: "w_db (snd (rate_guard E now lid ip limit window ep m w)) = w_db w"
  by (simp add: rate_guard_def split: prod.split)

lemma and_then_fst:
  "fst (and_then h k w) = (case fst (h w) of Inl e \<Rightarrow> Inl e | Inr v \<Rightarrow> fst (k v (snd (h w))))"
  by (simp add: and_then_def split: prod.split sum.split)

lemma login_db: "w_db w' = w_db w \<Longrightarrow> fst (login E cfg now i data ip agent w') = fst (login E cfg now i data ip agent w)"
  by (simp add: login_def Let_def split: sum.split option.split prod.split)

text \<open>A header that no earlier request used.\<close>

lemma fresh_identifier:
  assumes "finite K"
  shows "\<exists>n. replicate (Suc n) (CHR ''a'') \<notin> K"
proof (rule ccontr)
  assume "\<not> ?thesis"
  then have "range (\<lambda>n. replicate (Suc n) (CHR ''a'')) \<subseteq> K" by auto
  moreover have "inj (\<lambda>n. replicate (Suc n) (CHR ''a''))"
    by (rule injI) (metis length_replicate nat.inject)
  ultimately show False using assms finite_subset finite_imageD infinite_UNIV_nat by metis
qed

lemma forwarded_word: "first_forwarded (replicate (Suc n) (CHR ''a'')) = replicate (Suc n) (CHR ''a'')"
proof -
  let ?h = "replicate (Suc n) (CHR ''a'')"
  have "takeWhile (\<lambda>x. x \<noteq> CHR '','') ?h = ?h" by (simp add: takeWhile_eq_all_conv)
  moreover have "dropWhile py_isspace ?h = ?h" by (simp add: py_isspace_def code_def)
  moreover have "rev ?h = ?h" by (rule rev_replicate)
  ultimately show ?thesis by (simp only: first_forwarded_def hd_split_on py_strip_def)
qed

section \<open>Properties\<close>

text \<open>Twenty requests of one address at the same instant.\<close>

definition login_call :: "nat \<Rightarrow> call" where
  "login_call n = \<lparr>c_identifier = ''anon'', c_endpoint = ''login'', c_limit = 20, c_window = 300, c_now = 5, c_uuid = of_nat n\<rparr>"

primrec login_redis :: "nat \<Rightarrow> keyspace" where
  "login_redis 0 = (\<lambda>_. None)"
| "login_redis (Suc n) = snd (limiter_call sample_env (login_call n) (login_redis n))"

lemma login_call_fresh:
  assumes "n \<le> 20"
  shows "str_uuid (of_nat n) \<notin> str_uuid ` of_nat ` {..<n}"
proof
  assume "str_uuid (of_nat n) \<in> str_uuid ` of_nat ` {..<n}"
  then obtain m where m: "m < n" "str_uuid (of_nat n) = str_uuid (of_nat m)" by auto
  then have "(of_nat n :: uuid) = of_nat m" using parse_str_uuid by (metis option.inject)
  then show False using m(1) assms by (simp add: word_of_nat_eq_iff take_bit_nat_eq_self)
qed

lemma login_call_new: "str_uuid 20 \<notin> str_uuid ` of_nat ` {..<20}"
  using login_call_fresh [of 20] by simp

lemma login_redis_represents:
  "n \<le> 20 \<Longrightarrow> redis_server.represents store_look (\<lambda>_. 300) 5 (str_uuid ` of_nat ` {..<n})
     (replicate n (rate_key ''anon'' ''login'', 5)) (login_redis n)"
proof (induction n)
  case 0
  show ?case using redis_server.represents_empty [OF sample.redis_server_axioms, of 5 "\<lambda>_. None" "\<lambda>_. 300"] by simp
next
  case (Suc n)
  have "str_uuid (of_nat n) \<notin> str_uuid ` of_nat ` {..<n}" using login_call_fresh [of n] Suc.prems by simp
  then have "redis_server.represents store_look (\<lambda>_. 300) 5 (insert (str_uuid (of_nat n)) (str_uuid ` of_nat ` {..<n}))
      (log_step (replicate n (rate_key ''anon'' ''login'', 5)) (login_call n)) (login_redis (Suc n))"
    using redis_server.limiter_call_step(2) [OF sample.redis_server_axioms Suc.IH, of "login_call n"] Suc.prems by (simp add: login_call_def)
  moreover have "admissions (rate_key ''anon'' ''login'') (replicate n (rate_key ''anon'' ''login'', 5)) = replicate n 5"
    by (simp add: admissions_def filter_replicate)
  then have "log_step (replicate n (rate_key ''anon'' ''login'', 5)) (login_call n) = replicate (Suc n) (rate_key ''anon'' ''login'', 5)"
    using Suc.prems
    by (simp add: log_step_def log_admits_def login_call_def call_key_def recent_def filter_replicate replicate_append_same
        timedelta_seconds_def usec_def)
  ultimately show ?case by (simp add: lessThan_Suc)
qed

text \<open>
  C8. The login endpoint: a body that does not validate is refused first; then, with \<open>n\<close> admissions of the
  client's address in the last five minutes, the answer is 429 from \<open>n = 20\<close> on, whatever the credentials, and
  otherwise that of the login service.
\<close>

theorem login_endpoint_answer:
  assumes "redis_server E look" "redis_server.represents look win t ids hist (w_redis w)" "t \<le> now"
    and "win (rate_key (or_anon (get_client_ip req)) ''login'') = 300" "str_uuid lid \<notin> ids"
    and "n = length (recent now 300 (admissions (rate_key (or_anon (get_client_ip req)) ''login'') hist))"
  shows "fst (login_user E cfg now lid i req body w) =
    (case validate_login (email_str E) body of
       Inl e \<Rightarrow> Inl e
     | Inr data \<Rightarrow>
         if n < 20 then fst (login E cfg now i data (get_client_ip req) (h_user_agent req) w)
         else Inl (App (RateLimitError ''Too many login attempts'')))"
  using rate_guard_answer [OF assms(1-5), of 20 "''Too many login attempts''"] assms(6)
  by (simp add: login_user_def and_then_fst returning_def login_db [OF rate_guard_db] split: sum.split)

theorem login_endpoint_answer_witness:
  "fst (login_user sample_env default_settings 5 20 1
     \<lparr>x_forwarded_for = None, client_host = None, h_user_agent = None, h_referer = None\<rparr> ada_login
     (ada_world\<lparr>w_redis := login_redis 20\<rparr>)) = Inl (App (RateLimitError ''Too many login attempts''))"
proof -
  let ?req = "\<lparr>x_forwarded_for = None, client_host = None, h_user_agent = None, h_referer = None\<rparr> :: request"
  have rep: "redis_server.represents store_look (\<lambda>_. 300) 5 (str_uuid ` of_nat ` {..<20})
      (replicate 20 (rate_key ''anon'' ''login'', 5)) (w_redis (ada_world\<lparr>w_redis := login_redis 20\<rparr>))"
    using login_redis_represents [of 20] by simp
  have anon: "or_anon (get_client_ip ?req) = ''anon''" by (simp add: or_anon_def get_client_ip_def)
  have "length (recent 5 300 (admissions (rate_key ''anon'' ''login'') (replicate 20 (rate_key ''anon'' ''login'', 5)))) = 20"
    by (simp add: admissions_def filter_replicate recent_def timedelta_seconds_def usec_def)
  then show ?thesis
    using login_endpoint_answer [where req = ?req and lid = 20 and i = 1 and cfg = default_settings and body = ada_login,
        OF sample.redis_server_axioms rep order_refl]
      login_call_new
    by (simp add: anon validate_login_def sample_env_simps)
qed

text \<open>
  C29. The limits trust a header of the client: whatever has been admitted so far, there is a value of
  \<open>X-Forwarded-For\<close> with which the next request passes the limit.
\<close>

theorem limit_evaded_by_header:
  assumes "redis_server E look" "redis_server.represents look win t ids hist (w_redis w)" "t \<le> now"
    and "\<And>ip. win (rate_key ip ep) = window" "str_uuid lid \<notin> ids" "0 < limit" "CHR '':'' \<notin> set ep"
  shows "\<exists>h. fst (rate_guard E now lid (or_anon (get_client_ip (req\<lparr>x_forwarded_for := Some h\<rparr>))) limit window ep m w) = Inr () \<and>
    fst (rate_guard E now lid (client_ip (req\<lparr>x_forwarded_for := Some h\<rparr>)) limit window ep m w) = Inr ()"
proof -
  have "finite {ip. rate_key ip ep \<in> fst ` set hist}"
  proof (rule inj_on_finite [where f = "\<lambda>ip. rate_key ip ep" and B = "fst ` set hist"])
    show "inj_on (\<lambda>ip. rate_key ip ep) {ip. rate_key ip ep \<in> fst ` set hist}"
      using assms(7) by (auto simp: inj_on_def rate_key_inject)
  qed auto
  from fresh_identifier [OF this] obtain n where n: "rate_key (replicate (Suc n) (CHR ''a'')) ep \<notin> fst ` set hist" by auto
  let ?h = "replicate (Suc n) (CHR ''a'')"
  have "or_anon (get_client_ip (req\<lparr>x_forwarded_for := Some ?h\<rparr>)) = ?h" "client_ip (req\<lparr>x_forwarded_for := Some ?h\<rparr>) = ?h"
    using forwarded_word [of n] by (simp_all add: get_client_ip_def client_ip_def or_anon_def)
  moreover have "admissions (rate_key ?h ep) hist = []"
    using n unfolding admissions_def by (auto simp: filter_empty_conv image_iff)
  ultimately have "fst (rate_guard E now lid (or_anon (get_client_ip (req\<lparr>x_forwarded_for := Some ?h\<rparr>))) limit window ep m w) = Inr () \<and>
    fst (rate_guard E now lid (client_ip (req\<lparr>x_forwarded_for := Some ?h\<rparr>)) limit window ep m w) = Inr ()"
    using rate_guard_answer [OF assms(1-4,5), of ?h limit m] assms(6) by simp
  then show ?thesis by blast
qed

theorem limit_evaded_by_header_witness:
  "\<exists>h. fst (rate_guard sample_env 5 20 (or_anon (get_client_ip (sample_request\<lparr>x_forwarded_for := Some h\<rparr>))) 20 300 ''login''
     ''Too many login attempts'' (ada_world\<lparr>w_redis := login_redis 20\<rparr>)) = Inr ()"
proof -
  have rep: "redis_server.represents store_look (\<lambda>_. 300) 5 (str_uuid ` of_nat ` {..<20})
      (replicate 20 (rate_key ''anon'' ''login'', 5)) (w_redis (ada_world\<lparr>w_redis := login_redis 20\<rparr>))"
    using login_redis_represents [of 20] by simp
  show ?thesis
    using limit_evaded_by_header [where now = 5 and ep = "''login''" and window = 300 and lid = 20 and limit = 20 and
        req = sample_request and m = "''Too many login attempts''", OF sample.redis_server_axioms rep] login_call_new
    by auto
qed


text \<open>
  An expiry without a time zone is not a validation error: comparing it with the aware current time raises
  inside the validator, and the endpoint answers 500.
\<close>

lemma naive_expiry_is_500:
  assumes "b_expires_at body = Some (Naive n)"
  shows "http_status 201 (fst (create_url E cfg now lid i rng req cred body w)) = 500 \<and>
    snd (create_url E cfg now lid i rng req cred body w) = w"
  using assms
  by (simp add: create_url_def with_session_def and_then_def optional_user_def returning_def validate_url_create_def
      expiry_must_be_future_def http_status_def)

text \<open>
  Analytics have no owner check: every active account gets the same summary of any link, the owner's and
  the private ones included.
\<close>

lemma summary_for_every_account:
  assumes "get_current_user E cfg now cred1 (w_db w) = Inr u1" "get_current_user E cfg now cred2 (w_db w) = Inr u2"
  shows "get_analytics_summary E cfg now cred1 c days w = get_analytics_summary E cfg now cred2 c days w"
  using assms by (simp add: get_analytics_summary_def with_session_def and_then_def current_user_def)

definition bob :: user where
  "bob = new_user 8 0 ''bob@example.com'' (sample_digest ''Secret456'') None"

definition duo_world :: "keyspace world" where
  "duo_world = empty_world\<lparr>w_db := empty_database\<lparr>users := [ada, bob]\<rparr>\<rparr>"

lemma duo_users:
  assumes "u \<in> {ada, bob}"
  shows "get_current_user sample_env default_settings 0
    (Some (create_access_token sample_env default_settings 0 (str_uuid (row_id u)) None)) (w_db duo_world) = Inr u"
proof -
  have "get_by_id (users (w_db duo_world)) (row_id u) = Inr (Some u)"
    using assms by (subst get_by_id_Some) (auto simp: duo_world_def ada_def bob_def new_user_def)
  moreover have "u_is_active u" using assms by (auto simp: ada_def bob_def new_user_def)
  moreover obtain ch s' where "str_uuid (row_id u) = ch # s'"
    using str_uuid_nonempty [of "row_id u"] by (cases "str_uuid (row_id u)") auto
  moreover have "0 div usec \<le> (0 + timedelta_minutes 30) div usec" by (simp add: timedelta_minutes_def usec_def)
  ultimately show ?thesis
    using sample_auth.decode_encode [of 0] parse_str_uuid [of "row_id u"]
    by (simp add: get_current_user_def decode_token_def create_access_token_def delta_or_def default_settings_simps)
qed

end
