(* ===== verification/Invariants.thy ===== *)
theory Invariants
  imports Endpoints
begin

text \<open>
  The invariant of the whole service and the proof, endpoint by endpoint, that requests keep it.  Three small
  tools carry the proofs: which keys an operation leaves alone in Redis (\<open>same_look\<close>), the five parts of the
  invariant that live there, and the rule for a session (\<open>keeps\<close>), in which a failed request is rolled back in
  the database but not in Redis.
\<close>

section \<open>What an operation leaves alone\<close>

definition same_look ::
  "('r \<Rightarrow> instant \<Rightarrow> pystr \<Rightarrow> redis_value option) \<Rightarrow> pystr set \<Rightarrow> instant \<Rightarrow> 'r \<Rightarrow> 'r \<Rightarrow> bool" where
  "same_look look K t r r' \<longleftrightarrow> (\<forall>k u. k \<in> K \<longrightarrow> t \<le> u \<longrightarrow> look r' u k = look r u k)"

lemma same_lookD: "same_look look K t r r' \<Longrightarrow> k \<in> K \<Longrightarrow> t \<le> u \<Longrightarrow> look r' u k = look r u k"
  by (simp add: same_look_def)

lemma same_look_refl [simp, intro]: "same_look look K t r r"
  by (simp add: same_look_def)

lemma same_look_trans [trans]:
  "same_look look K t r r' \<Longrightarrow> same_look look K t r' r'' \<Longrightarrow> same_look look K t r r''"
  by (simp add: same_look_def)

definition url_keys :: "pystr set" where
  "url_keys = range url_key \<union> range hot_key"

definition rate_keys :: "pystr set" where
  "rate_keys = {k. \<exists>i e. k = rate_key i e}"

lemma rate_key_space [simp]:
  "url_key c \<notin> rate_keys" "hot_key c \<notin> rate_keys" "queue_key \<notin> rate_keys" "summary_key c \<notin> rate_keys" "qr_key c \<notin> rate_keys"
  by (auto simp: rate_keys_def rate_key_def url_key_def hot_key_def queue_key_def summary_key_def qr_key_def)

lemma url_key_space [simp]:
  "queue_key \<notin> url_keys" "summary_key c \<notin> url_keys" "qr_key c \<notin> url_keys" "url_key c \<in> url_keys" "hot_key c \<in> url_keys"
  by (auto simp: url_keys_def)

lemma url_create_redis:
  "w_redis (snd (url_create E cfg now i rng data owner w)) = w_redis w \<or>
   (\<exists>c v. w_redis (snd (url_create E cfg now i rng data owner w)) = url_cache_set E cfg now c v None (w_redis w))"
  by (auto simp: url_create_def Let_def split: sum.splits prod.splits option.splits)

lemma url_update_redis:
  "w_redis (snd (url_update E cfg now i data requester is_admin w)) = w_redis w \<or>
   (\<exists>s. w_redis (snd (url_update E cfg now i data requester is_admin w)) = drop_cached E s (w_redis w))"
  by (auto simp: url_update_def split: sum.splits prod.splits option.splits)

lemma url_delete_redis:
  "w_redis (snd (url_delete E i requester is_admin w)) = w_redis w \<or>
   (\<exists>s. w_redis (snd (url_delete E i requester is_admin w)) = drop_cached E s (w_redis w))"
  by (auto simp: url_delete_def split: sum.splits prod.splits option.splits)

context services
begin

lemma same_url_set: "same_look look (- url_keys) now r (url_cache_set E cfg now c v None r)"
  using ttl_positive by (auto simp: same_look_def url_cache_set_def look_setex)

lemma same_url_delete: "same_look look (- url_keys) now r (url_cache_delete E c r)"
  by (auto simp: same_look_def url_cache_delete_def look_delete)

lemma same_drop_cached: "same_look look (- url_keys) now r (drop_cached E s r)"
  by (auto simp: drop_cached_def Let_def split: option.split list.split
      intro: same_url_delete same_look_trans [OF same_url_delete same_url_delete])

lemma same_create: "same_look look (- url_keys) now (w_redis w) (w_redis (snd (url_create E cfg now i rng data owner w)))"
  using url_create_redis [of E cfg now i rng data owner w] same_url_set by (elim disjE exE) simp_all

lemma same_update: "same_look look (- url_keys) now (w_redis w) (w_redis (snd (url_update E cfg now i data requester is_admin w)))"
  using url_update_redis [of E cfg now i data requester is_admin w] same_drop_cached by (elim disjE exE) simp_all

lemma same_delete: "same_look look (- url_keys) now (w_redis w) (w_redis (snd (url_delete E i requester is_admin w)))"
  using url_delete_redis [of E i requester is_admin w] same_drop_cached by (elim disjE exE) simp_all

lemma same_limiter:
  "same_look look (- rate_keys) now r (snd (is_allowed E now lid identifier limit window endpoint r))"
proof -
  have "k \<noteq> rate_key identifier endpoint" if "k \<notin> rate_keys" for k
    using that by (auto simp: rate_keys_def)
  then show ?thesis
    by (auto simp: same_look_def is_allowed_def sliding_window_script_def Let_def look_expire look_zadd_other look_zrem_other)
qed

lemma same_push: "same_look look (- {queue_key}) now r (push_event E now e r)"
  by (auto simp: same_look_def push_event_def look_rpush_other)

lemma same_pop: "same_look look (- {queue_key}) now (w_redis w) (w_redis (snd (flush_pop E cfg now w)))"
  using pop_frame by (auto simp: same_look_def)

lemma same_summary_set: "same_look look (- range summary_key) now r (set_cached_summary E cfg now c v r)"
  using ttl_positive by (auto simp: same_look_def set_cached_summary_def look_setex)

lemma same_qr_put: "same_look look (- range qr_key) now r (qr_put E cfg now c png r)"
  using ttl_positive by (auto simp: same_look_def qr_put_def look_setex)

lemma same_track: "same_look look (- url_keys) now r (snd (track_click E cfg now c r))"
proof -
  have "k \<noteq> hot_key c" "k \<noteq> url_key c" if "k \<in> - url_keys" for k
    using that by auto
  then show ?thesis by (simp add: same_look_def look_track)
qed

lemma same_tasks: "same_look look (- (url_keys \<union> {queue_key})) now r (run_tasks E cfg now (resolve_tasks hit c s ip agent refer) r)"
proof -
  have weaken: "same_look look (- (url_keys \<union> {queue_key})) now r r'"
    if "same_look look (- url_keys) now r r' \<or> same_look look (- {queue_key}) now r r'" for r r'
    using that by (auto simp: same_look_def)
  let ?r1 = "if hit then r else url_cache_set E cfg now c (serialize s) None r"
  have "same_look look (- (url_keys \<union> {queue_key})) now r ?r1"
    using weaken [OF disjI1 [OF same_url_set]] by (cases hit) simp_all
  also have "same_look look (- (url_keys \<union> {queue_key})) now ?r1 (snd (track_click E cfg now c ?r1))"
    by (intro weaken disjI1 same_track)
  also have "same_look look (- (url_keys \<union> {queue_key})) now (snd (track_click E cfg now c ?r1))
      (push_event E now (clicked_event E now (row_id s) ip agent refer) (snd (track_click E cfg now c ?r1)))"
    by (intro weaken disjI2 same_push)
  finally show ?thesis by (simp add: resolve_tasks_run Let_def)
qed

end

section \<open>The invariant\<close>

text \<open>Queued events are those that redirects build, with a timestamp that can be written and read.\<close>

definition good_event :: "('r, 'x) ext_scheme \<Rightarrow> json \<Rightarrow> bool" where
  "good_event E e \<longleftrightarrow> (\<exists>u i ip agent refer. e = clicked_event E u i ip agent refer \<and> 0 \<le> u \<and> u < max_instant)"

definition queue_ok ::
  "('r, 'x) ext_scheme \<Rightarrow> ('r \<Rightarrow> instant \<Rightarrow> pystr \<Rightarrow> redis_value option) \<Rightarrow> instant \<Rightarrow> 'r \<Rightarrow> bool" where
  "queue_ok E look t r \<longleftrightarrow> (\<exists>es. redis_server.events_queued look r t es \<and> list_all (good_event E) es)"

text \<open>Every stored target passed the safety check.\<close>

definition targets_safe :: "database \<Rightarrow> bool" where
  "targets_safe db \<longleftrightarrow> list_all (\<lambda>s. is_safe_url (original_url s)) (short_urls db)"

definition service_ok_with ::
  "(database \<Rightarrow> pystr \<Rightarrow> json \<Rightarrow> bool) \<Rightarrow> ('r, 'x) ext_scheme \<Rightarrow>
   ('r \<Rightarrow> instant \<Rightarrow> pystr \<Rightarrow> redis_value option) \<Rightarrow> instant \<Rightarrow> 'r world \<Rightarrow> bool"
where
  "service_ok_with promise E look t w \<longleftrightarrow>
     world_ok_with promise E t w \<and> targets_safe (w_db w) \<and> counts_agree (w_db w) \<and> clicks_dated (w_db w) \<and>
     queue_ok E look t (w_redis w) \<and>
     holds (get_cached_summary E) (cached_summary E) t (w_redis w) \<and>
     holds (qr_get E) (\<lambda>_ _. True) t (w_redis w)"

abbreviation service_ok ::
  "('r, 'x) ext_scheme \<Rightarrow> ('r \<Rightarrow> instant \<Rightarrow> pystr \<Rightarrow> redis_value option) \<Rightarrow> instant \<Rightarrow> 'r world \<Rightarrow> bool" where
  "service_ok E look \<equiv> service_ok_with cached_link E look"

lemma service_okD:
  assumes "service_ok_with promise E look t w"
  shows "world_ok_with promise E t w" "links_ok (w_db w)" "schema_ok (w_db w)" "counts_agree (w_db w)" "clicks_dated (w_db w)"
    "queue_ok E look t (w_redis w)" "holds (get_cached_summary E) (cached_summary E) t (w_redis w)"
    "holds (qr_get E) (\<lambda>_ _. True) t (w_redis w)" "targets_safe (w_db w)"
  using assms by (auto simp: service_ok_with_def intro: links_ok_schema world_ok_with_links)

lemma targets_safe_row: "targets_safe db \<Longrightarrow> links db c = Some s \<Longrightarrow> is_safe_url (original_url s)"
  by (auto simp: targets_safe_def list_all_iff dest: links_Some)

lemma persist_targets:
  assumes "targets_safe db" "persist_batch ids now es db = Inr db'"
  shows "targets_safe db'"
proof -
  obtain cs rows where "db' = db\<lparr>click_events := click_events db @ rows, short_urls := map (bumped now cs) (short_urls db)\<rparr>"
    using persist_batch_effect [OF assms(2)] by metis
  then show ?thesis using assms(1) by (simp add: targets_safe_def list_all_iff)
qed

context cached_services
begin

lemma queue_ok_same:
  assumes "same_look look K t r r'" "queue_key \<in> K" "queue_ok E look t r"
  shows "queue_ok E look t r'"
proof -
  obtain es where "events_queued r t es" "list_all (good_event E) es" using assms(3) by (auto simp: queue_ok_def)
  then show ?thesis
    using queued_frame [of r t es r'] same_lookD [OF assms(1,2)] by (auto simp: queue_ok_def)
qed

lemma urls_same:
  assumes "same_look look K t r r'" "range url_key \<subseteq> K" "holds (url_cache_get E) P t r"
  shows "holds (url_cache_get E) P t r'"
proof (rule url_cache.holds_congr [OF _ assms(3)])
  fix c show "url_cache_get E t c r' = url_cache_get E t c r"
    by (rule url_get_cong) (use assms(2) in \<open>auto intro!: same_lookD [OF assms(1)]\<close>)
qed

lemma summaries_same:
  assumes "same_look look K t r r'" "range summary_key \<subseteq> K" "holds (get_cached_summary E) P t r"
  shows "holds (get_cached_summary E) P t r'"
proof (rule summaries.holds_congr [OF _ assms(3)])
  fix c
  have "look r' t (summary_key c) = look r t (summary_key c)"
    using assms(2) by (auto intro!: same_lookD [OF assms(1)])
  then show "get_cached_summary E t c r' = get_cached_summary E t c r"
    unfolding get_cached_summary_def by (simp add: get_cong [of r' t "summary_key c" r t "summary_key c"])
qed

lemma images_same:
  assumes "same_look look K t r r'" "range qr_key \<subseteq> K" "holds (qr_get E) P t r"
  shows "holds (qr_get E) P t r'"
proof (rule images.holds_congr [OF _ assms(3)])
  fix c
  have "look r' t (qr_key c) = look r t (qr_key c)"
    using assms(2) by (auto intro!: same_lookD [OF assms(1)])
  then show "qr_get E t c r' = qr_get E t c r"
    unfolding qr_get_def by (simp add: get_cong [of r' t "qr_key c" r t "qr_key c"])
qed

text \<open>An operation on links may change the link cache; the rest of Redis is as before.\<close>

lemma service_ok_links:
  assumes "service_ok_with promise E look t w" "same_look look (- url_keys) t (w_redis w) (w_redis w')"
    and "world_ok_with promise E t w'" "targets_safe (w_db w')" "counts_agree (w_db w')" "clicks_dated (w_db w')"
  shows "service_ok_with promise E look t w'"
proof -
  note ok = service_okD [OF assms(1)]
  have "range summary_key \<subseteq> - url_keys" "range qr_key \<subseteq> - url_keys" by auto
  then show ?thesis
    using assms(3-6) queue_ok_same [OF assms(2) _ ok(6)] summaries_same [OF assms(2) _ ok(7)] images_same [OF assms(2) _ ok(8)]
    by (simp add: service_ok_with_def)
qed

text \<open>The limiter leaves everything alone that the invariant speaks of.\<close>

lemma service_ok_limiter:
  assumes "service_ok_with promise E look t w" "same_look look (- rate_keys) t (w_redis w) r'"
  shows "service_ok_with promise E look t (w\<lparr>w_redis := r'\<rparr>)"
proof -
  note ok = service_okD [OF assms(1)]
  have "range url_key \<subseteq> - rate_keys" "range summary_key \<subseteq> - rate_keys" "range qr_key \<subseteq> - rate_keys" by auto
  then show ?thesis
    using ok(1,4,5,9) queue_ok_same [OF assms(2) _ ok(6)] summaries_same [OF assms(2) _ ok(7)] images_same [OF assms(2) _ ok(8)]
      urls_same [OF assms(2)]
    by (simp add: service_ok_with_def world_ok_with_def)
qed

text \<open>Operations on accounts and sessions.\<close>

lemma service_ok_accounts:
  assumes "service_ok_with promise E look t w" "auth_frame w w'" "schema_ok (w_db w')"
  shows "service_ok_with promise E look t w'"
proof -
  note ok = service_okD [OF assms(1)]
  note f = assms(2) [unfolded auth_frame_def]
  have "links_ok (w_db w')" using ok(2) assms(3) f by (simp add: links_ok_def)
  moreover have "promise (w_db w') c v" if "promise (w_db w) c v" for c v
    by (rule promise_kept [OF _ that]) (use f in \<open>simp add: links_def\<close>)
  then have "holds (url_cache_get E) (promise (w_db w')) t (w_redis w')"
    using ok(1) f by (auto simp: world_ok_with_def elim: url_cache.holds_mono)
  ultimately show ?thesis
    using assms(1) f
    by (simp add: service_ok_with_def world_ok_with_def dates_ok_def counts_agree_def click_total_def clicks_dated_def
        targets_safe_def)
qed

lemma service_ok_later:
  assumes "service_ok_with promise E look t w" "t \<le> t'"
  shows "service_ok_with promise E look t' w"
proof -
  note ok = service_okD [OF assms(1)]
  have "queue_ok E look t' (w_redis w)"
    using ok(6) assms(2) by (auto simp: queue_ok_def intro: queue.queued_later)
  then show ?thesis
    using ok assms(2) url_cache.holds_later summaries.holds_later images.holds_later
    by (auto simp: service_ok_with_def world_ok_with_def)
qed

end

section \<open>Sessions\<close>

text \<open>
  The rule for a session: a successful handler must establish the invariant, a failing one only with the
  database it started from.
\<close>

definition keeps :: "('r world \<Rightarrow> bool) \<Rightarrow> ('r, 'a) handler \<Rightarrow> 'r world \<Rightarrow> bool" where
  "keeps I h w \<longleftrightarrow> (case h w of (Inr _, w') \<Rightarrow> I w' | (Inl _, w') \<Rightarrow> I (w'\<lparr>w_db := w_db w\<rparr>))"

lemma keeps_session: "keeps I h w \<Longrightarrow> I (snd (with_session h w))"
  by (auto simp: keeps_def with_session_def split: prod.splits sum.splits)

lemma w_db_same: "w_db w' = d \<Longrightarrow> w'\<lparr>w_db := d\<rparr> = w'"
  by (cases w') simp

lemma keeps_readonly: "I w \<Longrightarrow> snd (h w) = w \<Longrightarrow> keeps I h w"
  by (cases "h w") (auto simp: keeps_def split: sum.split)

lemma keepsI:
  assumes "I (snd (h w))" "\<And>e. fst (h w) = Inl e \<Longrightarrow> w_db (snd (h w)) = w_db w"
  shows "keeps I h w"
  using assms by (cases "h w"; cases "fst (h w)") (auto simp: keeps_def w_db_same)

lemma keeps_then:
  assumes "I (snd (h w))" "w_db (snd (h w)) = w_db w"
    and "\<And>v w'. h w = (Inr v, w') \<Longrightarrow> I w' \<Longrightarrow> w_db w' = w_db w \<Longrightarrow> keeps I (k v) w'"
  shows "keeps I (and_then h k) w"
proof (cases "h w")
  case (Pair res w')
  with assms(1,2) have w': "I w'" "w_db w' = w_db w" by simp_all
  show ?thesis
  proof (cases res)
    case (Inl e)
    then show ?thesis using Pair w' by (simp add: keeps_def and_then_def w_db_same)
  next
    case (Inr v)
    then show ?thesis using assms(3) [of v w'] Pair w' by (simp add: keeps_def and_then_def split: prod.splits sum.splits)
  qed
qed

text \<open>The validations and the guards that read the database.\<close>

lemma keeps_returning: "(\<And>v. x = Inr v \<Longrightarrow> keeps I (k v) w) \<Longrightarrow> I w \<Longrightarrow> keeps I (and_then (returning x) k) w"
  by (rule keeps_then) (auto simp: returning_def)

lemma keeps_query: "keeps I (k ()) w \<Longrightarrow> I w \<Longrightarrow> keeps I (and_then (query_range lo hi n) k) w"
  unfolding query_range_def by (rule keeps_returning) auto

lemma keeps_current_user:
  "(\<And>u. get_current_user E cfg now cred (w_db w) = Inr u \<Longrightarrow> keeps I (k u) w) \<Longrightarrow> I w \<Longrightarrow>
   keeps I (and_then (current_user E cfg now cred) k) w"
  by (rule keeps_then) (auto simp: current_user_def)

lemma keeps_optional_user:
  "keeps I (k (get_optional_user E cfg now cred (w_db w))) w \<Longrightarrow> I w \<Longrightarrow>
   keeps I (and_then (optional_user E cfg now cred) k) w"
  by (rule keeps_then) (auto simp: optional_user_def)

lemma rate_guard_world:
  "w_db (snd (rate_guard E now lid identifier limit window endpoint message w)) = w_db w"
  "snd (rate_guard E now lid identifier limit window endpoint message w) =
    w\<lparr>w_redis := snd (is_allowed E now lid identifier limit window endpoint (w_redis w))\<rparr>"
  by (simp_all add: rate_guard_def split: prod.split)

lemma optional_user_in_table:
  assumes "schema_ok db" "get_optional_user E cfg now cred db = Some u"
  shows "u \<in> set (users db)"
proof -
  obtain tok where "get_current_user E cfg now (Some tok) db = Inr u"
    using assms(2) by (auto simp: get_optional_user_def split: option.splits sum.splits)
  then show ?thesis
    using get_by_id_Some [OF schema_distinct(3) [OF assms(1)]]
    by (auto simp: get_current_user_def split: option.splits sum.splits if_splits list.splits)
qed

context cached_services
begin

lemma keeps_rate_guard:
  assumes "service_ok_with promise E look now w"
    and "\<And>w'. service_ok_with promise E look now w' \<Longrightarrow> w_db w' = w_db w \<Longrightarrow> keeps (service_ok_with promise E look now) (k ()) w'"
  shows "keeps (service_ok_with promise E look now) (and_then (rate_guard E now lid identifier limit window endpoint message) k) w"
proof (rule keeps_then)
  show "service_ok_with promise E look now (snd (rate_guard E now lid identifier limit window endpoint message w))"
    unfolding rate_guard_world(2) by (rule service_ok_limiter [OF assms(1) same_limiter])
qed (auto simp: rate_guard_world intro: assms(2))

lemma create_keeps:
  assumes "service_ok_with promise E look now w" "valid_create data" "insertable cfg i owner (w_db w)"
  shows "keeps (service_ok_with promise E look now) (url_create E cfg now i rng data owner) w"
proof -
  note ok = service_okD [OF assms(1)]
  have "service_ok_with promise E look now (snd (url_create E cfg now i rng data owner w))"
  proof (rule service_ok_links [OF assms(1) same_create])
    show "world_ok_with promise E now (snd (url_create E cfg now i rng data owner w))"
      by (rule create_keeps_world_ok [OF ok(1) assms(2,3)])
    show "targets_safe (w_db (snd (url_create E cfg now i rng data owner w)))"
      using ok(9) unfolding url_create_eq [OF ok(2) assms(2,3)]
      by (simp add: targets_safe_def Let_def new_short_url_def split: sum.split)
    show "counts_agree (w_db (snd (url_create E cfg now i rng data owner w)))"
      by (rule create_keeps_counts [OF ok(2,4) assms(2,3)])
    show "clicks_dated (w_db (snd (url_create E cfg now i rng data owner w)))"
      using ok(5) unfolding url_create_eq [OF ok(2) assms(2,3)]
      by (simp add: clicks_dated_def Let_def split: sum.split)
  qed
  moreover have "w_db (snd (url_create E cfg now i rng data owner w)) = w_db w"
    if "fst (url_create E cfg now i rng data owner w) = Inl e" for e
    using that unfolding url_create_eq [OF ok(2) assms(2,3)]
    by (auto simp: Let_def split: sum.splits if_splits)
  ultimately show ?thesis by (rule keepsI)
qed

lemma update_keeps:
  assumes "service_ok_with promise E look now w" "varchar 255 (u_title data)" "datetime_in_range (u_expires_at data)"
  shows "keeps (service_ok_with promise E look now) (url_update E cfg now i data requester is_admin) w"
proof -
  note ok = service_okD [OF assms(1)]
  have "service_ok_with promise E look now (snd (url_update E cfg now i data requester is_admin w))"
  proof (rule service_ok_links [OF assms(1) same_update])
    show "world_ok_with promise E now (snd (url_update E cfg now i data requester is_admin w))"
      by (rule update_keeps_world_ok [OF ok(1) assms(2,3)])
    show "targets_safe (w_db (snd (url_update E cfg now i data requester is_admin w)))"
    proof (cases rule: get_link_by_id [OF ok(2), of i])
      case (2 s)
      then show ?thesis
        using ok(9) url_repo_update_row [OF ok(2) 2(2) assms(2), of "local_to_utc E" now]
        by (auto simp: url_update_def targets_safe_def update_short_url_def list_all_iff set_upd_where updated_row_def)
    qed (use ok(9) in \<open>simp add: url_update_def\<close>)
    show "counts_agree (w_db (snd (url_update E cfg now i data requester is_admin w)))"
      by (rule update_keeps_counts [OF ok(2,4) assms(2)])
    show "clicks_dated (w_db (snd (url_update E cfg now i data requester is_admin w)))"
    proof (cases rule: get_link_by_id [OF ok(2), of i])
      case (2 s)
      then show ?thesis
        using ok(5) url_repo_update_row [OF ok(2) 2(2) assms(2), of "local_to_utc E" now]
        by (simp add: url_update_def clicks_dated_def update_short_url_def)
    qed (use ok(5) in \<open>simp add: url_update_def\<close>)
  qed
  moreover have "w_db (snd (url_update E cfg now i data requester is_admin w)) = w_db w"
    if "fst (url_update E cfg now i data requester is_admin w) = Inl e" for e
    using that by (auto simp: url_update_def split: sum.splits option.splits if_splits prod.splits)
  ultimately show ?thesis by (rule keepsI)
qed

lemma delete_keeps:
  assumes "service_ok_with promise E look now w"
  shows "keeps (service_ok_with promise E look now) (url_delete E i requester is_admin) w"
proof -
  note ok = service_okD [OF assms]
  have "service_ok_with promise E look now (snd (url_delete E i requester is_admin w))"
  proof (rule service_ok_links [OF assms same_delete])
    show "world_ok_with promise E now (snd (url_delete E i requester is_admin w))"
      by (rule delete_keeps_world_ok [OF ok(1)])
    show "targets_safe (w_db (snd (url_delete E i requester is_admin w)))"
      using ok(9) by (auto simp: url_delete_def url_repo_delete_def delete_short_url_def targets_safe_def list_all_iff
          split: sum.split option.split)
    show "counts_agree (w_db (snd (url_delete E i requester is_admin w)))"
      by (rule delete_keeps_counts [OF ok(2,4)])
    show "clicks_dated (w_db (snd (url_delete E i requester is_admin w)))"
      using ok(5) by (auto simp: url_delete_def url_repo_delete_def delete_short_url_def clicks_dated_def list_all_iff
          split: sum.split option.split)
  qed
  moreover have "w_db (snd (url_delete E i requester is_admin w)) = w_db w"
    if "fst (url_delete E i requester is_admin w) = Inl e" for e
    using that by (auto simp: url_delete_def split: sum.splits option.splits if_splits)
  ultimately show ?thesis by (rule keepsI)
qed

end

section \<open>Every endpoint keeps the invariant\<close>

text \<open>
  What the environment guarantees about the arguments of a request: identifiers drawn by \<open>uuid4\<close> are new, and
  datetimes lie between the years 1 and 9999.
\<close>

definition aware_in_range :: "py_datetime option \<Rightarrow> bool" where
  "aware_in_range d \<longleftrightarrow> (\<forall>t. d = Some (Aware t) \<longrightarrow> 0 \<le> t \<and> t < max_instant)"

lemma validated_update: "validate_url_update b = Inr d \<Longrightarrow> d = b \<and> varchar 255 (u_title d)"
  by (simp add: validate_url_update_def split: if_splits)

lemma dated_roundtrip: "good_event E e \<Longrightarrow> \<exists>p. parse_event e = Some p \<and> 0 \<le> pc_created_at p \<and> pc_created_at p < max_instant"
  by (auto simp: good_event_def parse_event_def clicked_event_def event_to_dict_def fromiso_iso)

lemma new_clicks_dates:
  "new_clicks ids now ps = Inr rows \<Longrightarrow> map created_at rows = map pc_created_at ps"
proof (induction ps arbitrary: ids rows)
  case (Cons p ps)
  have "created_at r = pc_created_at p" if "new_click i now p = Inr r" for i r
    using that by (auto simp: new_click_def split: list.splits option.splits)
  with Cons show ?case by (auto split: sum.splits)
qed simp

lemma persist_batch_dated:
  assumes "clicks_dated db" "list_all (good_event E) es" "persist_batch ids now es db = Inr db'"
  shows "clicks_dated db'"
proof -
  let ?ps = "List.map_filter parse_event es"
  have ps: "list_all (\<lambda>p. 0 \<le> pc_created_at p \<and> pc_created_at p < max_instant) ?ps"
    using assms(2) dated_roundtrip by (fastforce simp: list_all_iff map_filter_def)
  obtain rows db1 where r: "map created_at rows = map pc_created_at ?ps" "db1 = db\<lparr>click_events := click_events db @ rows\<rparr>"
    "db' = bump_all now (counter (map pc_url_id ?ps)) db1"
  proof (cases "?ps = []")
    case True
    then show ?thesis using assms(3) that [of "[]" db] by (simp add: persist_batch_def)
  next
    case False
    then obtain rows db1 where "new_clicks ids now ?ps = Inr rows" "bulk_insert rows db = Inr db1"
      "db' = bump_all now (counter (map pc_url_id ?ps)) db1"
      using assms(3) by (auto simp: persist_batch_def Let_def split: sum.splits)
    then show ?thesis using that new_clicks_dates bulk_insert_effect by metis
  qed
  have "list_all (\<lambda>t. 0 \<le> t \<and> t < max_instant) (map created_at rows)"
    using ps unfolding r(1) by (simp add: list_all_iff)
  then show ?thesis
    using assms(1) r(2,3) bump_all_rows [OF counter_distinct, of now _ db1]
    by (simp add: clicks_dated_def list_all_iff) blast
qed

context cached_services
begin

lemma keeps_service: "keeps (service_ok_with promise E look now) h w \<Longrightarrow> service_ok_with promise E look now (snd (with_session h w))"
  by (rule keeps_session)

lemma create_url_keeps:
  assumes "service_ok_with promise E look now w" "aware_in_range (b_expires_at body)"
    and "i \<notin> row_id ` set (short_urls (w_db w))" "SHORT_CODE_LENGTH cfg \<le> 50"
  shows "service_ok_with promise E look now (snd (create_url E cfg now lid i rng req cred body w))"
  unfolding create_url_def
proof (intro keeps_service keeps_optional_user keeps_returning keeps_rate_guard)
  fix data w'
  assume d: "validate_url_create (http_url E) now body = Inr data" and w': "service_ok_with promise E look now w'" "w_db w' = w_db w"
  have "valid_create data" by (rule validated_create(1) [OF d]) (use assms(2) in \<open>simp add: aware_in_range_def\<close>)
  moreover have "insertable cfg i (map_option row_id (get_optional_user E cfg now cred (w_db w))) (w_db w')"
    using optional_user_in_table [OF service_okD(3) [OF assms(1)], of E cfg now cred] assms(3,4) w'(2)
    by (cases "get_optional_user E cfg now cred (w_db w)") (auto simp: insertable_def)
  ultimately show "keeps (service_ok_with promise E look now)
      (url_create E cfg now i rng data (map_option row_id (get_optional_user E cfg now cred (w_db w)))) w'"
    by (rule create_keeps [OF w'(1)])
qed (use assms(1) in simp_all)

lemma update_url_keeps:
  assumes "service_ok_with promise E look now w" "datetime_in_range (u_expires_at body)"
  shows "service_ok_with promise E look now (snd (update_url E cfg now cred url_id body w))"
  unfolding update_url_def
proof (intro keeps_service keeps_current_user keeps_returning)
  fix u data assume "validate_url_update body = Inr data"
  then show "keeps (service_ok_with promise E look now) (url_update E cfg now url_id data (row_id u) (role u = ''admin'')) w"
    using update_keeps [OF assms(1)] assms(2) validated_update by metis
qed (use assms(1) in simp_all)

lemma delete_url_keeps:
  "service_ok_with promise E look now w \<Longrightarrow> service_ok_with promise E look now (snd (delete_url E cfg now cred url_id w))"
  unfolding delete_url_def by (intro keeps_service keeps_current_user delete_keeps)

lemma accounts_keep:
  assumes "service_ok_with promise E look now w" "auth_frame w (snd (h w))" "schema_ok (w_db (snd (h w)))"
  shows "keeps (service_ok_with promise E look now) h w"
proof -
  have rolled_back: "auth_frame w ((snd (h w))\<lparr>w_db := w_db w\<rparr>)"
    using assms(2) by (simp add: auth_frame_def)
  show ?thesis
    using service_ok_accounts [OF assms] service_ok_accounts [OF assms(1) rolled_back] service_okD(3) [OF assms(1)]
    by (auto simp: keeps_def split: prod.split sum.split)
qed

lemma register_user_keeps:
  assumes "service_ok_with promise E look now w"
  shows "service_ok_with promise E look now (snd (register_user E now lid i salt req body w))"
  unfolding register_user_def
proof (intro keeps_service keeps_returning keeps_rate_guard)
  fix data w' assume w': "service_ok_with promise E look now w'"
  let ?h = "and_then (register E now i salt data) (\<lambda>u. returning (Inr (user_to_response u)))"
  have "snd (?h w') = snd (register E now i salt data w')"
    by (simp add: and_then_def returning_def split: prod.split sum.split)
  then show "keeps (service_ok_with promise E look now) ?h w'"
    using register_keeps_schema [OF service_okD(3) [OF w']] auth_operations_frame(1)
    by (intro accounts_keep [OF w']) simp_all
qed (use assms in simp_all)

lemma login_user_keeps:
  "service_ok_with promise E look now w \<Longrightarrow> service_ok_with promise E look now (snd (login_user E cfg now lid i req body w))"
  unfolding login_user_def
  by (intro keeps_service keeps_returning keeps_rate_guard accounts_keep auth_operations_frame login_keeps_schema service_okD(3))

lemma refresh_session_keeps:
  "service_ok_with promise E look now w \<Longrightarrow> service_ok_with promise E look now (snd (refresh_session E cfg now i raw w))"
  unfolding refresh_session_def
  by (intro keeps_service accounts_keep auth_operations_frame refresh_keeps_schema service_okD(3))

lemma logout_session_keeps:
  "service_ok_with promise E look now w \<Longrightarrow> service_ok_with promise E look now (snd (logout_session E now raw w))"
  unfolding logout_session_def
  by (intro keeps_service accounts_keep auth_operations_frame logout_keeps_schema service_okD(3))

lemma list_urls_keeps:
  "service_ok_with promise E look now w \<Longrightarrow> service_ok_with promise E look now (snd (list_urls E cfg now rank cred page_no sz w))"
  unfolding list_urls_def
  by (intro keeps_service keeps_current_user keeps_returning keeps_query keeps_readonly)
    (simp_all add: list_by_owner_def split: prod.split)

lemma get_url_keeps:
  "service_ok_with promise E look now w \<Longrightarrow> service_ok_with promise E look now (snd (get_url E cfg now cred url_id w))"
  unfolding get_url_def
  by (intro keeps_service keeps_optional_user keeps_readonly)
    (simp_all add: url_get_by_id_def split: sum.split option.split)

lemma me_keeps: "service_ok_with promise E look now w \<Longrightarrow> service_ok_with promise E look now (snd (me E cfg now cred w))"
  unfolding me_def
  by (intro keeps_service keeps_current_user keeps_readonly) (simp_all add: returning_def)

end

section \<open>Summaries, images, redirects and the worker\<close>

context cached_services
begin

lemma get_summary_result:
  assumes "service_ok_with promise E look now w"
  shows "service_ok_with promise E look now (snd (get_summary E cfg now c days w))"
    and "w_db (snd (get_summary E cfg now c days w)) = w_db w"
    and "(\<exists>s. fst (get_summary E cfg now c days w) = Inr s \<and> s_short_code s = c) \<or>
      (links (w_db w) c = None \<and> fst (get_summary E cfg now c days w) = Inl (App (NotFoundError ''Short URL'')))"
proof -
  note ok = service_okD [OF assms]
  have all: "service_ok_with promise E look now (snd (get_summary E cfg now c days w)) \<and>
    w_db (snd (get_summary E cfg now c days w)) = w_db w \<and>
    ((\<exists>s. fst (get_summary E cfg now c days w) = Inr s \<and> s_short_code s = c) \<or>
      (links (w_db w) c = None \<and> fst (get_summary E cfg now c days w) = Inl (App (NotFoundError ''Short URL''))))"
  proof (rule summaries.holdsE [OF ok(7), of c])
    fix v assume "get_cached_summary E now c (w_redis w) = Inr (Some v)" "cached_summary E c v"
    then show ?thesis using get_summary_hit [of now c w _ days] assms by (auto simp: cached_summary_def)
  next
    assume miss: "get_cached_summary E now c (w_redis w) = Inr None"
    note fresh = get_summary_fresh [OF ok(2) miss, of cfg days]
    show ?thesis
    proof (cases "links (w_db w) c")
      case None
      then show ?thesis using fresh assms by simp
    next
      case (Some url)
      let ?s = "compute_summary now c days url (w_db w)"
      have "cached_summary E c (summary_dump E ?s)"
        using compute_summary_dates [of "w_db w"] ok(5)
        by (auto simp: cached_summary_def clicks_dated_def) (auto simp: compute_summary_def Let_def)
      then have "holds (get_cached_summary E) (cached_summary E) now (set_cached_summary E cfg now c (summary_dump E ?s) (w_redis w))"
        by (intro summaries.holds_put ok(7)) (simp_all add: summary_dump_wf)
      moreover note same_summary_set [of now "w_redis w" c "summary_dump E ?s"]
      moreover have "range url_key \<subseteq> - range summary_key" "range qr_key \<subseteq> - range summary_key" "queue_key \<in> - range summary_key"
        by auto
      ultimately have "service_ok_with promise E look now (w\<lparr>w_redis := set_cached_summary E cfg now c (summary_dump E ?s) (w_redis w)\<rparr>)"
        using ok queue_ok_same images_same urls_same by (auto simp: service_ok_with_def world_ok_with_def)
      then show ?thesis using fresh Some by (auto simp: Let_def compute_summary_def)
    qed
  qed
  from all show "service_ok_with promise E look now (snd (get_summary E cfg now c days w))"
    "w_db (snd (get_summary E cfg now c days w)) = w_db w"
    "(\<exists>s. fst (get_summary E cfg now c days w) = Inr s \<and> s_short_code s = c) \<or>
      (links (w_db w) c = None \<and> fst (get_summary E cfg now c days w) = Inl (App (NotFoundError ''Short URL'')))"
    by blast+
qed

lemma get_analytics_summary_keeps:
  "service_ok_with promise E look now w \<Longrightarrow> service_ok_with promise E look now (snd (get_analytics_summary E cfg now cred c days w))"
  unfolding get_analytics_summary_def
  by (intro keeps_service keeps_current_user keeps_query keepsI get_summary_result)

lemma get_or_generate_result:
  assumes "service_ok_with promise E look now w" "\<And>s. s \<noteq> [] \<Longrightarrow> render_png E s \<noteq> []"
  shows "service_ok_with promise E look now (snd (get_or_generate E cfg now c w))"
    and "w_db (snd (get_or_generate E cfg now c w)) = w_db w"
    and "fst (get_or_generate E cfg now c w) \<noteq> Inl e \<or> e = App (NotFoundError ''Short URL'')"
proof -
  note ok = service_okD [OF assms(1)]
  have all: "service_ok_with promise E look now (snd (get_or_generate E cfg now c w)) \<and>
    w_db (snd (get_or_generate E cfg now c w)) = w_db w \<and>
    (fst (get_or_generate E cfg now c w) \<noteq> Inl e \<or> e = App (NotFoundError ''Short URL''))"
  proof (rule images.holdsE [OF ok(8), of c])
    fix v assume "qr_get E now c (w_redis w) = Inr (Some v)"
    then show ?thesis using assms(1) by (simp add: get_or_generate_def)
  next
    assume miss: "qr_get E now c (w_redis w) = Inr None"
    show ?thesis
    proof (cases "links (w_db w) c")
      case None
      then show ?thesis using miss assms(1) by (simp add: get_or_generate_def link.by_code_link [OF ok(2)])
    next
      case (Some url)
      let ?png = "render_png E (qr_target cfg url)"
      have "holds (qr_get E) (\<lambda>_ _. True) now (qr_put E cfg now c ?png (w_redis w))"
        by (intro images.holds_put ok(8) assms(2)) (simp_all add: qr_target_def)
      moreover note same_qr_put [of now "w_redis w" c ?png]
      moreover have "range url_key \<subseteq> - range qr_key" "range summary_key \<subseteq> - range qr_key" "queue_key \<in> - range qr_key"
        by auto
      ultimately have "service_ok_with promise E look now (w\<lparr>w_redis := qr_put E cfg now c ?png (w_redis w)\<rparr>)"
        using ok queue_ok_same summaries_same urls_same by (auto simp: service_ok_with_def world_ok_with_def)
      then show ?thesis using miss Some by (simp add: get_or_generate_def link.by_code_link [OF ok(2)] Let_def)
    qed
  qed
  from all show "service_ok_with promise E look now (snd (get_or_generate E cfg now c w))"
    "w_db (snd (get_or_generate E cfg now c w)) = w_db w"
    "fst (get_or_generate E cfg now c w) \<noteq> Inl e \<or> e = App (NotFoundError ''Short URL'')"
    by blast+
qed

lemma get_qr_code_keeps:
  "service_ok_with promise E look now w \<Longrightarrow> (\<And>s. s \<noteq> [] \<Longrightarrow> render_png E s \<noteq> []) \<Longrightarrow> service_ok_with promise E look now (snd (get_qr_code E cfg now c w))"
  unfolding get_qr_code_def by (intro keeps_service keepsI get_or_generate_result)

end

text \<open>Every contract of the environment gives both forms of the invariant.\<close>

sublocale services \<subseteq> agree: cached_services E look cfg cached_link
  by unfold_locales

sublocale services \<subseteq> former: cached_services E look cfg "\<lambda>db c v. row_payload v"
  by unfold_locales

context services
begin

lemmas cached_services_agree = agree.cached_services_axioms
lemmas cached_services_former = former.cached_services_axioms

lemma redirect_keeps:
  assumes "service_ok E look now w" "0 \<le> now" "now < max_instant"
  shows "service_ok E look now (snd (redirect E cfg now req c w))"
proof -
  note ok = service_okD [OF assms(1)] and world = service_okD(1) [OF assms(1), unfolded world_ok_with_cached]
  let ?w' = "snd (redirect E cfg now req c w)"
  have "?w' = w \<or> (\<exists>hit s. w_redis ?w' = run_tasks E cfg now
      (resolve_tasks hit c s (redirect_ip req) (h_user_agent req) (h_referer req)) (w_redis w))"
  proof (cases "c \<in> set reserved_paths")
    case False
    then show ?thesis
      using redirect_world_ok_eq [OF world, of c cfg req] by (auto simp: Let_def split: option.splits)
  qed (simp add: redirect_def)
  then show ?thesis
  proof
    assume "\<exists>hit s. w_redis ?w' = run_tasks E cfg now
      (resolve_tasks hit c s (redirect_ip req) (h_user_agent req) (h_referer req)) (w_redis w)"
    then obtain hit s where r: "w_redis ?w' = run_tasks E cfg now
      (resolve_tasks hit c s (redirect_ip req) (h_user_agent req) (h_referer req)) (w_redis w)" by blast
    obtain es where es: "events_queued (w_redis w) now es" "list_all (good_event E) es"
      using ok(6) by (auto simp: queue_ok_def)
    have "good_event E (clicked_event E now (row_id s) (redirect_ip req) (h_user_agent req) (h_referer req))"
      unfolding good_event_def using assms(2,3) by blast
    then have "queue_ok E look now (w_redis ?w')"
      using tasks_queue [OF es(1)] es(2) unfolding queue_ok_def r by (intro exI conjI) (assumption | simp)+
    moreover note same = same_tasks [of now "w_redis w" hit c s "redirect_ip req" "h_user_agent req" "h_referer req", folded r]
    have "range summary_key \<subseteq> - (url_keys \<union> {queue_key})" "range qr_key \<subseteq> - (url_keys \<union> {queue_key})" by auto
    then have "holds (get_cached_summary E) (cached_summary E) now (w_redis ?w')" "holds (qr_get E) (\<lambda>_ _. True) now (w_redis ?w')"
      using agree.summaries_same [OF same _ ok(7)] agree.images_same [OF same _ ok(8)] by auto
    ultimately show ?thesis
      using redirect_keeps_world_ok [OF world, of req c] ok(4,5,9) by (simp add: service_ok_with_def world_ok_with_cached)
  qed (use assms(1) in simp)
qed

end

context cached_services
begin

lemma pop_keeps:
  assumes "service_ok_with promise E look now w" "0 < ANALYTICS_BATCH_SIZE cfg"
  shows "service_ok_with promise E look now (snd (flush_pop E cfg now w))"
    and "\<exists>es. fst (flush_pop E cfg now w) = Inr es \<and> list_all (good_event E) es"
proof -
  note ok = service_okD [OF assms(1)]
  let ?n = "nat (ANALYTICS_BATCH_SIZE cfg)"
  obtain es where es: "events_queued (w_redis w) now es" "list_all (good_event E) es"
    using ok(6) by (auto simp: queue_ok_def)
  have good: "list_all (good_event E) (take ?n es)" "list_all (good_event E) (drop ?n es)"
    using es(2) by (metis append_take_drop_id list_all_append)+
  note pop = pop_queue [OF es(1) assms(2)]
  show "\<exists>es. fst (flush_pop E cfg now w) = Inr es \<and> list_all (good_event E) es" using pop(1) good(1) by blast
  have "queue_ok E look now (w_redis (snd (flush_pop E cfg now w)))" using pop(2) good(2) by (auto simp: queue_ok_def)
  moreover have "range summary_key \<subseteq> - {queue_key}" "range qr_key \<subseteq> - {queue_key}" by auto
  ultimately show "service_ok_with promise E look now (snd (flush_pop E cfg now w))"
    using ok(4,5,9) pop_world_ok [OF ok(1)] summaries_same [OF same_pop _ ok(7)] images_same [OF same_pop _ ok(8)]
    by (simp add: service_ok_with_def)
qed

lemma flush_keeps:
  assumes "service_ok_with promise E look now w" "0 < ANALYTICS_BATCH_SIZE cfg"
  shows "service_ok_with promise E look now (snd (flush E cfg now ids w))"
proof -
  note pop = pop_keeps [OF assms]
  note ok = service_okD [OF pop(1)]
  show ?thesis
  proof (cases rule: flush_cases [of E cfg now ids w])
    case (persisted events db')
    let ?w1 = "snd (flush_pop E cfg now w)"
    have p: "persist_batch ids now events (w_db ?w1) = Inr db'" using persisted(2) by simp
    have "list_all (good_event E) events" using pop(2) persisted(1) by auto
    then have "clicks_dated db'" by (rule persist_batch_dated [OF ok(5) _ p])
    moreover have "world_ok_with promise E now (?w1\<lparr>w_db := db'\<rparr>)" by (rule persist_world_ok [OF ok(1) p])
    moreover have "counts_agree db'" by (rule persist_batch_counts [OF ok(4) p])
    moreover have "targets_safe db'" by (rule persist_targets [OF ok(9)]) (use p in simp)
    ultimately show ?thesis using persisted(3) ok by (simp add: service_ok_with_def)
  qed (use pop in simp_all)
qed

lemma stop_worker_keeps:
  assumes "service_ok_with promise E look now w" "0 < ANALYTICS_BATCH_SIZE cfg"
  shows "service_ok_with promise E look now (snd (snd (stop_worker E cfg now ids in_flush s w)))"
  using assms pop_keeps(1) [OF assms] flush_keeps [OF _ assms(2)]
  by (auto simp: stop_worker_def Let_def case_prod_beta split: worker.split)

end

end
