(* ===== verification/System.thy ===== *)
theory System
  imports Invariants
begin

text \<open>
  The running service as a transition system: requests of every endpoint, in any order and with any arguments,
  the iterations of the background worker, its start and stop, and the passing of time.  A request is one step,
  its background tasks included; \<open>Interleaving\<close> lets these tasks and the two halves of a flush run between the
  steps of others.
\<close>

section \<open>The routes\<close>

datatype api_call =
    CreateUrl uuid uuid "nat \<Rightarrow> nat \<Rightarrow> nat" request "pystr option" url_create_body
  | ListUrls "uuid \<Rightarrow> nat" "pystr option" int int
  | GetUrl "pystr option" uuid
  | UpdateUrl "pystr option" uuid url_update_request
  | DeleteUrl "pystr option" uuid
  | RegisterUser uuid uuid nat request register_request
  | LoginUser uuid uuid request login_request
  | RefreshSession uuid pystr
  | LogoutSession pystr
  | Me "pystr option"
  | AnalyticsSummary "pystr option" pystr int
  | QrCode pystr
  | RootPage
  | Follow request pystr

definition respond :: "nat \<Rightarrow> 'a result \<times> 'r world \<Rightarrow> nat \<times> 'r world" where
  "respond ok r = (http_status ok (fst r), snd r)"

fun serve :: "('r, 'x) ext_scheme \<Rightarrow> settings \<Rightarrow> instant \<Rightarrow> api_call \<Rightarrow> 'r world \<Rightarrow> nat \<times> 'r world" where
  "serve E cfg now (CreateUrl lid i rng req cred body) w = respond 201 (create_url E cfg now lid i rng req cred body w)"
| "serve E cfg now (ListUrls rank cred page_no sz) w = respond 200 (list_urls E cfg now rank cred page_no sz w)"
| "serve E cfg now (GetUrl cred url_id) w = respond 200 (get_url E cfg now cred url_id w)"
| "serve E cfg now (UpdateUrl cred url_id body) w = respond 200 (update_url E cfg now cred url_id body w)"
| "serve E cfg now (DeleteUrl cred url_id) w = respond 204 (delete_url E cfg now cred url_id w)"
| "serve E cfg now (RegisterUser lid i salt req body) w = respond 201 (register_user E now lid i salt req body w)"
| "serve E cfg now (LoginUser lid i req body) w = respond 200 (login_user E cfg now lid i req body w)"
| "serve E cfg now (RefreshSession i raw) w = respond 200 (refresh_session E cfg now i raw w)"
| "serve E cfg now (LogoutSession raw) w = respond 204 (logout_session E now raw w)"
| "serve E cfg now (Me cred) w = respond 200 (me E cfg now cred w)"
| "serve E cfg now (AnalyticsSummary cred c days) w = respond 200 (get_analytics_summary E cfg now cred c days w)"
| "serve E cfg now (QrCode c) w = respond 200 (get_qr_code E cfg now c w)"
| "serve E cfg now RootPage w = (307, w)"
| "serve E cfg now (Follow req c) w = respond 302 (redirect E cfg now req c w)"

text \<open>What the environment guarantees about a request: new identifiers and datetimes in Python's range.\<close>

fun call_ok :: "database \<Rightarrow> api_call \<Rightarrow> bool" where
  "call_ok db (CreateUrl lid i rng req cred body) \<longleftrightarrow>
     aware_in_range (b_expires_at body) \<and> i \<notin> row_id ` set (short_urls db)"
| "call_ok db (UpdateUrl cred url_id body) \<longleftrightarrow> datetime_in_range (u_expires_at body)"
| "call_ok db _ \<longleftrightarrow> True"

section \<open>Steps and reachable states\<close>

type_synonym 'r state = "instant \<times> worker \<times> 'r world"

inductive step :: "('r, 'x) ext_scheme \<Rightarrow> settings \<Rightarrow> 'r state \<Rightarrow> 'r state \<Rightarrow> bool" for E cfg where
  tick: "t \<le> t' \<Longrightarrow> t' < max_instant \<Longrightarrow> step E cfg (t, s, w) (t', s, w)"
| request: "call_ok (w_db w) c \<Longrightarrow> step E cfg (t, s, w) (t, s, snd (serve E cfg t c w))"
| start: "step E cfg (t, s, w) (t, start_worker s, w)"
| iterate: "step E cfg (t, Running, w) (t, Running, run_iteration E cfg t ids w)"
| stop: "stop_worker E cfg t ids in_flush s w = (res, s', w') \<Longrightarrow> step E cfg (t, s, w) (t, s', w')"

inductive reach ::
  "('r, 'x) ext_scheme \<Rightarrow> ('r \<Rightarrow> instant \<Rightarrow> pystr \<Rightarrow> redis_value option) \<Rightarrow> settings \<Rightarrow> 'r state \<Rightarrow> bool"
  for E look cfg where
  empty: "0 \<le> t \<Longrightarrow> t < max_instant \<Longrightarrow> (\<And>u k. look r u k = None) \<Longrightarrow>
    reach E look cfg (t, Stopped, \<lparr>w_db = empty_database, w_redis = r\<rparr>)"
| further: "reach E look cfg x \<Longrightarrow> step E cfg x y \<Longrightarrow> reach E look cfg y"

text \<open>The deployment: settings in range, and images with at least one byte.\<close>

definition deployment ::
  "('r, 'x) ext_scheme \<Rightarrow> ('r \<Rightarrow> instant \<Rightarrow> pystr \<Rightarrow> redis_value option) \<Rightarrow> settings \<Rightarrow> bool" where
  "deployment E look cfg \<longleftrightarrow> services E look cfg \<and> SHORT_CODE_LENGTH cfg \<le> 50 \<and> 0 < ANALYTICS_BATCH_SIZE cfg \<and>
     (\<forall>s. s \<noteq> [] \<longrightarrow> render_png E s \<noteq> [])"

lemma deploymentD:
  assumes "deployment E look cfg"
  shows "services E look cfg" "SHORT_CODE_LENGTH cfg \<le> 50" "0 < ANALYTICS_BATCH_SIZE cfg"
    "s \<noteq> [] \<Longrightarrow> render_png E s \<noteq> []"
  using assms by (auto simp: deployment_def)

text \<open>Requests other than redirects keep either form of the invariant.\<close>

lemma serve_keeps_with:
  assumes "deployment E look cfg" "cached_services E look cfg promise" "service_ok_with promise E look now w"
    and "call_ok (w_db w) c" "\<And>req sc. c \<noteq> Follow req sc"
  shows "service_ok_with promise E look now (snd (serve E cfg now c w))"
proof -
  note d = deploymentD [OF assms(1)] and c = assms(2)
  note keep = cached_services.create_url_keeps [OF c assms(3) _ _ d(2)] cached_services.list_urls_keeps [OF c assms(3)]
    cached_services.get_url_keeps [OF c assms(3)] cached_services.update_url_keeps [OF c assms(3)]
    cached_services.delete_url_keeps [OF c assms(3)] cached_services.register_user_keeps [OF c assms(3)]
    cached_services.login_user_keeps [OF c assms(3)] cached_services.refresh_session_keeps [OF c assms(3)]
    cached_services.logout_session_keeps [OF c assms(3)] cached_services.me_keeps [OF c assms(3)]
    cached_services.get_analytics_summary_keeps [OF c assms(3)] cached_services.get_qr_code_keeps [OF c assms(3) d(4)]
  show ?thesis using assms(3-5) by (cases c) (simp_all add: respond_def keep, blast)
qed

lemma serve_keeps:
  assumes "deployment E look cfg" "service_ok E look now w" "0 \<le> now" "now < max_instant" "call_ok (w_db w) c"
  shows "service_ok E look now (snd (serve E cfg now c w))"
proof (cases "\<exists>req sc. c = Follow req sc")
  case True
  then show ?thesis using services.redirect_keeps [OF deploymentD(1) [OF assms(1)] assms(2-4)] by (auto simp: respond_def)
next
  case False
  then show ?thesis
    using serve_keeps_with [OF assms(1) services.cached_services_agree [OF deploymentD(1) [OF assms(1)]] assms(2,5)] by blast
qed

context cached_services
begin

lemma empty_service_ok:
  assumes "\<And>u k. look r u k = None"
  shows "service_ok_with promise E look t \<lparr>w_db = empty_database, w_redis = r\<rparr>"
proof -
  have "events_queued r t []" using assms by (simp add: events_queued_def wrap_list_def)
  then have "queue_ok E look t r" by (auto simp: queue_ok_def)
  moreover have "url_cache_get E t c r = Inr None" "get_cached_summary E t c r = Inr None" "qr_get E t c r = Inr None" for c
    using assms by (simp_all add: url_get_miss get_cached_summary_def qr_get_def get_miss)
  ultimately show ?thesis
    by (simp add: service_ok_with_def world_ok_with_def holds_def empty_links_ok dates_ok_def counts_agree_def clicks_dated_def
        targets_safe_def)
      (simp add: empty_database_def)
qed

end

lemma service_ok_world: "service_ok E look t w \<Longrightarrow> world_ok E t w"
  using service_okD(1) [of cached_link E look t w] by (simp add: world_ok_with_cached)

lemma step_keeps:
  assumes "deployment E look cfg" "step E cfg (t, s, w) (t', s', w')" "service_ok E look t w" "0 \<le> t" "t < max_instant"
  shows "service_ok E look t' w' \<and> 0 \<le> t' \<and> t' < max_instant"
  using assms(2)
proof (cases rule: step.cases)
  case tick
  then show ?thesis using cached_services.service_ok_later [OF services.cached_services_agree [OF deploymentD(1) [OF assms(1)]] assms(3)] assms(4,5) by simp
next
  case (request c)
  then show ?thesis using serve_keeps [OF assms(1,3-5)] assms(4,5) by simp
next
  case start
  then show ?thesis using assms(3-5) by simp
next
  case (iterate ids)
  then show ?thesis
    using cached_services.flush_keeps [OF services.cached_services_agree [OF deploymentD(1) [OF assms(1)]] assms(3) deploymentD(3) [OF assms(1)]] assms(4,5)
    by (simp add: run_iteration_def)
next
  case (stop ids in_flush res)
  then show ?thesis
    using cached_services.stop_worker_keeps [OF services.cached_services_agree [OF deploymentD(1) [OF assms(1)]] assms(3) deploymentD(3) [OF assms(1)],
        of ids in_flush s] assms(4,5)
    by simp
qed

lemma reach_service_ok:
  assumes "reach E look cfg x" "deployment E look cfg"
  shows "service_ok E look (fst x) (snd (snd x)) \<and> 0 \<le> fst x \<and> fst x < max_instant"
  using assms(1)
proof (induction rule: reach.induct)
  case (empty t r)
  then show ?case
    using cached_services.empty_service_ok [OF services.cached_services_agree [OF deploymentD(1) [OF assms(2)]]] by simp
next
  case (further x y)
  then show ?case using step_keeps [OF assms(2)] by (cases x; cases y) auto
qed

section \<open>From a created link to its redirect\<close>

lemma create_url_success:
  assumes "create_url E cfg now lid i rng req cred body w = (Inr r, w1)"
  obtains data w0 where "validate_url_create (http_url E) now body = Inr data" "w_db w0 = w_db w"
    "\<exists>ip limit. w_redis w0 = snd (is_allowed E now lid ip limit 3600 ''create_url'' (w_redis w))"
    "url_create E cfg now i rng data (map_option row_id (get_optional_user E cfg now cred (w_db w))) w0 = (Inr r, w1)"
proof -
  let ?g = "rate_guard E now lid (case get_optional_user E cfg now cred (w_db w) of Some u \<Rightarrow> str_uuid (row_id u) | None \<Rightarrow> client_ip req)
      (if get_optional_user E cfg now cred (w_db w) \<noteq> None then 100 else 10) 3600 ''create_url'' ''URL creation rate limit exceeded'' w"
  obtain data where "validate_url_create (http_url E) now body = Inr data"
    "url_create E cfg now i rng data (map_option row_id (get_optional_user E cfg now cred (w_db w))) (snd ?g) = (Inr r, w1)"
    using assms
    by (auto simp: create_url_def with_session_def and_then_def optional_user_def returning_def split: prod.splits sum.splits)
  moreover have "\<exists>ip limit. w_redis (snd ?g) = snd (is_allowed E now lid ip limit 3600 ''create_url'' (w_redis w))"
    unfolding rate_guard_world by (intro exI) simp
  ultimately show ?thesis by (intro that [of data "snd ?g"] rate_guard_db)
qed

lemma created_link:
  assumes "deployment E look cfg" "service_ok E look now w" "call_ok (w_db w) (CreateUrl lid i rng req cred body)"
    and "create_url E cfg now lid i rng req cred body w = (Inr r, w1)"
  obtains s where "links (w_db w1) (r_short_code r) = Some s" "is_active s" "expires_at s = r_expires_at r"
    "original_url s = r_original_url r"
proof -
  note d = deploymentD [OF assms(1)] and ok = service_okD [OF assms(2)]
  let ?owner = "map_option row_id (get_optional_user E cfg now cred (w_db w))"
  obtain data w0 where data: "validate_url_create (http_url E) now body = Inr data" and db: "w_db w0 = w_db w"
    and new: "url_create E cfg now i rng data ?owner w0 = (Inr r, w1)"
    using create_url_success [OF assms(4)] by blast
  have valid: "valid_create data"
    by (rule validated_create(1) [OF data]) (use assms(3) in \<open>simp add: aware_in_range_def\<close>)
  have ins: "insertable cfg i ?owner (w_db w0)"
    using optional_user_in_table [OF ok(3), of E cfg now cred] assms(3) d(2) db
    by (cases "get_optional_user E cfg now cred (w_db w)") (auto simp: insertable_def)
  have links0: "links_ok (w_db w0)" using ok(2) db by simp
  obtain sc where sc: "is_safe_url (c_original_url data)" "choose_code cfg rng (w_db w0) (c_custom_alias data) = Inr sc"
    using new url_create_eq [OF links0 valid ins, of E now rng] by (auto split: if_splits sum.splits)
  define s where "s = new_short_url i now (c_original_url data) sc (c_custom_alias data) (c_title data) ?owner
      (c_is_public data) (c_expires_at data)"
  have "r = to_response cfg s" "links (w_db w1) sc = Some s"
    using choose_code_links(1) [OF links0 valid ins sc(1,2) s_def, of E] choose_code_links(2) [OF links0 valid ins sc(1,2) s_def, of sc] new
    by auto
  then show ?thesis using that [of s] by (simp add: s_def to_response_def new_short_url_def)
qed

lemma all_parsed: "list_all (good_event E) es \<Longrightarrow> length (List.map_filter parse_event es) = length es"
proof (induction es)
  case (Cons e es)
  then obtain p where "parse_event e = Some p" using dated_roundtrip [of E e] by auto
  with Cons show ?case by (simp add: map_filter_simps)
qed (simp add: map_filter_simps)

section \<open>A small deployment\<close>

lemma sample_deployment: "deployment sample_env store_look default_settings"
  using sample.services_axioms by (simp add: deployment_def sample_env_simps) (simp add: default_settings_def)

lemma empty_reached: "reach sample_env store_look default_settings (5, Stopped, empty_world)"
  using reach.empty [of 5 store_look "\<lambda>_. None" sample_env default_settings]
  by (simp add: empty_world_def max_instant_def usec_def store_look_def)

definition sample_body :: url_create_body where
  "sample_body = \<lparr>b_original_url = ''https://example.com/'', b_custom_alias = Some ''my-link'', b_title = None,
     b_expires_at = None, b_is_public = True\<rparr>"

definition sample_created :: "(url_response result \<times> keyspace world)" where
  "sample_created = create_url sample_env default_settings 5 9 1 (\<lambda>i j. j) sample_request None sample_body empty_world"

lemma sample_call_ok: "call_ok (w_db empty_world) (CreateUrl 9 1 (\<lambda>i j. j) sample_request None sample_body)"
  by (simp add: aware_in_range_def sample_body_def empty_world_def empty_database_def)

lemma sample_create_effect:
  assumes "w_db w0 = empty_database"
  shows "url_create sample_env default_settings 5 1 (\<lambda>i j. j) sample_create None w0 =
      (Inr (to_response default_settings (new_short_url 1 5 ''https://example.com/'' ''my-link'' (Some ''my-link'') None None True None)),
       w0\<lparr>w_db := empty_database\<lparr>short_urls :=
          [new_short_url 1 5 ''https://example.com/'' ''my-link'' (Some ''my-link'') None None True None]\<rparr>,
         w_redis := url_cache_set sample_env default_settings 5 ''my-link'' (serialize
          (new_short_url 1 5 ''https://example.com/'' ''my-link'' (Some ''my-link'') None None True None)) None (w_redis w0)\<rparr>)"
proof -
  have ins: "insertable default_settings 1 None (w_db w0)" "links_ok (w_db w0)"
    by (simp_all add: assms empty_insertable empty_links_ok)
  have code: "choose_code default_settings (\<lambda>i j. j) empty_database (Some ''my-link'') = Inr ''my-link''"
    by (simp add: choose_code_def empty_database_def links_def)
  have none: "short_urls empty_database = []" by (simp add: empty_database_def)
  show ?thesis
    using url_create_eq [OF ins(2) sample_create_valid ins(1), of sample_env 5 "\<lambda>i j. j"] sample_create_safe code
    by (simp add: assms none) (simp add: sample_create_def Let_def assms none)
qed

lemma sample_created_answer:
  "fst sample_created = Inr (to_response default_settings
     (new_short_url 1 5 ''https://example.com/'' ''my-link'' (Some ''my-link'') None None True None))"
  and sample_created_world: "w_db (snd sample_created) = empty_database\<lparr>short_urls :=
     [new_short_url 1 5 ''https://example.com/'' ''my-link'' (Some ''my-link'') None None True None]\<rparr>"
proof -
  have valid: "validate_url_create (http_url sample_env) 5 sample_body = Inr sample_create"
    using sample_create_valid
    by (simp add: validate_url_create_def sample_body_def sample_create_def expiry_must_be_future_def sample_env_simps
        valid_create_def)
  let ?g = "rate_guard sample_env 5 9 (client_ip sample_request) 10 3600 ''create_url'' ''URL creation rate limit exceeded''"
  have empty: "redis_server.represents store_look (\<lambda>_. 3600) 5 {} [] (w_redis empty_world)"
    by (rule redis_server.represents_empty [OF sample.redis_server_axioms]) (simp add: empty_world_def)
  have allowed: "fst (?g empty_world) = Inr ()"
    using rate_guard_answer [OF sample.redis_server_axioms empty order_refl, where ip = "client_ip sample_request" and ep = "''create_url''"
        and window = 3600 and lid = 9 and limit = 10]
    by (simp add: recent_def)
  have db: "w_db (snd (?g empty_world)) = empty_database" by (simp add: rate_guard_db) (simp add: empty_world_def)
  have e: "sample_created = url_create sample_env default_settings 5 1 (\<lambda>i j. j) sample_create None (snd (?g empty_world))"
    using allowed
    by (cases "?g empty_world") (use sample_create_effect [OF db] in \<open>simp add: sample_created_def create_url_def with_session_def and_then_def optional_user_def
        returning_def get_optional_user_def valid\<close>)
  show "fst sample_created = Inr (to_response default_settings
     (new_short_url 1 5 ''https://example.com/'' ''my-link'' (Some ''my-link'') None None True None))"
    "w_db (snd sample_created) = empty_database\<lparr>short_urls :=
       [new_short_url 1 5 ''https://example.com/'' ''my-link'' (Some ''my-link'') None None True None]\<rparr>"
    unfolding e sample_create_effect [OF db] by simp_all
qed

lemma sample_created_eq:
  "create_url sample_env default_settings 5 9 1 (\<lambda>i j. j) sample_request None sample_body empty_world =
    (Inr (to_response default_settings (new_short_url 1 5 ''https://example.com/'' ''my-link'' (Some ''my-link'') None None True None)),
     snd sample_created)"
  using sample_created_answer by (simp add: sample_created_def prod_eq_iff)

lemma sample_created_row:
  "links (w_db (snd sample_created)) ''my-link'' =
     Some (new_short_url 1 5 ''https://example.com/'' ''my-link'' (Some ''my-link'') None None True None)"
  "click_events (w_db (snd sample_created)) = []"
  using sample_created_world by (simp_all add: links_def empty_database_def new_short_url_def)

lemma created_reached: "reach sample_env store_look default_settings (5, Stopped, snd sample_created)"
  using reach.further [OF empty_reached step.request [OF sample_call_ok]]
  by (simp add: respond_def sample_created_def)

definition sample_click :: json where
  "sample_click = clicked_event sample_env 5 1 (Some ''203.0.113.9'') (Some ''UA'') None"

definition sample_clicked :: "keyspace world" where
  "sample_clicked = snd (redirect sample_env default_settings 5 sample_request ''my-link'' (snd sample_created))"

lemma created_queue: "sample.events_queued (w_redis (snd sample_created)) 5 []"
proof -
  have none: "sample.events_queued (w_redis empty_world) 5 []"
    by (simp add: sample.events_queued_def empty_world_def wrap_list_def)
  obtain data w0 ip limit where w0: "w_redis w0 = snd (is_allowed sample_env 5 9 ip limit 3600 ''create_url'' (w_redis empty_world))"
    and new: "url_create sample_env default_settings 5 1 (\<lambda>i j. j) data
      (map_option row_id (get_optional_user sample_env default_settings 5 None (w_db empty_world))) w0 =
      (Inr (to_response default_settings (new_short_url 1 5 ''https://example.com/'' ''my-link'' (Some ''my-link'') None None True None)),
       snd sample_created)"
    using create_url_success [OF sample_created_eq] by metis
  have "sample.events_queued (w_redis w0) 5 []"
    unfolding w0 using same_lookD [OF services.same_limiter [OF sample.services_axioms]] by (intro sample.queued_frame [OF none]) auto
  then have "sample.events_queued (w_redis (snd (url_create sample_env default_settings 5 1 (\<lambda>i j. j) data
      (map_option row_id (get_optional_user sample_env default_settings 5 None (w_db empty_world))) w0))) 5 []"
    using same_lookD [OF services.same_create [OF sample.services_axioms]] by (rule sample.queued_frame) auto
  then show ?thesis by (simp add: new)
qed

lemma sample_clicked_facts:
  "reach sample_env store_look default_settings (5, Stopped, sample_clicked)"
  "sample.events_queued (w_redis sample_clicked) 5 [sample_click]"
  "flush sample_env default_settings 5 [3] sample_clicked = (Inr (), snd (flush sample_env default_settings 5 [3] sample_clicked))"
proof -
  let ?w1 = "snd sample_created"
  let ?s = "new_short_url 1 5 ''https://example.com/'' ''my-link'' (Some ''my-link'') None None True None :: short_url"
  have "step sample_env default_settings (5, Stopped, ?w1) (5, Stopped, sample_clicked)"
    using step.request [of ?w1 "Follow sample_request ''my-link''" sample_env default_settings 5 Stopped]
    by (simp add: respond_def sample_clicked_def)
  then show "reach sample_env store_look default_settings (5, Stopped, sample_clicked)"
    by (rule reach.further [OF created_reached])
  have ok: "world_ok sample_env 5 ?w1" "links (w_db ?w1) ''my-link'' = Some ?s"
    using reach_service_ok [OF created_reached sample_deployment] sample_created_row by (auto intro: service_ok_world)
  have live: "live 5 ?s" by (simp add: live_def unexpired_def new_short_url_def)
  have ip: "redirect_ip sample_request = Some ''203.0.113.9''" "h_user_agent sample_request = Some ''UA''" "h_referer sample_request = None"
    by (simp_all add: sample_request_def redirect_ip_def first_forwarded_def py_strip_def Let_def)
  have follow: "redirect sample_env default_settings 5 sample_request ''my-link'' ?w1 =
      (fst (redirect sample_env default_settings 5 sample_request ''my-link'' ?w1), sample_clicked)"
    by (simp add: sample_clicked_def)
  show "sample.events_queued (w_redis sample_clicked) 5 [sample_click]"
    using redirect_queues [OF sample.services_axioms ok(1) sample_not_reserved ok(2) live created_queue follow]
    by (simp add: sample_click_def ip) (simp add: new_short_url_def)
  have "click_columns (stored_click sample_env 3 5 5 1 (Some ''203.0.113.9'') (Some ''UA'') None)"
    by (simp add: click_columns_def stored_click_def Let_def sample_env_simps sample_digest_def parse_user_agent_def
        sample_env_def redis_ops.defs)
  moreover have "row_id ?s = 1" "click_events (w_db ?w1) = []" using sample_created_row by (simp_all add: new_short_url_def)
  ultimately show "flush sample_env default_settings 5 [3] sample_clicked = (Inr (), snd (flush sample_env default_settings 5 [3] sample_clicked))"
    using click_stored [OF sample.services_axioms ok(1) default_batch(1) sample_not_reserved ok(2) live _ _ created_queue follow
        order_refl prod.collapse [symmetric] refl, of 3]
    by (simp add: ip max_instant_def usec_def prod_eq_iff)
qed

section \<open>Properties\<close>

text \<open>
  C2. In every state the service can reach from an empty deployment, by requests of all endpoints, worker
  iterations, restarts of the worker and the passing of time in any order, the schema constraints hold, every
  stored target passed the safety check, every cached payload is its link's, the click counters are the numbers
  of stored clicks, the queue holds well-formed events, and every cached summary and image can be decoded.
\<close>

theorem reachable_states_ok:
  assumes "deployment E look cfg" "reach E look cfg (t, s, w)"
  shows "world_ok E t w \<and> targets_safe (w_db w) \<and> counts_agree (w_db w) \<and> clicks_dated (w_db w) \<and> queue_ok E look t (w_redis w) \<and>
    holds (get_cached_summary E) (cached_summary E) t (w_redis w) \<and> holds (qr_get E) (\<lambda>_ _. True) t (w_redis w)"
  using reach_service_ok [OF assms(2,1)] by (simp add: service_ok_with_def world_ok_with_cached)

theorem reachable_states_ok_witness: "counts_agree (w_db (snd sample_created))"
  using reachable_states_ok [OF sample_deployment created_reached] by simp


text \<open>
  C12. A created link works: in every reachable state, when the creation endpoint answers with a link, following
  the returned code redirects to the returned address at any later time before the returned expiry; only an alias that
  is one of the reserved paths is answered 404 for ever.
\<close>

theorem created_link_redirects:
  assumes "deployment E look cfg" "reach E look cfg (t, s, w)" "call_ok (w_db w) (CreateUrl lid i rng req cred body)"
    and "create_url E cfg t lid i rng req cred body w = (Inr r, w1)"
    and "t \<le> t'" "case r_expires_at r of None \<Rightarrow> True | Some e \<Rightarrow> t' < e"
  shows "fst (redirect E cfg t' req' (r_short_code r) w1) =
    (if r_short_code r \<in> set reserved_paths then Inl (HTTPException 404 ''Not Found'') else Inr (r_original_url r))"
proof -
  note d = deploymentD [OF assms(1)]
  have ok: "service_ok E look t w" "0 \<le> t" "t < max_instant" using reach_service_ok [OF assms(2,1)] by auto
  have "service_ok E look t w1" using serve_keeps [OF assms(1) ok assms(3)] assms(4) by (simp add: respond_def)
  from service_ok_world [OF cached_services.service_ok_later [OF services.cached_services_agree [OF d(1)] this assms(5)]]
  have w1: "world_ok E t' w1" .
  obtain u where u: "links (w_db w1) (r_short_code r) = Some u" "is_active u" "expires_at u = r_expires_at r"
    "original_url u = r_original_url r"
    using created_link [OF assms(1) ok(1) assms(3,4)] by blast
  then have "live t' u" using assms(6) by (simp add: live_def unexpired_def split: option.splits)
  then show ?thesis using redirect_answer [OF w1] u by simp
qed

theorem created_link_redirects_witness:
  "fst (redirect sample_env default_settings 7 sample_request ''my-link'' (snd sample_created)) = Inr ''https://example.com/''"
  using created_link_redirects [OF sample_deployment empty_reached sample_call_ok sample_created_eq, of 7 sample_request]
    sample_not_reserved
  by (simp add: to_response_def new_short_url_def)


text \<open>
  A request that fails, with whatever error status, leaves the database as it was: the revocation of a
  refresh token, for one, is undone when the new token cannot be stored.
\<close>

lemma failed_requests_change_nothing:
  assumes "400 \<le> fst (serve E cfg t c w)"
  shows "w_db (snd (serve E cfg t c w)) = w_db w"
proof -
  have failed: "w_db (snd (respond ok (with_session h w))) = w_db w"
    if "400 \<le> fst (respond ok (with_session h w))" "ok < 400" for ok and h :: "('a, 'c) handler"
  proof (cases "h w")
    case (Pair res w')
    then show ?thesis using that by (cases res) (auto simp: respond_def http_status_def with_session_def)
  qed
  show ?thesis
    using assms
    by (cases c)
      (simp_all add: failed create_url_def list_urls_def get_url_def update_url_def delete_url_def register_user_def
        login_user_def refresh_session_def logout_session_def me_def get_analytics_summary_def get_qr_code_def,
        simp add: respond_def)
qed

text \<open>
  C25. No event is dropped as unreadable: in every reachable state a flush that succeeds stores exactly one row
  for each event it takes from the queue.
\<close>

theorem flush_stores_every_event:
  assumes "deployment E look cfg" "reach E look cfg (t, s, w)"
    and "redis_server.events_queued look (w_redis w) t es" "flush E cfg t ids w = (Inr (), w')"
  shows "length (click_events (w_db w')) =
    length (click_events (w_db w)) + min (length es) (nat (ANALYTICS_BATCH_SIZE cfg))"
proof -
  note d = deploymentD [OF assms(1)]
  let ?n = "nat (ANALYTICS_BATCH_SIZE cfg)"
  have ok: "service_ok E look t w" using reach_service_ok [OF assms(2,1)] by simp
  have "fst (flush_pop E cfg t w) = Inr (take ?n es)" by (rule services.pop_queue(1) [OF d(1) assms(3) d(3)])
  then have "list_all (good_event E) (take ?n es)"
    using cached_services.pop_keeps(2) [OF services.cached_services_agree [OF d(1)] ok d(3)] by auto
  note all = all_parsed [OF this]
  obtain rows where "click_events (w_db w') = click_events (w_db w) @ rows"
    "map short_url_id rows = map pc_url_id (List.map_filter parse_event (take ?n es))"
    using flush_effect [OF d(1,3) assms(3,4)] by auto
  then show ?thesis using all by (metis length_append length_map length_take)
qed

theorem flush_stores_every_event_witness:
  "length (click_events (w_db (snd (flush sample_env default_settings 5 [3] sample_clicked)))) =
    length (click_events (w_db sample_clicked)) + 1"
  using flush_stores_every_event [OF sample_deployment sample_clicked_facts]
  by (simp add: default_settings_def)

end
