(* ===== verification/Interleaving.thy ===== *)
theory Interleaving
  imports System
begin

text \<open>
  The service with its concurrency: the background tasks of a redirect run at any time after its response, in
  any order with other requests, or not at all when the process ends; and the worker's batch is taken from the
  queue in one step and stored in a later one, with requests in between.  The cache may then hold a row that the
  table has since changed, so the invariant of \<open>System\<close> is replaced by the weaker form in which a cached payload is
  some former row.  A step is labelled with the number of visitors it redirects.
\<close>

section \<open>A redirect without its tasks\<close>

text \<open>What the visitor gets, and the tasks left to run; \<open>redirect\<close> runs them at once.\<close>

definition follow ::
  "('r, 'x) ext_scheme \<Rightarrow> instant \<Rightarrow> request \<Rightarrow> pystr \<Rightarrow> 'r world \<Rightarrow> (pystr \<times> task list) result" where
  "follow E now req c w =
     (if c \<in> set reserved_paths then Inl (HTTPException 404 ''Not Found'')
      else resolve E now c (redirect_ip req) (h_user_agent req) (h_referer req) w)"

lemma redirect_follow:
  "redirect E cfg now req c w =
     (case follow E now req c w of
        Inl e \<Rightarrow> (Inl e, w)
      | Inr (target, tasks) \<Rightarrow> (Inr target, w\<lparr>w_redis := run_tasks E cfg now tasks (w_redis w)\<rparr>))"
  by (simp add: redirect_def follow_def)

section \<open>Steps\<close>

record 'r running =
  clock :: instant
  phase :: worker
  world :: "'r world"
  batch :: "json list"
  pending :: "task list list"

inductive open_step :: "('r, 'x) ext_scheme \<Rightarrow> settings \<Rightarrow> nat \<Rightarrow> 'r running \<Rightarrow> 'r running \<Rightarrow> bool" for E cfg where
  tick: "clock x \<le> t \<Longrightarrow> t < max_instant \<Longrightarrow> open_step E cfg 0 x (x\<lparr>clock := t\<rparr>)"
| request: "call_ok (w_db (world x)) c \<Longrightarrow> (\<And>req sc. c \<noteq> Follow req sc) \<Longrightarrow>
    open_step E cfg 0 x (x\<lparr>world := snd (serve E cfg (clock x) c (world x))\<rparr>)"
| followed: "follow E (clock x) req sc (world x) = Inr (target, tasks) \<Longrightarrow>
    open_step E cfg 1 x (x\<lparr>pending := pending x @ [tasks]\<rparr>)"
| task_run: "pending x = ps @ (t # ts) # qs \<Longrightarrow>
    open_step E cfg 0 x
      (x\<lparr>world := (world x)\<lparr>w_redis := run_task E cfg (clock x) t (w_redis (world x))\<rparr>, pending := ps @ ts # qs\<rparr>)"
| tasks_lost: "pending x = ps @ ts # qs \<Longrightarrow> open_step E cfg 0 x (x\<lparr>pending := ps @ qs\<rparr>)"
| start: "open_step E cfg 0 x (x\<lparr>phase := start_worker (phase x)\<rparr>)"
| pop: "phase x = Running \<Longrightarrow> batch x = [] \<Longrightarrow> flush_pop E cfg (clock x) (world x) = (Inr es, w') \<Longrightarrow>
    open_step E cfg 0 x (x\<lparr>world := w', batch := es\<rparr>)"
| stored: "persist_batch ids (clock x) (batch x) (w_db (world x)) = Inr db' \<Longrightarrow>
    open_step E cfg 0 x (x\<lparr>world := (world x)\<lparr>w_db := db'\<rparr>, batch := []\<rparr>)"
| failed: "persist_batch ids (clock x) (batch x) (w_db (world x)) = Inl e \<Longrightarrow>
    open_step E cfg 0 x (x\<lparr>batch := []\<rparr>)"
| stop: "stop_worker E cfg (clock x) ids False (phase x) (world x) = (res, s', w') \<Longrightarrow>
    open_step E cfg 0 x (x\<lparr>world := w', phase := s', batch := []\<rparr>)"

inductive open_run ::
  "('r, 'x) ext_scheme \<Rightarrow> ('r \<Rightarrow> instant \<Rightarrow> pystr \<Rightarrow> redis_value option) \<Rightarrow> settings \<Rightarrow> nat \<Rightarrow> 'r running \<Rightarrow> bool"
  for E look cfg where
  fresh: "0 \<le> t \<Longrightarrow> t < max_instant \<Longrightarrow> (\<And>u k. look r u k = None) \<Longrightarrow>
    open_run E look cfg 0
      \<lparr>clock = t, phase = Stopped, world = \<lparr>w_db = empty_database, w_redis = r\<rparr>, batch = [], pending = []\<rparr>"
| more: "open_run E look cfg n x \<Longrightarrow> open_step E cfg k x y \<Longrightarrow> open_run E look cfg (n + k) y"

section \<open>What requests leave alone\<close>

text \<open>No request takes events from the queue, adds to it or stores clicks; deleting a link deletes its clicks.\<close>

definition quiet ::
  "('r \<Rightarrow> instant \<Rightarrow> pystr \<Rightarrow> redis_value option) \<Rightarrow> instant \<Rightarrow> json list \<Rightarrow> nat \<Rightarrow> 'r world \<Rightarrow> bool" where
  "quiet look t es m w \<longleftrightarrow>
     redis_server.events_queued look (w_redis w) t es \<and> length (click_events (w_db w)) \<le> m"

lemma url_create_clicks [simp]:
  "click_events (w_db (snd (url_create E cfg now i rng data owner w))) = click_events (w_db w)"
  by (auto simp: url_create_def Let_def create_with_def insert_short_url_def split: sum.splits prod.splits option.splits if_splits)

lemma url_update_clicks [simp]:
  "click_events (w_db (snd (url_update E cfg now i data requester is_admin w))) = click_events (w_db w)"
  by (auto simp: url_update_def url_repo_update_def Let_def update_short_url_def split: sum.splits prod.splits option.splits if_splits)

lemma url_delete_clicks:
  "length (click_events (w_db (snd (url_delete E i requester is_admin w)))) \<le> length (click_events (w_db w))"
  by (auto simp: url_delete_def url_repo_delete_def delete_short_url_def split: sum.splits option.splits)

context services
begin

lemma quiet_keeps:
  assumes "quiet look now es m w" "same_look look {queue_key} now (w_redis w) (w_redis (snd (h w)))"
    and "length (click_events (w_db (snd (h w)))) \<le> length (click_events (w_db w))"
  shows "keeps (quiet look now es m) h w"
proof -
  have "events_queued (w_redis (snd (h w))) now es"
    using assms(1) same_lookD [OF assms(2)] by (auto simp: quiet_def intro: queued_frame)
  then show ?thesis
    using assms(1,3) by (auto simp: quiet_def keeps_def split: prod.split sum.split)
qed

lemma same_look_mono: "same_look look K t r r' \<Longrightarrow> K' \<subseteq> K \<Longrightarrow> same_look look K' t r r'"
  by (auto simp: same_look_def)

lemma quiet_guard:
  assumes "quiet look now es m w" "\<And>w'. quiet look now es m w' \<Longrightarrow> keeps (quiet look now es m) (k ()) w'"
  shows "keeps (quiet look now es m) (and_then (rate_guard E now lid identifier limit window endpoint message) k) w"
proof (rule keeps_then)
  have "same_look look {queue_key} now (w_redis w) (snd (is_allowed E now lid identifier limit window endpoint (w_redis w)))"
    by (rule same_look_mono [OF same_limiter]) auto
  then show "quiet look now es m (snd (rate_guard E now lid identifier limit window endpoint message w))"
    unfolding rate_guard_world(2) using assms(1) same_lookD by (fastforce simp: quiet_def intro: queued_frame)
qed (auto simp: rate_guard_world intro: assms(2))

lemma quiet_accounts: "quiet look now es m w \<Longrightarrow> auth_frame w (snd (h w)) \<Longrightarrow> keeps (quiet look now es m) h w"
  by (rule quiet_keeps) (simp_all add: auth_frame_def)

lemma quiet_summary:
  assumes "quiet look now es m w"
  shows "keeps (quiet look now es m) (get_summary E cfg now c days) w"
proof (rule quiet_keeps [OF assms])
  have "snd (get_summary E cfg now c days w) = w \<or>
    (\<exists>v. snd (get_summary E cfg now c days w) = w\<lparr>w_redis := set_cached_summary E cfg now c v (w_redis w)\<rparr>)"
    by (auto simp: get_summary_def Let_def split: sum.splits option.splits json.splits if_splits)
  then show "same_look look {queue_key} now (w_redis w) (w_redis (snd (get_summary E cfg now c days w)))"
    "length (click_events (w_db (snd (get_summary E cfg now c days w)))) \<le> length (click_events (w_db w))"
    using same_look_mono [OF same_summary_set, of "{queue_key}"] by (elim disjE exE; force)+
qed

lemma quiet_qr:
  assumes "quiet look now es m w"
  shows "keeps (quiet look now es m) (get_or_generate E cfg now c) w"
proof (rule quiet_keeps [OF assms])
  have "snd (get_or_generate E cfg now c w) = w \<or>
    (\<exists>v. snd (get_or_generate E cfg now c w) = w\<lparr>w_redis := qr_put E cfg now c v (w_redis w)\<rparr>)"
    by (auto simp: get_or_generate_def Let_def split: sum.splits option.splits if_splits)
  then show "same_look look {queue_key} now (w_redis w) (w_redis (snd (get_or_generate E cfg now c w)))"
    "length (click_events (w_db (snd (get_or_generate E cfg now c w)))) \<le> length (click_events (w_db w))"
    using same_look_mono [OF same_qr_put, of "{queue_key}"] by (elim disjE exE; force)+
qed

lemma quiet_create: "quiet look now es m w \<Longrightarrow> keeps (quiet look now es m) (url_create E cfg now i rng data owner) w"
  by (erule quiet_keeps) (auto intro: same_look_mono [OF same_create])

lemma quiet_update: "quiet look now es m w \<Longrightarrow> keeps (quiet look now es m) (url_update E cfg now i data requester is_admin) w"
  by (erule quiet_keeps) (auto intro: same_look_mono [OF same_update])

lemma quiet_delete: "quiet look now es m w \<Longrightarrow> keeps (quiet look now es m) (url_delete E i requester is_admin) w"
  by (erule quiet_keeps) (auto intro: same_look_mono [OF same_delete] url_delete_clicks)

lemma quiet_register:
  "quiet look now es m w \<Longrightarrow>
   keeps (quiet look now es m) (and_then (register E now i salt data) (\<lambda>u. returning (Inr (user_to_response u)))) w"
proof (erule quiet_accounts)
  have "snd (and_then (register E now i salt data) (\<lambda>u. returning (Inr (user_to_response u))) w) = snd (register E now i salt data w)"
    by (simp add: and_then_def returning_def split: prod.split sum.split)
  then show "auth_frame w (snd (and_then (register E now i salt data) (\<lambda>u. returning (Inr (user_to_response u))) w))"
    using auth_operations_frame(1) by simp
qed

lemma quiet_endpoints:
  assumes "quiet look now es m w"
  shows "quiet look now es m (snd (create_url E cfg now lid i rng req cred body w))"
    and "quiet look now es m (snd (list_urls E cfg now rank cred page_no sz w))"
    and "quiet look now es m (snd (get_url E cfg now cred url_id w))"
    and "quiet look now es m (snd (update_url E cfg now cred url_id upd w))"
    and "quiet look now es m (snd (delete_url E cfg now cred url_id w))"
    and "quiet look now es m (snd (register_user E now lid i salt req reg w))"
    and "quiet look now es m (snd (login_user E cfg now lid i req body_login w))"
    and "quiet look now es m (snd (refresh_session E cfg now i raw w))"
    and "quiet look now es m (snd (logout_session E now raw w))"
    and "quiet look now es m (snd (me E cfg now cred w))"
    and "quiet look now es m (snd (get_analytics_summary E cfg now cred sc days w))"
    and "quiet look now es m (snd (get_qr_code E cfg now sc w))"
proof -
  note base = keeps_session [where I = "quiet look now es m"] assms
  show "quiet look now es m (snd (create_url E cfg now lid i rng req cred body w))"
    unfolding create_url_def by (intro base keeps_optional_user keeps_returning quiet_guard quiet_create)
  show "quiet look now es m (snd (list_urls E cfg now rank cred page_no sz w))"
    unfolding list_urls_def by (intro base keeps_current_user keeps_returning keeps_query keeps_readonly) (simp_all add: list_by_owner_def split: prod.split)
  show "quiet look now es m (snd (get_url E cfg now cred url_id w))"
    unfolding get_url_def by (intro base keeps_optional_user keeps_readonly) (simp_all add: url_get_by_id_def split: sum.split option.split)
  show "quiet look now es m (snd (update_url E cfg now cred url_id upd w))"
    unfolding update_url_def by (intro base keeps_current_user keeps_returning quiet_update)
  show "quiet look now es m (snd (delete_url E cfg now cred url_id w))"
    unfolding delete_url_def by (intro base keeps_current_user quiet_delete)
  show "quiet look now es m (snd (register_user E now lid i salt req reg w))"
    unfolding register_user_def by (intro base keeps_returning quiet_guard quiet_register)
  show "quiet look now es m (snd (login_user E cfg now lid i req body_login w))"
    unfolding login_user_def by (intro base keeps_returning quiet_guard quiet_accounts auth_operations_frame)
  show "quiet look now es m (snd (refresh_session E cfg now i raw w))"
    unfolding refresh_session_def by (intro base quiet_accounts auth_operations_frame)
  show "quiet look now es m (snd (logout_session E now raw w))"
    unfolding logout_session_def by (intro base quiet_accounts auth_operations_frame)
  show "quiet look now es m (snd (me E cfg now cred w))"
    unfolding me_def by (intro base keeps_current_user keeps_readonly) (simp_all add: returning_def)
  show "quiet look now es m (snd (get_analytics_summary E cfg now cred sc days w))"
    unfolding get_analytics_summary_def by (intro base keeps_current_user keeps_query quiet_summary)
  show "quiet look now es m (snd (get_qr_code E cfg now sc w))"
    unfolding get_qr_code_def by (intro base quiet_qr)
qed

lemma quiet_serve:
  "quiet look now es m w \<Longrightarrow> (\<And>req sc. c \<noteq> Follow req sc) \<Longrightarrow> quiet look now es m (snd (serve E cfg now c w))"
  by (cases c) (simp_all add: respond_def quiet_endpoints, blast)

end

section \<open>Tasks and batches keep the weaker invariant\<close>

abbreviation former_ok ::
  "('r, 'x) ext_scheme \<Rightarrow> ('r \<Rightarrow> instant \<Rightarrow> pystr \<Rightarrow> redis_value option) \<Rightarrow> instant \<Rightarrow> 'r world \<Rightarrow> bool" where
  "former_ok E look \<equiv> service_ok_with (\<lambda>db c v. row_payload v) E look"

fun good_task :: "task \<Rightarrow> bool" where
  "good_task (CacheSet c v) \<longleftrightarrow> row_payload v"
| "good_task _ \<longleftrightarrow> True"

fun clicks_of :: "task \<Rightarrow> nat" where
  "clicks_of (EnqueueClick i ip agent refer) = 1"
| "clicks_of _ = 0"

lemma serialized_payload:
  "dates_ok db \<Longrightarrow> targets_safe db \<Longrightarrow> links db c = Some s \<Longrightarrow> row_payload (serialize s)"
  using dates_ok_row targets_safe_row unfolding row_payload_def by blast

text \<open>With former rows in the cache the visitor may see an old row, but never an error of the server.\<close>

lemma follow_former:
  assumes "former_ok E look now w"
  shows "case follow E now req c w of
      Inl e \<Rightarrow> e \<in> {HTTPException 404 ''Not Found'', App URLNotFoundError, App URLExpiredError}
    | Inr (target, tasks) \<Rightarrow> is_safe_url target \<and> list_all good_task tasks \<and> sum_list (map clicks_of tasks) = 1"
proof (cases "c \<in> set reserved_paths")
  case True
  then show ?thesis by (simp add: follow_def)
next
  case False
  note ok = service_okD [OF assms]
  have dates: "dates_ok (w_db w)" and cache: "holds (url_cache_get E) (\<lambda>c v. row_payload v) now (w_redis w)"
    using ok(1) by (simp_all add: world_ok_with_def)
  from cache consider "url_cache_get E now c (w_redis w) = Inr None"
    | v where "url_cache_get E now c (w_redis w) = Inr (Some v)" "row_payload v"
    by (auto simp: holds_def)
  then show ?thesis
  proof cases
    case 1
    then show ?thesis
      using False link.active_link [OF ok(2), of now c] serialized_payload [OF dates ok(9)] targets_safe_row [OF ok(9)]
      by (auto simp: follow_def resolve_def resolve_from_def split: option.splits)
  next
    case (2 v)
    then obtain s where "v = serialize s" "expiry_in_range (expires_at s)" "is_safe_url (original_url s)"
      by (auto simp: row_payload_def)
    then show ?thesis
      using False 2(1) guard_expiry_serialize [of s now]
      by (simp add: follow_def resolve_def resolve_from_def dict_item_def uuid_of_json_def str_of_json_def)
  qed
qed

context services
begin

lemma task_keeps:
  assumes "former_ok E look now w" "good_task t" "0 \<le> now" "now < max_instant"
  shows "former_ok E look now (w\<lparr>w_redis := run_task E cfg now t (w_redis w)\<rparr>)"
proof -
  note ok = service_okD [OF assms(1)]
  have cache: "holds (url_cache_get E) (\<lambda>c v. row_payload v) now (w_redis w)"
    using ok(1) by (simp add: world_ok_with_def)
  have urls: "former_ok E look now (w\<lparr>w_redis := r'\<rparr>)"
    if "same_look look (- url_keys) now (w_redis w) r'" "holds (url_cache_get E) (\<lambda>c v. row_payload v) now r'" for r'
    by (rule former.service_ok_links [OF assms(1)]) (use that ok in \<open>simp_all add: world_ok_with_def\<close>)
  show ?thesis
  proof (cases t)
    case (CacheSet c v)
    then obtain s where s: "v = serialize s" "row_payload v" using assms(2) by (auto simp: row_payload_def)
    have "holds (url_cache_get E) (\<lambda>c v. row_payload v) now (url_cache_set E cfg now c v None (w_redis w))"
      by (rule url_cache.holds_put) (use cache s in simp_all)
    then show ?thesis using urls [OF same_url_set] CacheSet by simp
  next
    case (TrackClick c)
    then show ?thesis using urls [OF same_track url_cache.holds_touch [OF cache order_refl]] by simp
  next
    case (EnqueueClick i ip agent refer)
    let ?e = "clicked_event E now i ip agent refer"
    obtain es where "events_queued (w_redis w) now es" "list_all (good_event E) es" using ok(6) by (auto simp: queue_ok_def)
    moreover have "good_event E ?e" unfolding good_event_def using assms(3,4) by blast
    ultimately have "queue_ok E look now (push_event E now ?e (w_redis w))"
      unfolding queue_ok_def
      by (intro exI [of _ "es @ [?e]"] conjI queue.queued_push) (auto simp: clicked_event_def)
    moreover have "range summary_key \<subseteq> - {queue_key}" "range qr_key \<subseteq> - {queue_key}" "range url_key \<subseteq> - {queue_key}" by auto
    ultimately show ?thesis
      using EnqueueClick ok(4,5,7,8,9) ok(1) former.summaries_same [OF same_push] former.images_same [OF same_push]
        holds_push [OF cache]
      by (simp add: service_ok_with_def world_ok_with_def enqueue_click_push)
  qed
qed

end

section \<open>The invariant and the account of clicks\<close>

text \<open>
  Every click that is stored, queued, in the worker's hands or still a task was a redirect, and no redirect is
  there twice: \<open>n\<close> is the number of visitors redirected so far.
\<close>

definition waiting :: "task list list \<Rightarrow> nat" where
  "waiting ps = sum_list (map clicks_of (concat ps))"

lemma waiting_simps [simp]:
  "waiting [] = 0" "waiting (ps @ qs) = waiting ps + waiting qs"
  "waiting ((t # ts) # qs) = clicks_of t + waiting (ts # qs)" "waiting [ts] = sum_list (map clicks_of ts)"
  "waiting (ts # qs) = sum_list (map clicks_of ts) + waiting qs"
  by (simp_all add: waiting_def)

definition accounted ::
  "('r, 'x) ext_scheme \<Rightarrow> ('r \<Rightarrow> instant \<Rightarrow> pystr \<Rightarrow> redis_value option) \<Rightarrow> nat \<Rightarrow> instant \<Rightarrow> 'r world \<Rightarrow> bool" where
  "accounted E look n t w \<longleftrightarrow> (\<exists>es. redis_server.events_queued look (w_redis w) t es \<and> list_all (good_event E) es \<and>
     length (click_events (w_db w)) + length es \<le> n)"

lemma persist_batch_length:
  assumes "persist_batch ids now events db = Inr db'"
  shows "length (click_events db') \<le> length (click_events db) + length events"
proof -
  obtain rows where r: "map short_url_id rows = map pc_url_id (List.map_filter parse_event events)"
    "db' = db\<lparr>click_events := click_events db @ rows,
       short_urls := map (bumped now (counter (map pc_url_id (List.map_filter parse_event events)))) (short_urls db)\<rparr>"
    using persist_batch_effect [OF assms] by metis
  have "length rows = length (List.map_filter parse_event events)" using arg_cong [OF r(1), of length] by simp
  moreover have "length (List.map_filter parse_event events) \<le> length events"
    by (simp add: map_filter_def)
  ultimately show ?thesis using r(2) by simp
qed

context services
begin

lemma accounted_later: "accounted E look n t w \<Longrightarrow> t \<le> t' \<Longrightarrow> accounted E look n t' w"
  by (auto simp: accounted_def intro: queue.queued_later)

lemma accounted_serve:
  assumes "accounted E look n now w" "\<And>req sc. c \<noteq> Follow req sc"
  shows "accounted E look n now (snd (serve E cfg now c w))"
proof -
  obtain es where es: "events_queued (w_redis w) now es" "list_all (good_event E) es"
    "length (click_events (w_db w)) + length es \<le> n"
    using assms(1) by (auto simp: accounted_def)
  then have "quiet look now es (n - length es) w" by (simp add: quiet_def)
  then have "quiet look now es (n - length es) (snd (serve E cfg now c w))" by (rule quiet_serve) (rule assms(2))
  then show ?thesis using es by (auto simp: quiet_def accounted_def)
qed

lemma accounted_task:
  assumes "accounted E look n now w" "0 \<le> now" "now < max_instant"
  shows "accounted E look (n + clicks_of t) now (w\<lparr>w_redis := run_task E cfg now t (w_redis w)\<rparr>)"
proof -
  obtain es where es: "events_queued (w_redis w) now es" "list_all (good_event E) es"
    "length (click_events (w_db w)) + length es \<le> n"
    using assms(1) by (auto simp: accounted_def)
  have same: ?thesis if "clicks_of t = 0" "events_queued (run_task E cfg now t (w_redis w)) now es"
    using that es by (auto simp: accounted_def)
  show ?thesis
  proof (cases t)
    case CacheSet
    then show ?thesis using same queued_url_set [OF es(1)] by simp
  next
    case TrackClick
    then show ?thesis using same queued_track [OF es(1)] by simp
  next
    case (EnqueueClick i ip agent refer)
    let ?e = "clicked_event E now i ip agent refer"
    have "events_queued (push_event E now ?e (w_redis w)) now (es @ [?e])"
      by (rule queue.queued_push [OF es(1)]) (simp add: clicked_event_def)
    moreover have "good_event E ?e" unfolding good_event_def using assms(2,3) by blast
    ultimately show ?thesis
      using es EnqueueClick by (auto simp: accounted_def enqueue_click_push intro!: exI [of _ "es @ [?e]"])
  qed
qed

lemma accounted_pop:
  assumes "accounted E look n now w" "0 < ANALYTICS_BATCH_SIZE cfg" "flush_pop E cfg now w = (res, w')"
  obtains es where "res = Inr es" "list_all (good_event E) es" "length es \<le> n" "accounted E look (n - length es) now w'"
proof -
  let ?n = "nat (ANALYTICS_BATCH_SIZE cfg)"
  obtain es where es: "events_queued (w_redis w) now es" "list_all (good_event E) es"
    "length (click_events (w_db w)) + length es \<le> n"
    using assms(1) by (auto simp: accounted_def)
  have good: "list_all (good_event E) (take ?n es)" "list_all (good_event E) (drop ?n es)"
    using es(2) by (metis append_take_drop_id list_all_append)+
  note pop = pop_queue [OF es(1) assms(2)]
  have "length es = length (take ?n es) + length (drop ?n es)" by simp
  then have "length (take ?n es) \<le> n" "length (click_events (w_db w)) + length (drop ?n es) \<le> n - length (take ?n es)"
    using es(3) by linarith+
  moreover have "w_db w' = w_db w" using pop_db [of now w] assms(3) by simp
  moreover have "events_queued (w_redis w') now (drop ?n es)" "res = Inr (take ?n es)" using pop assms(3) by simp_all
  moreover from calculation have "accounted E look (n - length (take ?n es)) now w'"
    using good(2) unfolding accounted_def by (intro exI [of _ "drop ?n es"]) simp
  ultimately show thesis using that [of "take ?n es"] good(1) by blast
qed

lemma accounted_persist:
  assumes "accounted E look n now w" "persist_batch ids now events (w_db w) = Inr db'"
  shows "accounted E look (n + length events) now (w\<lparr>w_db := db'\<rparr>)"
  using assms(1) persist_batch_length [OF assms(2)] by (force simp: accounted_def)

lemma accounted_mono: "accounted E look n t w \<Longrightarrow> n \<le> m \<Longrightarrow> accounted E look m t w"
  by (auto simp: accounted_def)

lemma accounted_flush:
  assumes "accounted E look n now w" "0 < ANALYTICS_BATCH_SIZE cfg"
  shows "accounted E look n now (snd (flush E cfg now ids w))"
proof -
  obtain es where pop: "fst (flush_pop E cfg now w) = Inr es" "length es \<le> n"
    "accounted E look (n - length es) now (snd (flush_pop E cfg now w))"
    by (rule accounted_pop [OF assms prod.collapse [symmetric]]) auto
  then have rest: "accounted E look n now (snd (flush_pop E cfg now w))" by (auto elim: accounted_mono)
  show ?thesis
  proof (cases rule: flush_cases [of E cfg now ids w])
    case (persisted events db')
    then show ?thesis using accounted_persist [OF pop(3), of ids events db'] pop(1,2) by simp
  qed (use rest in simp_all)
qed

end

definition open_ok ::
  "('r, 'x) ext_scheme \<Rightarrow> ('r \<Rightarrow> instant \<Rightarrow> pystr \<Rightarrow> redis_value option) \<Rightarrow> nat \<Rightarrow> 'r running \<Rightarrow> bool" where
  "open_ok E look n x \<longleftrightarrow> former_ok E look (clock x) (world x) \<and> 0 \<le> clock x \<and> clock x < max_instant \<and>
     list_all (list_all good_task) (pending x) \<and> list_all (good_event E) (batch x) \<and>
     (\<exists>m. accounted E look m (clock x) (world x) \<and> m + length (batch x) + waiting (pending x) \<le> n)"

lemma open_okD:
  assumes "open_ok E look n x"
  obtains m where "former_ok E look (clock x) (world x)" "0 \<le> clock x" "clock x < max_instant"
    "list_all (list_all good_task) (pending x)" "list_all (good_event E) (batch x)"
    "accounted E look m (clock x) (world x)" "m + length (batch x) + waiting (pending x) \<le> n"
  using assms by (auto simp: open_ok_def)

lemma open_okI:
  assumes "former_ok E look (clock x) (world x)" "0 \<le> clock x" "clock x < max_instant"
    and "list_all (list_all good_task) (pending x)" "list_all (good_event E) (batch x)"
    and "accounted E look m (clock x) (world x)" "m + length (batch x) + waiting (pending x) \<le> n"
  shows "open_ok E look n x"
  using assms by (auto simp: open_ok_def)

context services
begin

lemma former_stored:
  assumes "former_ok E look now w" "list_all (good_event E) es" "persist_batch ids now es (w_db w) = Inr db'"
  shows "former_ok E look now (w\<lparr>w_db := db'\<rparr>)"
  using service_okD [OF assms(1)] former.persist_world_ok [OF service_okD(1) [OF assms(1)] assms(3)]
    persist_batch_dated [OF service_okD(5) [OF assms(1)] assms(2,3)] persist_batch_counts [OF _ assms(3)]
    persist_targets [OF _ assms(3)]
  by (simp add: service_ok_with_def)

lemma open_step_keeps:
  assumes "open_step E cfg k x y" "open_ok E look n x" "deployment E look cfg"
  shows "open_ok E look (n + k) y"
proof -
  note d = deploymentD [OF assms(3)]
  obtain m where x: "former_ok E look (clock x) (world x)" "0 \<le> clock x" "clock x < max_instant"
    "list_all (list_all good_task) (pending x)" "list_all (good_event E) (batch x)"
    "accounted E look m (clock x) (world x)" "m + length (batch x) + waiting (pending x) \<le> n"
    by (rule open_okD [OF assms(2)])
  show ?thesis
    using assms(1)
  proof (cases rule: open_step.cases)
    case (tick t)
    then show ?thesis
      using x former.service_ok_later [OF x(1) tick(3)] accounted_later [OF x(6) tick(3)]
      by (intro open_okI [where m = m]) simp_all
  next
    case (request c)
    then show ?thesis
      using x serve_keeps_with [OF assms(3) cached_services_former x(1) request(3)] accounted_serve [OF x(6)]
      by (intro open_okI [where m = m]) simp_all
  next
    case (followed req sc target tasks)
    then show ?thesis
      using x follow_former [OF x(1), of req sc] by (intro open_okI [where m = m]) simp_all
  next
    case (task_run ps t ts qs)
    then have "good_task t" "list_all good_task ts" "list_all (list_all good_task) (ps @ ts # qs)"
      using x(4) by simp_all
    then show ?thesis
      using x task_keeps [OF x(1) \<open>good_task t\<close> x(2,3)] accounted_task [OF x(6,2,3), of t] task_run
      by (intro open_okI [where m = "m + clicks_of t"]) simp_all
  next
    case (tasks_lost ps ts qs)
    then show ?thesis using x by (intro open_okI [where m = m]) simp_all
  next
    case start
    then show ?thesis using x by (intro open_okI [where m = m]) simp_all
  next
    case (pop es w')
    then obtain es' where "es = es'" "list_all (good_event E) es'" "length es' \<le> m" "accounted E look (m - length es') (clock x) w'"
      using accounted_pop [OF x(6) d(3) pop(5)] by auto
    then show ?thesis
      using x pop former.pop_keeps(1) [OF x(1) d(3)] by (intro open_okI [where m = "m - length es"]) simp_all
  next
    case (stored ids db')
    then show ?thesis
      using x former_stored [OF x(1,5) stored(3)] accounted_persist [OF x(6) stored(3)]
      by (intro open_okI [where m = "m + length (batch x)"]) simp_all
  next
    case (failed ids e)
    then show ?thesis using x by (intro open_okI [where m = m]) simp_all
  next
    case (stop ids res s' w')
    have "w' = world x \<or> w' = snd (flush E cfg (clock x) ids (world x))"
      using stop(3) by (auto simp: stop_worker_def Let_def split: worker.splits prod.splits)
    then have "former_ok E look (clock x) w'" "accounted E look m (clock x) w'"
      using x(1,6) former.flush_keeps [OF x(1) d(3)] accounted_flush [OF x(6) d(3)] by auto
    then show ?thesis using x stop by (intro open_okI [where m = m]) simp_all
  qed
qed

lemma open_run_ok:
  assumes "open_run E look cfg n x" "deployment E look cfg"
  shows "open_ok E look n x"
  using assms(1)
proof (induction rule: open_run.induct)
  case (fresh t r)
  have "events_queued r t []" using fresh(3) by (simp add: events_queued_def wrap_list_def)
  then have "accounted E look 0 t \<lparr>w_db = empty_database, w_redis = r\<rparr>"
    by (auto simp: accounted_def empty_database_def)
  then show ?case
    using fresh former.empty_service_ok [OF fresh(3)] by (intro open_okI [where m = 0]) simp_all
next
  case (more n x k y)
  show ?case by (rule open_step_keeps [OF more(2,3) assms(2)])
qed

lemma queue_unique:
  assumes "events_queued r t es" "events_queued r t es'"
  shows "es = es'"
proof -
  let ?n = "Suc (length es + length es')"
  have "take ?n es = take ?n es'" using queue.pop_front [OF assms(1), of ?n] queue.pop_front [OF assms(2), of ?n] by simp
  then show ?thesis by simp
qed

end

lemma sum_shares:
  assumes "distinct (map f xs)"
  shows "sum_list (map (\<lambda>x. length (filter (\<lambda>e. g e = f x) es)) xs) \<le> length es"
proof (induction es)
  case Nil
  then show ?case by (simp add: sum_list_0)
next
  case (Cons e es)
  have one: "sum_list (map (\<lambda>x. if g e = f x then 1 else 0 :: nat) xs) \<le> 1"
    using assms by (induction xs) (auto simp: sum_list_eq_0_iff image_iff)
  have "sum_list (map (\<lambda>x. length (filter (\<lambda>e. g e = f x) (e # es))) xs) =
      sum_list (map (\<lambda>x. (if g e = f x then 1 else 0) + length (filter (\<lambda>e. g e = f x) es)) xs)"
    by (intro arg_cong [where f = sum_list] map_cong) simp_all
  then show ?case using one Cons.IH by (simp add: sum_list_addf)
qed

lemma counters_bounded:
  assumes "schema_ok db" "counts_agree db"
  shows "sum_list (map click_count (short_urls db)) \<le> int (length (click_events db))"
proof -
  have "map click_count (short_urls db) =
      map int (map (\<lambda>s. length (filter (\<lambda>e. short_url_id e = row_id s) (click_events db))) (short_urls db))"
    using assms(2) by (simp add: counts_agree_def click_total_def list_all_iff)
  moreover have "sum_list (map int ns) = int (sum_list ns)" for ns by (induction ns) simp_all
  ultimately show ?thesis
    using sum_shares [OF schema_distinct(1) [OF assms(1)], of short_url_id "click_events db"] by (simp only: of_nat_le_iff)
qed

section \<open>A small run\<close>

definition sample_running :: "keyspace running" where
  "sample_running = \<lparr>clock = 5, phase = Stopped, world = snd sample_created, batch = [], pending = []\<rparr>"

lemma sample_open_run: "open_run sample_env store_look default_settings 0 sample_running"
proof -
  let ?x = "\<lparr>clock = 5, phase = Stopped, world = empty_world, batch = [], pending = []\<rparr> :: keyspace running"
  have "open_run sample_env store_look default_settings 0 ?x"
    using open_run.fresh [of 5 store_look "\<lambda>_. None" sample_env default_settings]
    by (simp add: empty_world_def max_instant_def usec_def store_look_def)
  moreover have "open_step sample_env default_settings 0 ?x sample_running"
    using open_step.request [of ?x "CreateUrl 9 1 (\<lambda>i j. j) sample_request None sample_body" sample_env default_settings]
      sample_call_ok
    by (simp add: sample_running_def sample_created_def respond_def)
  ultimately show ?thesis using open_run.more by fastforce
qed

lemma sample_follow:
  obtains tasks where
    "follow sample_env 5 sample_request ''my-link'' (snd sample_created) = Inr (''https://example.com/'', tasks)"
proof -
  have "world_ok sample_env 5 (snd sample_created)"
    using reach_service_ok [OF created_reached sample_deployment] by (auto intro: service_ok_world)
  note resolve_world_ok [OF this refl, of "''my-link''"]
  then show ?thesis
    using that sample_created_row(1) sample_not_reserved
    by (simp add: follow_def) (simp add: new_short_url_def live_def unexpired_def)
qed

lemma sample_followed:
  obtains tasks where "open_run sample_env store_look default_settings 1 (sample_running\<lparr>pending := [tasks]\<rparr>)"
    "sum_list (map clicks_of tasks) = 1"
proof -
  obtain tasks where t:
    "follow sample_env 5 sample_request ''my-link'' (snd sample_created) = Inr (''https://example.com/'', tasks)"
    by (rule sample_follow)
  have "open_step sample_env default_settings 1 sample_running (sample_running\<lparr>pending := [tasks]\<rparr>)"
    using open_step.followed [of sample_env sample_running sample_request "''my-link''" _ tasks default_settings] t
    by (simp add: sample_running_def)
  then have run: "open_run sample_env store_look default_settings 1 (sample_running\<lparr>pending := [tasks]\<rparr>)"
    using open_run.more [OF sample_open_run] by fastforce
  have "former_ok sample_env store_look 5 (snd sample_created)"
    using sample.open_run_ok [OF sample_open_run sample_deployment]
    by (auto simp: sample_running_def elim!: open_okD)
  from follow_former [OF this, of sample_request "''my-link''"] have "sum_list (map clicks_of tasks) = 1" by (simp add: t)
  with run show ?thesis by (rule that)
qed

section \<open>What the invariant gives\<close>

lemma open_ok_states:
  assumes "open_ok E look n x"
  shows "links_ok (w_db (world x)) \<and> targets_safe (w_db (world x)) \<and> counts_agree (w_db (world x)) \<and>
    queue_ok E look (clock x) (w_redis (world x)) \<and> list_all (good_event E) (batch x)"
  using assms by (auto elim!: open_okD dest: service_okD)

lemma open_ok_reads:
  assumes "deployment E look cfg" "open_ok E look n x"
  shows "(case follow E (clock x) req c (world x) of
            Inr (target, tasks) \<Rightarrow> is_safe_url target
          | Inl e \<Rightarrow> http_status 302 (Inl e :: pystr result) \<in> {404, 410}) \<and>
    fst (serve E cfg (clock x) (QrCode c) (world x)) \<in> {200, 404}"
proof -
  note d = deploymentD [OF assms(1)]
  have ok: "former_ok E look (clock x) (world x)" using assms(2) by (auto elim!: open_okD)
  have "fst (serve E cfg (clock x) (QrCode c) (world x)) \<in> {200, 404}"
  proof (cases "fst (get_or_generate E cfg (clock x) c (world x))")
    case (Inl e)
    then have "e = App (NotFoundError ''Short URL'')"
      using cached_services.get_or_generate_result(3) [OF services.cached_services_former [OF d(1)] ok d(4), where c = c and e = e]
      by simp
    then show ?thesis using Inl by (simp add: respond_def get_qr_code_def http_status_def)
  qed (simp add: respond_def get_qr_code_def http_status_def)
  then show ?thesis
    using follow_former [OF ok, of req c] by (auto simp: http_status_def split: sum.splits)
qed

lemma open_ok_clicks:
  assumes "services E look cfg" "open_ok E look n x" "redis_server.events_queued look (w_redis (world x)) (clock x) es"
  shows "sum_list (map click_count (short_urls (w_db (world x)))) +
    int (length es + length (batch x) + waiting (pending x)) \<le> int n"
proof -
  obtain m where ok: "former_ok E look (clock x) (world x)" "accounted E look m (clock x) (world x)"
    "m + length (batch x) + waiting (pending x) \<le> n"
    using assms(2) by (auto elim!: open_okD)
  have "length (click_events (w_db (world x))) + length es \<le> m"
    using ok(2) services.queue_unique [OF assms(1,3)] by (auto simp: accounted_def)
  moreover have "sum_list (map click_count (short_urls (w_db (world x)))) \<le> int (length (click_events (w_db (world x))))"
    by (rule counters_bounded) (use service_okD(3,4) [OF ok(1)] in auto)
  ultimately show ?thesis using ok(3) by linarith
qed

end
