(* ===== verification/Configuration.thy ===== *)
theory Configuration
  imports App_Core
begin

text \<open>
  What the modules set up when they are loaded, as data: structlog (\<open>app/core/logging.py\<close>), the engine and its
  sessions (\<open>app/db/session.py\<close>), the Redis client (\<open>app/cache/client.py\<close>), and the application object with its CORS
  middleware (\<open>app/main.py\<close>).
\<close>

section \<open>Logging\<close>

datatype log_level = LevelDebug | LevelInfo

datatype log_processor =
    MergeContextvars
  | AddLoggerName
  | AddLogLevel
  | TimeStamper pystr
  | StackInfoRenderer
  | ConsoleRenderer
  | DictTracebacks
  | JSONRenderer

record logging_config =
  log_format :: pystr
  log_threshold :: log_level
  log_processors :: "log_processor list"
  cache_logger_on_first_use :: bool

definition shared_processors :: "log_processor list" where
  "shared_processors = [MergeContextvars, AddLoggerName, AddLogLevel, TimeStamper ''iso'', StackInfoRenderer]"

definition configure_logging :: "bool \<Rightarrow> logging_config" where
  "configure_logging debug =
     \<lparr>log_format = ''%(message)s'',
      log_threshold = (if debug then LevelDebug else LevelInfo),
      log_processors =
        (if debug then shared_processors @ [ConsoleRenderer] else shared_processors @ [DictTracebacks, JSONRenderer]),
      cache_logger_on_first_use = True\<rparr>"

section \<open>Connections\<close>

record engine_options =
  engine_url :: pystr
  pool_size :: int
  max_overflow :: int
  pool_timeout :: int
  pool_recycle :: int
  echo :: bool
  pool_pre_ping :: bool

definition create_engine :: "settings \<Rightarrow> engine_options" where
  "create_engine cfg =
     \<lparr>engine_url = DATABASE_URL cfg, pool_size = DATABASE_POOL_SIZE cfg, max_overflow = DATABASE_MAX_OVERFLOW cfg,
      pool_timeout = DATABASE_POOL_TIMEOUT cfg, pool_recycle = DATABASE_POOL_RECYCLE cfg, echo = DEBUG cfg,
      pool_pre_ping = True\<rparr>"

record session_options =
  expire_on_commit :: bool
  autoflush :: bool
  autocommit :: bool

definition session_factory :: session_options where
  "session_factory = \<lparr>expire_on_commit = False, autoflush = False, autocommit = False\<rparr>"

record redis_options =
  redis_url :: pystr
  encoding :: pystr
  decode_responses :: bool
  max_connections :: int

definition redis_client_options :: "settings \<Rightarrow> redis_options" where
  "redis_client_options cfg =
     \<lparr>redis_url = REDIS_URL cfg, encoding = ''utf-8'', decode_responses = True, max_connections = REDIS_POOL_SIZE cfg\<rparr>"

section \<open>The application object\<close>

record app_options =
  app_title :: pystr
  app_version :: pystr
  docs_url :: "pystr option"
  redoc_url :: "pystr option"

definition fastapi_app :: "settings \<Rightarrow> app_options" where
  "fastapi_app cfg =
     \<lparr>app_title = APP_NAME cfg, app_version = APP_VERSION cfg,
      docs_url = (if DEBUG cfg then Some ''/docs'' else None),
      redoc_url = (if DEBUG cfg then Some ''/redoc'' else None)\<rparr>"

record cors_options =
  allow_origins :: "pystr list"
  allow_credentials :: bool
  allow_methods :: "pystr list"
  allow_headers :: "pystr list"

definition cors_middleware :: "settings \<Rightarrow> cors_options" where
  "cors_middleware cfg =
     \<lparr>allow_origins = ALLOWED_ORIGINS cfg, allow_credentials = True, allow_methods = ALLOWED_METHODS cfg,
      allow_headers = ALLOWED_HEADERS cfg\<rparr>"

end
