(* ===== verification/Application.thy ===== *)
theory Application
  imports Interleaving Configuration
begin

text \<open>
  The application object of \<open>app/main.py\<close>: the layers around every endpoint (\<open>app/middleware/logging.py\<close> and the
  exception handlers) and the life of the process (\<open>lifespan\<close>, \<open>app/cache/client.py\<close>, \<open>app/tasks\<close>).  Starlette
  runs the handlers of the program's exceptions inside the middleware, and the handler of every other exception
  outside of it.  Header names are in lower case.
\<close>

section \<open>The layers of a request\<close>

record response =
  status_code :: nat
  content :: json
  headers :: "(pystr \<times> pystr) list"

definition error_response :: "nat \<Rightarrow> pystr \<Rightarrow> response" where
  "error_response st message =
     \<lparr>status_code = st,
      content = JObj [(''success'', JBool False), (''message'', JStr message), (''data'', JNull)], headers = []\<rparr>"

text \<open>
  The inner layer: \<open>app_exception_handler\<close> and \<open>http_exception_handler\<close>, and FastAPI's own answer to an invalid
  request, whose body is an argument.
\<close>

fun exception_layer :: "json \<Rightarrow> response result \<Rightarrow> response result" where
  "exception_layer invalid (Inl (App e)) = Inr (error_response (exc_status e) (exc_message e))"
| "exception_layer invalid (Inl (HTTPException st detail)) = Inr (error_response st detail)"
| "exception_layer invalid (Inl RequestValidationError) = Inr \<lparr>status_code = 422, content = invalid, headers = []\<rparr>"
| "exception_layer invalid res = res"

text \<open>
  \<open>RequestLoggingMiddleware.dispatch\<close>, with the lines it logs.  \<open>start\<close> and \<open>stop\<close> are the two readings of
  \<open>perf_counter\<close>, doubles in seconds; the logged duration is a number of hundredths of a millisecond.
\<close>

datatype log_line =
    RequestHandled pystr pystr nat int
  | RequestError pystr pystr exn

definition elapsed_ms :: "rat \<Rightarrow> rat \<Rightarrow> int" where
  "elapsed_ms start stop = round_half_even (to_double (to_double (stop - start) * 1000) * 100)"

fun dispatch ::
  "pystr \<Rightarrow> rat \<Rightarrow> rat \<Rightarrow> pystr \<Rightarrow> pystr \<Rightarrow> response result \<Rightarrow> response result \<times> log_line list"
where
  "dispatch request_id start stop meth path (Inl e) = (Inl e, [RequestError meth path e])"
| "dispatch request_id start stop meth path (Inr response) =
     (Inr (response\<lparr>headers := AList.update ''x-request-id'' request_id (headers response)\<rparr>),
      [RequestHandled meth path (status_code response) (elapsed_ms start stop)])"

text \<open>The outer layer: \<open>unhandled_exception_handler\<close>.\<close>

fun server_layer :: "response result \<Rightarrow> response" where
  "server_layer (Inl e) = error_response 500 ''Internal server error''"
| "server_layer (Inr response) = response"

text \<open>An endpoint with its status on success and the JSON form of its value.\<close>

definition application ::
  "json \<Rightarrow> pystr \<Rightarrow> rat \<Rightarrow> rat \<Rightarrow> pystr \<Rightarrow> pystr \<Rightarrow> nat \<Rightarrow> ('a \<Rightarrow> json) \<Rightarrow> ('r, 'a) handler \<Rightarrow> 'r world \<Rightarrow>
   response \<times> log_line list \<times> 'r world"
where
  "application invalid request_id start stop meth path ok render h w =
     (let (res, w') = h w;
          answer = (case res of Inl e \<Rightarrow> Inl e | Inr v \<Rightarrow> Inr \<lparr>status_code = ok, content = render v, headers = []\<rparr>);
          (out, logs) = dispatch request_id start stop meth path (exception_layer invalid answer)
      in (server_layer out, logs, w'))"

section \<open>The process\<close>

text \<open>
  The module-level singletons: the Redis client, the worker, and whether the engine is open; \<open>closed_clients\<close> lists the
  clients closed so far.
\<close>

record 'c process =
  redis_client :: "'c option"
  processor :: worker
  engine_open :: bool
  closed_clients :: "'c list"

definition get_redis :: "(redis_options \<Rightarrow> 'c) \<Rightarrow> settings \<Rightarrow> 'c process \<Rightarrow> 'c \<times> 'c process" where
  "get_redis from_url cfg p =
     (case redis_client p of
        Some client \<Rightarrow> (client, p)
      | None \<Rightarrow> (let client = from_url (redis_client_options cfg) in (client, p\<lparr>redis_client := Some client\<rparr>)))"

definition close_redis :: "'c process \<Rightarrow> 'c process" where
  "close_redis p =
     (case redis_client p of
        None \<Rightarrow> p
      | Some client \<Rightarrow> p\<lparr>redis_client := None, closed_clients := closed_clients p @ [client]\<rparr>)"

definition startup :: "(redis_options \<Rightarrow> 'c) \<Rightarrow> settings \<Rightarrow> 'c process \<Rightarrow> 'c process" where
  "startup from_url cfg p = (let (client, p1) = get_redis from_url cfg p in p1\<lparr>processor := start_worker (processor p1)\<rparr>)"

definition shutdown ::
  "('r, 'x) ext_scheme \<Rightarrow> settings \<Rightarrow> instant \<Rightarrow> uuid list \<Rightarrow> bool \<Rightarrow> 'c process \<Rightarrow> 'r world \<Rightarrow>
   unit result \<times> 'c process \<times> 'r world"
where
  "shutdown E cfg now ids in_flush p w =
     (case stop_worker E cfg now ids in_flush (processor p) w of
        (Inl e, s, w') \<Rightarrow> (Inl e, p\<lparr>processor := s\<rparr>, w')
      | (Inr _, s, w') \<Rightarrow> (Inr (), (close_redis (p\<lparr>processor := s\<rparr>))\<lparr>engine_open := False\<rparr>, w'))"

section \<open>Lemmas\<close>

text \<open>The exceptions that none of the inner handlers takes.\<close>

fun unhandled :: "'a result \<Rightarrow> bool" where
  "unhandled (Inr v) = False"
| "unhandled (Inl (App e)) = False"
| "unhandled (Inl (HTTPException st detail)) = False"
| "unhandled (Inl RequestValidationError) = False"
| "unhandled (Inl e) = True"

lemma get_redis_same:
  "get_redis from_url cfg p = (client, p1) \<Longrightarrow> get_redis from_url' cfg' p1 = (client, p1)"
  by (auto simp: get_redis_def Let_def split: option.splits)

lemma startup_state:
  "redis_client (startup from_url cfg p) \<noteq> None" "processor (startup from_url cfg p) = Running"
  by (auto simp: startup_def get_redis_def start_worker_def Let_def split: option.splits prod.splits)

lemma flush_batch:
  assumes "services E look cfg" "0 < ANALYTICS_BATCH_SIZE cfg" "redis_server.events_queued look (w_redis w) now es"
  defines "n \<equiv> nat (ANALYTICS_BATCH_SIZE cfg)"
  shows "flush E cfg now ids w =
    (case persist_batch ids now (take n es) (w_db w) of
       Inl e \<Rightarrow> (Inl e, snd (flush_pop E cfg now w))
     | Inr db' \<Rightarrow> (Inr (), (snd (flush_pop E cfg now w))\<lparr>w_db := db'\<rparr>))"
proof -
  have pop: "fst (flush_pop E cfg now w) = Inr (take n es)"
    unfolding n_def by (rule services.pop_queue(1) [OF assms(1,3,2)])
  have db: "w_db (snd (flush_pop E cfg now w)) = w_db w" by (rule services.pop_db [OF assms(1)])
  have none: "persist_batch ids now [] (w_db w) = Inr (w_db w)"
    by (simp add: persist_batch_def map_filter_simps counter_def bump_all_def)
  show ?thesis
    using pop db none by (cases "flush_pop E cfg now w"; cases "take n es = []") (auto simp: flush_def split: sum.split)
qed

text \<open>Outside debug mode nothing is served at the address that the root page redirects to: the redirect endpoint gets it.\<close>

lemma root_page_unserved:
  assumes "\<not> DEBUG cfg"
  shows "docs_url (fastapi_app cfg) = None \<and>
    redirect E cfg now req (drop 1 root_page) w = (Inl (HTTPException 404 ''Not Found''), w)"
  using assms by (simp add: fastapi_app_def redirect_def reserved_paths_def root_page_def)

section \<open>Properties\<close>

text \<open>
  The layers of a request: the status is that of the endpoint or of the handler of its exception, the state is
  what the endpoint left, every answer but one carries the request identifier, and the exception is the answer to an
  unhandled exception, which has the fixed body of a server error and no request identifier.
\<close>

lemma request_layers:
  "case application invalid request_id start stop meth path ok render h w of
     (r, logs, w') \<Rightarrow>
       status_code r = http_status ok (fst (h w)) \<and> w' = snd (h w) \<and>
       map_of (headers r) ''x-request-id'' = (if unhandled (fst (h w)) then None else Some request_id) \<and>
       logs = (case fst (h w) of
                 Inl e \<Rightarrow> if unhandled (fst (h w)) then [RequestError meth path e] else [RequestHandled meth path (status_code r) (elapsed_ms start stop)]
               | Inr v \<Rightarrow> [RequestHandled meth path ok (elapsed_ms start stop)]) \<and>
       (unhandled (fst (h w)) \<longrightarrow> r = error_response 500 ''Internal server error'')"
proof (cases "h w")
  case (Pair res w')
  show ?thesis
  proof (cases res)
    case (Inl e)
    then show ?thesis
      by (cases e) (simp_all add: Pair application_def http_status_def error_response_def)
  next
    case (Inr v)
    then show ?thesis by (simp add: Pair application_def http_status_def)
  qed
qed

text \<open>
  C40. Shutting down: the worker's final flush takes one batch from the queue and leaves the rest in Redis.  If the
  batch can be stored, the Redis client is closed and the engine disposed of; if not, the exception ends the
  shutdown at that point: the batch is lost, the client and the engine stay open, and the worker
  is left halted.
\<close>

theorem shutdown_outcome:
  assumes "services E look cfg" "0 < ANALYTICS_BATCH_SIZE cfg" "redis_server.events_queued look (w_redis w) now es"
    and "processor p = Running" "redis_client p = Some client"
    and "shutdown E cfg now ids False p w = (res, p', w')"
  defines "n \<equiv> nat (ANALYTICS_BATCH_SIZE cfg)"
  shows "redis_server.events_queued look (w_redis w') now (drop n es) \<and>
    (case persist_batch ids now (take n es) (w_db w) of
       Inr db' \<Rightarrow> res = Inr () \<and> w_db w' = db' \<and> redis_client p' = None \<and> closed_clients p' = closed_clients p @ [client] \<and>
         \<not> engine_open p' \<and> processor p' = Stopped
     | Inl e \<Rightarrow> res = Inl e \<and> w_db w' = w_db w \<and> redis_client p' = Some client \<and> closed_clients p' = closed_clients p \<and>
         engine_open p' = engine_open p \<and> processor p' = Halted)"
proof -
  have q: "redis_server.events_queued look (w_redis (snd (flush_pop E cfg now w))) now (drop n es)"
    unfolding n_def by (rule services.pop_queue(2) [OF assms(1,3,2)])
  have db: "w_db (snd (flush_pop E cfg now w)) = w_db w" by (rule services.pop_db [OF assms(1)])
  note flush = flush_batch [OF assms(1-3), of ids, folded n_def]
  show ?thesis
    using assms(4-6) q db flush
    by (cases "persist_batch ids now (take n es) (w_db w)")
      (auto simp: shutdown_def stop_worker_def Let_def close_redis_def)
qed

definition sample_process :: "nat process" where
  "sample_process = startup (\<lambda>opts. 1) default_settings
     \<lparr>redis_client = None, processor = Stopped, engine_open = True, closed_clients = []\<rparr>"

lemma sample_process_eq:
  "sample_process = \<lparr>redis_client = Some 1, processor = Running, engine_open = True, closed_clients = []\<rparr>"
  by (simp add: sample_process_def startup_def get_redis_def start_worker_def)

theorem shutdown_outcome_witness:
  "case shutdown sample_env default_settings 5 [3] False sample_process ghost_world of
     (res, p', w') \<Rightarrow> engine_open p' \<and> redis_client p' = Some 1 \<and> sample.events_queued (w_redis w') 5 []"
proof -
  obtain p where p: "parse_event ghost_click = Some p" "pc_url_id p = 99" using ghost_parsed by blast
  have "\<exists>e. persist_batch [3] 5 [ghost_click] (w_db ghost_world) = Inl e"
    by (rule persist_unknown_link [of p])
      (simp_all add: p map_filter_simps ghost_world_def sample_world_def sample_db_def sample_link_def new_short_url_def)
  moreover have "processor sample_process = Running" "redis_client sample_process = Some 1" "engine_open sample_process"
    by (simp_all add: sample_process_eq)
  moreover obtain res p' w' where out:
    "shutdown sample_env default_settings 5 [3] False sample_process ghost_world = (res, p', w')"
    by (metis prod_cases3)
  ultimately show ?thesis
    using shutdown_outcome [OF sample.services_axioms default_batch(1) ghost_queued _ _ out, of 1]
    by (auto simp: default_batch)
qed

end
