(* ===== verification/Catalog.thy ===== *)
theory Catalog
  imports Database
begin

text \<open>
  The part of SQL's data definition language that \<open>alembic/versions/0001_initial_schema.py\<close> sends, on a catalog of
  tables with columns, keys and indexes, and what it means for rows to satisfy a catalog.  The errors are those of
  PostgreSQL.
\<close>

section \<open>Tables\<close>

datatype sql_type = UuidT | VarcharT nat | TextT | BoolT | TimestampT | DateT | BigIntT | JsonT

record column =
  col_name :: pystr
  col_type :: sql_type
  col_nullable :: bool
  col_default :: "pystr option"

datatype delete_action = CascadeRows | SetNull

record foreign_key =
  fk_col :: pystr
  fk_table :: pystr
  fk_ref :: pystr
  fk_on_delete :: delete_action

record index =
  ix_name :: pystr
  ix_cols :: "pystr list"
  ix_unique :: bool

text \<open>A unique constraint has a name of its own or one that the server makes up.\<close>

record table =
  t_name :: pystr
  t_columns :: "column list"
  t_pk :: "pystr list"
  t_uniques :: "(pystr option \<times> pystr list) list"
  t_fks :: "foreign_key list"
  t_indexes :: "index list"

type_synonym catalog = "table list"

definition find_table :: "pystr \<Rightarrow> catalog \<Rightarrow> table option" where
  "find_table n c = find (\<lambda>t. t_name t = n) c"

definition column_names :: "table \<Rightarrow> pystr list" where
  "column_names t = map col_name (t_columns t)"

definition column_type :: "pystr \<Rightarrow> table \<Rightarrow> sql_type option" where
  "column_type n t = map_option col_type (find (\<lambda>k. col_name k = n) (t_columns t))"

text \<open>Tables, indexes and named constraints share one name space.\<close>

definition relation_names :: "table \<Rightarrow> pystr list" where
  "relation_names t = t_name t # map ix_name (t_indexes t) @ List.map_filter fst (t_uniques t)"

section \<open>Statements\<close>

datatype ddl_error =
    DuplicateRelation | DuplicateColumn | UndefinedTable | UndefinedColumn | InvalidForeignKey | DatatypeMismatch
  | DependentObjects

datatype ddl =
    CreateTable table
  | CreateIndex pystr pystr "pystr list" bool
  | DropTable pystr

text \<open>A foreign key names a column that is the primary key or unique, of the same type.\<close>

definition check_fk :: "catalog \<Rightarrow> table \<Rightarrow> foreign_key \<Rightarrow> ddl_error option" where
  "check_fk c t k =
     (if fk_col k \<notin> set (column_names t) then Some UndefinedColumn
      else
        (case find_table (fk_table k) c of
           None \<Rightarrow> Some UndefinedTable
         | Some u \<Rightarrow>
             if fk_ref k \<notin> set (column_names u) then Some UndefinedColumn
             else if t_pk u \<noteq> [fk_ref k] \<and> [fk_ref k] \<notin> snd ` set (t_uniques u) then Some InvalidForeignKey
             else if column_type (fk_ref k) u \<noteq> column_type (fk_col k) t then Some DatatypeMismatch
             else None))"

definition create_table :: "table \<Rightarrow> catalog \<Rightarrow> ddl_error + catalog" where
  "create_table t c =
     (if \<not> distinct (relation_names t) \<or> list_ex (\<lambda>n. n \<in> set (concat (map relation_names c))) (relation_names t)
      then Inl DuplicateRelation
      else if \<not> distinct (column_names t) then Inl DuplicateColumn
      else if \<not> list_all (\<lambda>n. n \<in> set (column_names t)) (t_pk t @ concat (map snd (t_uniques t))) then Inl UndefinedColumn
      else
        (case List.map_filter (check_fk (c @ [t]) t) (t_fks t) of
           e # _ \<Rightarrow> Inl e
         | [] \<Rightarrow> Inr (c @ [t])))"

definition create_index :: "pystr \<Rightarrow> pystr \<Rightarrow> pystr list \<Rightarrow> bool \<Rightarrow> catalog \<Rightarrow> ddl_error + catalog" where
  "create_index n tab cols uq c =
     (case find_table tab c of
        None \<Rightarrow> Inl UndefinedTable
      | Some t \<Rightarrow>
          if n \<in> set (concat (map relation_names c)) then Inl DuplicateRelation
          else if \<not> list_all (\<lambda>k. k \<in> set (column_names t)) cols then Inl UndefinedColumn
          else Inr (map (\<lambda>t. if t_name t = tab
                             then t\<lparr>t_indexes := t_indexes t @ [\<lparr>ix_name = n, ix_cols = cols, ix_unique = uq\<rparr>]\<rparr>
                             else t) c))"

text \<open>Without \<open>CASCADE\<close>, a table that another table refers to cannot be dropped.\<close>

definition drop_table :: "pystr \<Rightarrow> catalog \<Rightarrow> ddl_error + catalog" where
  "drop_table n c =
     (if find_table n c = None then Inl UndefinedTable
      else if list_ex (\<lambda>t. t_name t \<noteq> n \<and> list_ex (\<lambda>k. fk_table k = n) (t_fks t)) c then Inl DependentObjects
      else Inr (filter (\<lambda>t. t_name t \<noteq> n) c))"

fun run_ddl :: "ddl \<Rightarrow> catalog \<Rightarrow> ddl_error + catalog" where
  "run_ddl (CreateTable t) c = create_table t c"
| "run_ddl (CreateIndex n tab cols uq) c = create_index n tab cols uq c"
| "run_ddl (DropTable n) c = drop_table n c"

fun run_ddls :: "ddl list \<Rightarrow> catalog \<Rightarrow> ddl_error + catalog" where
  "run_ddls [] c = Inr c"
| "run_ddls (s # ss) c = (case run_ddl s c of Inl e \<Rightarrow> Inl e | Inr c' \<Rightarrow> run_ddls ss c')"

section \<open>Rows\<close>

datatype sql_value =
    SqlNull | SqlUuid uuid | SqlText pystr | SqlBool bool | SqlTime instant | SqlDate int | SqlInt int | SqlJson json

fun value_ok :: "sql_type \<Rightarrow> sql_value \<Rightarrow> bool" where
  "value_ok UuidT (SqlUuid u) = True"
| "value_ok (VarcharT n) (SqlText s) = (length s \<le> n)"
| "value_ok TextT (SqlText s) = True"
| "value_ok BoolT (SqlBool b) = True"
| "value_ok TimestampT (SqlTime t) = True"
| "value_ok DateT (SqlDate d) = True"
| "value_ok BigIntT (SqlInt i) = (- (2 ^ 63) \<le> i \<and> i < 2 ^ 63)"
| "value_ok JsonT (SqlJson j) = True"
| "value_ok _ _ = False"

type_synonym sql_row = "(pystr \<times> sql_value) list"
type_synonym contents = "pystr \<Rightarrow> sql_row list"

definition row_value :: "pystr \<Rightarrow> sql_row \<Rightarrow> sql_value" where
  "row_value n r = (case map_of r n of None \<Rightarrow> SqlNull | Some v \<Rightarrow> v)"

fun value_in_column :: "sql_type \<Rightarrow> bool \<Rightarrow> sql_value \<Rightarrow> bool" where
  "value_in_column ty nullable SqlNull = nullable"
| "value_in_column ty nullable v = value_ok ty v"

definition column_ok :: "column \<Rightarrow> sql_row \<Rightarrow> bool" where
  "column_ok k r = value_in_column (col_type k) (col_nullable k) (row_value (col_name k) r)"

definition not_null_values :: "pystr list \<Rightarrow> sql_row \<Rightarrow> sql_value list option" where
  "not_null_values cols r =
     (let vs = map (\<lambda>n. row_value n r) cols in if SqlNull \<in> set vs then None else Some vs)"

text \<open>A unique constraint ignores the rows with a \<open>NULL\<close> among its columns.\<close>

definition unique_ok :: "pystr list \<Rightarrow> sql_row list \<Rightarrow> bool" where
  "unique_ok cols rows = unique_col (not_null_values cols) rows"

definition fk_ok :: "contents \<Rightarrow> sql_row list \<Rightarrow> foreign_key \<Rightarrow> bool" where
  "fk_ok db rows k =
     list_all (\<lambda>r. row_value (fk_col k) r = SqlNull \<or>
       row_value (fk_col k) r \<in> set (map (row_value (fk_ref k)) (db (fk_table k)))) rows"

definition table_ok :: "contents \<Rightarrow> table \<Rightarrow> bool" where
  "table_ok db t \<longleftrightarrow>
     list_all (\<lambda>k. list_all (column_ok k) (db (t_name t))) (t_columns t) \<and>
     unique_ok (t_pk t) (db (t_name t)) \<and>
     list_all (\<lambda>cols. unique_ok cols (db (t_name t))) (map snd (t_uniques t)) \<and>
     list_all (\<lambda>ix. ix_unique ix \<longrightarrow> unique_ok (ix_cols ix) (db (t_name t))) (t_indexes t) \<and>
     list_all (fk_ok db (db (t_name t))) (t_fks t)"

definition catalog_ok :: "catalog \<Rightarrow> contents \<Rightarrow> bool" where
  "catalog_ok c db \<longleftrightarrow> list_all (table_ok db) c"

section \<open>Deleting rows\<close>

text \<open>
  \<open>DELETE\<close> with the actions of the foreign keys that refer to the deleted rows.  A cascade goes on as long as the
  chain of foreign keys, which is no longer than the catalog when they form no cycle.
\<close>

definition set_null :: "pystr \<Rightarrow> sql_row \<Rightarrow> sql_row" where
  "set_null n r = map (\<lambda>(k, v). (k, if k = n then SqlNull else v)) r"

definition referring :: "catalog \<Rightarrow> pystr \<Rightarrow> (pystr \<times> foreign_key) list" where
  "referring c n = concat (map (\<lambda>t. map (Pair (t_name t)) (filter (\<lambda>k. fk_table k = n) (t_fks t))) c)"

fun delete_rows :: "nat \<Rightarrow> catalog \<Rightarrow> pystr \<Rightarrow> (sql_row \<Rightarrow> bool) \<Rightarrow> contents \<Rightarrow> contents" where
  "delete_rows 0 c n p db = db"
| "delete_rows (Suc m) c n p db =
     (let gone = filter p (db n);
          db1 = db(n := filter (\<lambda>r. \<not> p r) (db n))
      in fold (\<lambda>(tab, k) d.
            let hit = (\<lambda>r. row_value (fk_col k) r \<noteq> SqlNull \<and> row_value (fk_col k) r \<in> set (map (row_value (fk_ref k)) gone))
            in case fk_on_delete k of
                 CascadeRows \<Rightarrow> delete_rows m c tab hit d
               | SetNull \<Rightarrow> d(tab := map (\<lambda>r. if hit r then set_null (fk_col k) r else r) (d tab)))
          (referring c n) db1)"

section \<open>Dropping what was created\<close>

lemma run_ddls_append: "run_ddls (ss @ ss') c = (case run_ddls ss c of Inl e \<Rightarrow> Inl e | Inr c' \<Rightarrow> run_ddls ss' c')"
  by (induction ss arbitrary: c) (auto split: sum.splits)

lemma find_table_append: "find_table n (c @ c') = (case find_table n c of None \<Rightarrow> find_table n c' | Some t \<Rightarrow> Some t)"
  unfolding find_table_def by (induction c) auto

lemma find_table_None: "find_table n c = None \<longleftrightarrow> n \<notin> t_name ` set c"
  by (auto simp: find_table_def find_None)

section \<open>Statements beside other tables\<close>

text \<open>The relations a statement creates, changes, drops or refers to.\<close>

fun mentioned :: "ddl \<Rightarrow> pystr set" where
  "mentioned (CreateTable t) = set (relation_names t) \<union> fk_table ` set (t_fks t)"
| "mentioned (CreateIndex n tab cols uq) = {n, tab}"
| "mentioned (DropTable n) = {n}"

definition all_names :: "catalog \<Rightarrow> pystr set" where
  "all_names c = (\<Union>t \<in> set c. set (relation_names t))"

text \<open>Tables beside the script: it mentions none of their names, and they refer to none of its tables.\<close>

definition beside :: "ddl list \<Rightarrow> catalog \<Rightarrow> bool" where
  "beside ss c \<longleftrightarrow> list_all (\<lambda>s. mentioned s \<inter> all_names c = {} \<and>
     list_all (\<lambda>t. list_all (\<lambda>k. fk_table k \<notin> mentioned s) (t_fks t)) c) ss"

lemma table_name_in: "t \<in> set c \<Longrightarrow> t_name t \<in> all_names c"
  by (auto simp: all_names_def relation_names_def)

lemma find_table_beside: "n \<notin> all_names c \<Longrightarrow> find_table n (c @ d) = find_table n d"
  using table_name_in by (auto simp: find_table_append find_table_None split: option.split)
    (metis find_table_None imageE option.distinct(1))

lemma check_fk_beside: "fk_table k \<notin> all_names c \<Longrightarrow> check_fk (c @ d) t k = check_fk d t k"
  by (simp add: check_fk_def find_table_beside)

lemma map_filter_same: "(\<And>x. x \<in> set xs \<Longrightarrow> f x = g x) \<Longrightarrow> List.map_filter f xs = List.map_filter g xs"
  by (induction xs) (auto simp: map_filter_simps split: option.split)

lemma run_ddl_beside:
  assumes "mentioned s \<inter> all_names c = {}" "list_all (\<lambda>t. list_all (\<lambda>k. fk_table k \<notin> mentioned s) (t_fks t)) c"
  shows "run_ddl s (c @ d) = map_sum id ((@) c) (run_ddl s d)"
proof (cases s)
  case (CreateTable t)
  have "list_ex (\<lambda>n. n \<in> set (concat (map relation_names (c @ d)))) (relation_names t) =
      list_ex (\<lambda>n. n \<in> set (concat (map relation_names d))) (relation_names t)"
    using assms(1) CreateTable by (auto simp: list_ex_iff all_names_def)
  moreover have "List.map_filter (check_fk ((c @ d) @ [t]) t) (t_fks t) = List.map_filter (check_fk (d @ [t]) t) (t_fks t)"
  proof (rule map_filter_same)
    fix k assume "k \<in> set (t_fks t)"
    then have "fk_table k \<notin> all_names c" using assms(1) CreateTable by auto
    then show "check_fk ((c @ d) @ [t]) t k = check_fk (d @ [t]) t k" by (simp add: check_fk_beside)
  qed
  ultimately show ?thesis by (simp add: CreateTable create_table_def split: list.split)
next
  case (CreateIndex n tab cols uq)
  have "n \<notin> all_names c" "tab \<notin> all_names c" using assms(1) CreateIndex by auto
  moreover have "map (\<lambda>t. if t_name t = tab then f t else t) c = c" for f
    using \<open>tab \<notin> all_names c\<close> table_name_in by (intro map_idI) auto
  ultimately show ?thesis
    by (auto simp: CreateIndex create_index_def find_table_beside all_names_def split: option.split)
next
  case (DropTable n)
  then have "n \<notin> all_names c" using assms(1) by auto
  moreover have "filter (\<lambda>t. t_name t \<noteq> n) c = c"
    using calculation table_name_in by (auto simp: filter_id_conv)
  moreover have "\<not> list_ex (\<lambda>t. t_name t \<noteq> n \<and> list_ex (\<lambda>k. fk_table k = n) (t_fks t)) c"
    using assms(2) DropTable by (auto simp: list_ex_iff list_all_iff)
  ultimately show ?thesis by (simp add: DropTable drop_table_def find_table_beside)
qed

lemma run_ddls_beside: "beside ss c \<Longrightarrow> run_ddls ss (c @ d) = map_sum id ((@) c) (run_ddls ss d)"
proof (induction ss arbitrary: d)
  case (Cons s ss)
  then have "run_ddl s (c @ d) = map_sum id ((@) c) (run_ddl s d)" "beside ss c"
    using run_ddl_beside by (simp_all add: beside_def)
  with Cons.IH show ?case by (cases "run_ddl s d") simp_all
qed simp

end
