(* ===== verification/Migration.thy ===== *)
theory Migration
  imports Catalog
begin

text \<open>
  The migration \<open>alembic/versions/0001_initial_schema.py\<close> and the declarations of \<open>app/models\<close>, as data, statement
  by statement and attribute by attribute.  The lemmas compare the two and take the migration back; theories
  \<open>Conformance\<close> and \<open>Inserts\<close> relate them to the tables of \<open>Database\<close>.
\<close>

section \<open>The migration\<close>

definition sa_column :: "pystr \<Rightarrow> sql_type \<Rightarrow> bool \<Rightarrow> pystr option \<Rightarrow> column" where
  "sa_column n ty nullable dflt = \<lparr>col_name = n, col_type = ty, col_nullable = nullable, col_default = dflt\<rparr>"

definition create_users :: table where
  "create_users =
     \<lparr>t_name = ''users'',
      t_columns =
        [sa_column ''id'' UuidT False None,
         sa_column ''email'' (VarcharT 255) False None,
         sa_column ''hashed_password'' (VarcharT 255) False None,
         sa_column ''full_name'' (VarcharT 255) True None,
         sa_column ''role'' (VarcharT 20) False (Some ''user''),
         sa_column ''is_active'' BoolT False (Some ''true''),
         sa_column ''is_verified'' BoolT False (Some ''false''),
         sa_column ''created_at'' TimestampT False (Some ''now()''),
         sa_column ''updated_at'' TimestampT False (Some ''now()'')],
      t_pk = [''id''],
      t_uniques = [],
      t_fks = [],
      t_indexes = []\<rparr>"

definition create_short_urls :: table where
  "create_short_urls =
     \<lparr>t_name = ''short_urls'',
      t_columns =
        [sa_column ''id'' UuidT False None,
         sa_column ''original_url'' TextT False None,
         sa_column ''short_code'' (VarcharT 50) False None,
         sa_column ''custom_alias'' (VarcharT 50) True None,
         sa_column ''title'' (VarcharT 255) True None,
         sa_column ''owner_id'' UuidT True None,
         sa_column ''is_active'' BoolT False (Some ''true''),
         sa_column ''is_public'' BoolT False (Some ''true''),
         sa_column ''expires_at'' TimestampT True None,
         sa_column ''click_count'' BigIntT False (Some ''0''),
         sa_column ''created_at'' TimestampT False (Some ''now()''),
         sa_column ''updated_at'' TimestampT False (Some ''now()'')],
      t_pk = [''id''],
      t_uniques = [(None, [''short_code'']), (None, [''custom_alias''])],
      t_fks = [\<lparr>fk_col = ''owner_id'', fk_table = ''users'', fk_ref = ''id'', fk_on_delete = SetNull\<rparr>],
      t_indexes = []\<rparr>"

definition create_click_events :: table where
  "create_click_events =
     \<lparr>t_name = ''click_events'',
      t_columns =
        [sa_column ''id'' UuidT False None,
         sa_column ''short_url_id'' UuidT False None,
         sa_column ''visitor_hash'' (VarcharT 64) True None,
         sa_column ''country'' (VarcharT 2) True None,
         sa_column ''city'' (VarcharT 100) True None,
         sa_column ''referrer'' (VarcharT 2048) True None,
         sa_column ''user_agent'' (VarcharT 512) True None,
         sa_column ''browser'' (VarcharT 50) True None,
         sa_column ''os'' (VarcharT 50) True None,
         sa_column ''device'' (VarcharT 20) True None,
         sa_column ''created_at'' TimestampT False (Some ''now()''),
         sa_column ''updated_at'' TimestampT False (Some ''now()'')],
      t_pk = [''id''],
      t_uniques = [],
      t_fks = [\<lparr>fk_col = ''short_url_id'', fk_table = ''short_urls'', fk_ref = ''id'', fk_on_delete = CascadeRows\<rparr>],
      t_indexes = []\<rparr>"

definition create_analytics_snapshots :: table where
  "create_analytics_snapshots =
     \<lparr>t_name = ''analytics_snapshots'',
      t_columns =
        [sa_column ''id'' UuidT False None,
         sa_column ''short_url_id'' UuidT False None,
         sa_column ''snapshot_date'' DateT False None,
         sa_column ''total_clicks'' BigIntT False (Some ''0''),
         sa_column ''unique_visitors'' BigIntT False (Some ''0''),
         sa_column ''country_data'' JsonT False (Some ''{}''),
         sa_column ''browser_data'' JsonT False (Some ''{}''),
         sa_column ''os_data'' JsonT False (Some ''{}''),
         sa_column ''device_data'' JsonT False (Some ''{}''),
         sa_column ''referrer_data'' JsonT False (Some ''{}''),
         sa_column ''created_at'' TimestampT False (Some ''now()''),
         sa_column ''updated_at'' TimestampT False (Some ''now()'')],
      t_pk = [''id''],
      t_uniques = [(Some ''uq_snapshot_url_date'', [''short_url_id'', ''snapshot_date''])],
      t_fks = [\<lparr>fk_col = ''short_url_id'', fk_table = ''short_urls'', fk_ref = ''id'', fk_on_delete = CascadeRows\<rparr>],
      t_indexes = []\<rparr>"

definition create_refresh_tokens :: table where
  "create_refresh_tokens =
     \<lparr>t_name = ''refresh_tokens'',
      t_columns =
        [sa_column ''id'' UuidT False None,
         sa_column ''user_id'' UuidT False None,
         sa_column ''token_hash'' (VarcharT 64) False None,
         sa_column ''expires_at'' TimestampT False None,
         sa_column ''is_revoked'' BoolT False (Some ''false''),
         sa_column ''user_agent'' (VarcharT 512) True None,
         sa_column ''ip_address'' (VarcharT 45) True None,
         sa_column ''created_at'' TimestampT False (Some ''now()''),
         sa_column ''updated_at'' TimestampT False (Some ''now()'')],
      t_pk = [''id''],
      t_uniques = [(None, [''token_hash''])],
      t_fks = [\<lparr>fk_col = ''user_id'', fk_table = ''users'', fk_ref = ''id'', fk_on_delete = CascadeRows\<rparr>],
      t_indexes = []\<rparr>"

definition upgrade :: "ddl list" where
  "upgrade =
     [CreateTable create_users,
      CreateIndex ''ix_users_email'' ''users'' [''email''] True,
      CreateIndex ''ix_users_email_active'' ''users'' [''email'', ''is_active''] False,
      CreateTable create_short_urls,
      CreateIndex ''ix_short_urls_short_code'' ''short_urls'' [''short_code''] False,
      CreateIndex ''ix_short_urls_owner_active'' ''short_urls'' [''owner_id'', ''is_active''] False,
      CreateIndex ''ix_short_urls_expires_at'' ''short_urls'' [''expires_at''] False,
      CreateTable create_click_events,
      CreateIndex ''ix_click_events_url_created'' ''click_events'' [''short_url_id'', ''created_at''] False,
      CreateIndex ''ix_click_events_created_at'' ''click_events'' [''created_at''] False,
      CreateIndex ''ix_click_events_country'' ''click_events'' [''country''] False,
      CreateTable create_analytics_snapshots,
      CreateIndex ''ix_snapshots_url_date'' ''analytics_snapshots'' [''short_url_id'', ''snapshot_date''] False,
      CreateTable create_refresh_tokens,
      CreateIndex ''ix_refresh_tokens_hash'' ''refresh_tokens'' [''token_hash''] False,
      CreateIndex ''ix_refresh_tokens_user_active'' ''refresh_tokens'' [''user_id'', ''is_revoked''] False]"

definition downgrade :: "ddl list" where
  "downgrade =
     [DropTable ''refresh_tokens'', DropTable ''analytics_snapshots'', DropTable ''click_events'', DropTable ''short_urls'',
      DropTable ''users'']"

text \<open>\<open>do_run_migrations\<close> of \<open>alembic/env.py\<close>: what alembic runs, in one transaction.\<close>

definition do_run_migrations :: "(catalog \<Rightarrow> ddl_error + catalog) \<Rightarrow> catalog \<Rightarrow> (ddl_error + unit) \<times> catalog" where
  "do_run_migrations run_migrations c =
     (case run_migrations c of Inl e \<Rightarrow> (Inl e, c) | Inr c' \<Rightarrow> (Inr (), c'))"

text \<open>
  \<open>run_migrations_offline\<close>: the same statements as a script, inside one transaction, for a server to execute later.
  A statement that fails makes the server skip the rest of its transaction and roll it back at the commit.
\<close>

datatype script_line = Begin | Statement ddl | Commit

definition run_migrations_offline :: "ddl list \<Rightarrow> script_line list" where
  "run_migrations_offline ss = Begin # map Statement ss @ [Commit]"

fun execute_script :: "script_line list \<Rightarrow> ddl_error + catalog \<Rightarrow> catalog \<Rightarrow> catalog" where
  "execute_script [] cur c = c"
| "execute_script (Begin # ls) cur c = execute_script ls (Inr c) c"
| "execute_script (Statement s # ls) (Inl e) c = execute_script ls (Inl e) c"
| "execute_script (Statement s # ls) (Inr d) c = execute_script ls (run_ddl s d) c"
| "execute_script (Commit # ls) (Inl e) c = execute_script ls (Inr c) c"
| "execute_script (Commit # ls) (Inr d) c = execute_script ls (Inr d) d"

text \<open>The tables after the migration.\<close>

definition migrated :: catalog where
  "migrated =
     [create_users\<lparr>t_indexes :=
        [\<lparr>ix_name = ''ix_users_email'', ix_cols = [''email''], ix_unique = True\<rparr>,
         \<lparr>ix_name = ''ix_users_email_active'', ix_cols = [''email'', ''is_active''], ix_unique = False\<rparr>]\<rparr>,
      create_short_urls\<lparr>t_indexes :=
        [\<lparr>ix_name = ''ix_short_urls_short_code'', ix_cols = [''short_code''], ix_unique = False\<rparr>,
         \<lparr>ix_name = ''ix_short_urls_owner_active'', ix_cols = [''owner_id'', ''is_active''], ix_unique = False\<rparr>,
         \<lparr>ix_name = ''ix_short_urls_expires_at'', ix_cols = [''expires_at''], ix_unique = False\<rparr>]\<rparr>,
      create_click_events\<lparr>t_indexes :=
        [\<lparr>ix_name = ''ix_click_events_url_created'', ix_cols = [''short_url_id'', ''created_at''], ix_unique = False\<rparr>,
         \<lparr>ix_name = ''ix_click_events_created_at'', ix_cols = [''created_at''], ix_unique = False\<rparr>,
         \<lparr>ix_name = ''ix_click_events_country'', ix_cols = [''country''], ix_unique = False\<rparr>]\<rparr>,
      create_analytics_snapshots\<lparr>t_indexes :=
        [\<lparr>ix_name = ''ix_snapshots_url_date'', ix_cols = [''short_url_id'', ''snapshot_date''], ix_unique = False\<rparr>]\<rparr>,
      create_refresh_tokens\<lparr>t_indexes :=
        [\<lparr>ix_name = ''ix_refresh_tokens_hash'', ix_cols = [''token_hash''], ix_unique = False\<rparr>,
         \<lparr>ix_name = ''ix_refresh_tokens_user_active'', ix_cols = [''user_id'', ''is_revoked''], ix_unique = False\<rparr>]\<rparr>]"

section \<open>The declarations\<close>

text \<open>
  An attribute of a model is a \<open>mapped_column\<close> with its options; without \<open>nullable\<close> the type annotation decides.
  \<open>a_server_default\<close> is part of the table; \<open>a_default\<close> is a value, or a function, that an \<open>INSERT\<close> of the program uses for
  an attribute that was not given.
\<close>

datatype python_default = Uuid4 | Default sql_value

record attribute =
  a_name :: pystr
  a_type :: sql_type
  a_nullable :: bool
  a_primary :: bool
  a_unique :: bool
  a_indexed :: bool
  a_fk :: "(pystr \<times> pystr \<times> delete_action) option"
  a_default :: "python_default option"
  a_server_default :: "pystr option"

definition mapped_column :: "pystr \<Rightarrow> sql_type \<Rightarrow> bool \<Rightarrow> attribute" where
  "mapped_column n ty nullable =
     \<lparr>a_name = n, a_type = ty, a_nullable = nullable, a_primary = False, a_unique = False, a_indexed = False, a_fk = None,
      a_default = None, a_server_default = None\<rparr>"

record model =
  m_table :: pystr
  m_attributes :: "attribute list"
  m_uniques :: "(pystr option \<times> pystr list) list"
  m_indexes :: "index list"

definition base_attributes :: "attribute list" where
  "base_attributes =
     [(mapped_column ''id'' UuidT False)\<lparr>a_primary := True, a_default := Some Uuid4\<rparr>,
      (mapped_column ''created_at'' TimestampT False)\<lparr>a_server_default := Some ''now()''\<rparr>,
      (mapped_column ''updated_at'' TimestampT False)\<lparr>a_server_default := Some ''now()''\<rparr>]"

definition user_model :: model where
  "user_model =
     \<lparr>m_table = ''users'',
      m_attributes =
        [(mapped_column ''email'' (VarcharT 255) False)\<lparr>a_unique := True, a_indexed := True\<rparr>,
         mapped_column ''hashed_password'' (VarcharT 255) False,
         mapped_column ''full_name'' (VarcharT 255) True,
         (mapped_column ''role'' (VarcharT 20) False)\<lparr>a_default := Some (Default (SqlText ''user''))\<rparr>,
         (mapped_column ''is_active'' BoolT False)\<lparr>a_default := Some (Default (SqlBool True))\<rparr>,
         (mapped_column ''is_verified'' BoolT False)\<lparr>a_default := Some (Default (SqlBool False))\<rparr>],
      m_uniques = [],
      m_indexes = [\<lparr>ix_name = ''ix_users_email_active'', ix_cols = [''email'', ''is_active''], ix_unique = False\<rparr>]\<rparr>"

definition short_url_model :: model where
  "short_url_model =
     \<lparr>m_table = ''short_urls'',
      m_attributes =
        [mapped_column ''original_url'' TextT False,
         (mapped_column ''short_code'' (VarcharT 50) False)\<lparr>a_unique := True\<rparr>,
         (mapped_column ''custom_alias'' (VarcharT 50) True)\<lparr>a_unique := True\<rparr>,
         mapped_column ''title'' (VarcharT 255) True,
         (mapped_column ''owner_id'' UuidT True)\<lparr>a_indexed := True, a_fk := Some (''users'', ''id'', SetNull)\<rparr>,
         (mapped_column ''is_active'' BoolT False)\<lparr>a_default := Some (Default (SqlBool True))\<rparr>,
         (mapped_column ''is_public'' BoolT False)\<lparr>a_default := Some (Default (SqlBool True))\<rparr>,
         mapped_column ''expires_at'' TimestampT True,
         (mapped_column ''click_count'' BigIntT False)\<lparr>a_default := Some (Default (SqlInt 0))\<rparr>],
      m_uniques = [],
      m_indexes =
        [\<lparr>ix_name = ''ix_short_urls_short_code'', ix_cols = [''short_code''], ix_unique = False\<rparr>,
         \<lparr>ix_name = ''ix_short_urls_owner_active'', ix_cols = [''owner_id'', ''is_active''], ix_unique = False\<rparr>,
         \<lparr>ix_name = ''ix_short_urls_expires_at'', ix_cols = [''expires_at''], ix_unique = False\<rparr>]\<rparr>"

definition click_event_model :: model where
  "click_event_model =
     \<lparr>m_table = ''click_events'',
      m_attributes =
        [(mapped_column ''short_url_id'' UuidT False)
           \<lparr>a_indexed := True, a_fk := Some (''short_urls'', ''id'', CascadeRows)\<rparr>,
         mapped_column ''visitor_hash'' (VarcharT 64) True,
         mapped_column ''country'' (VarcharT 2) True,
         mapped_column ''city'' (VarcharT 100) True,
         mapped_column ''referrer'' (VarcharT 2048) True,
         mapped_column ''user_agent'' (VarcharT 512) True,
         mapped_column ''browser'' (VarcharT 50) True,
         mapped_column ''os'' (VarcharT 50) True,
         mapped_column ''device'' (VarcharT 20) True],
      m_uniques = [],
      m_indexes =
        [\<lparr>ix_name = ''ix_click_events_url_created'', ix_cols = [''short_url_id'', ''created_at''], ix_unique = False\<rparr>,
         \<lparr>ix_name = ''ix_click_events_created_at'', ix_cols = [''created_at''], ix_unique = False\<rparr>,
         \<lparr>ix_name = ''ix_click_events_country'', ix_cols = [''country''], ix_unique = False\<rparr>]\<rparr>"

definition snapshot_model :: model where
  "snapshot_model =
     \<lparr>m_table = ''analytics_snapshots'',
      m_attributes =
        [(mapped_column ''short_url_id'' UuidT False)\<lparr>a_fk := Some (''short_urls'', ''id'', CascadeRows)\<rparr>,
         mapped_column ''snapshot_date'' DateT False,
         (mapped_column ''total_clicks'' BigIntT False)\<lparr>a_default := Some (Default (SqlInt 0))\<rparr>,
         (mapped_column ''unique_visitors'' BigIntT False)\<lparr>a_default := Some (Default (SqlInt 0))\<rparr>,
         (mapped_column ''country_data'' JsonT False)\<lparr>a_default := Some (Default (SqlJson (JObj [])))\<rparr>,
         (mapped_column ''browser_data'' JsonT False)\<lparr>a_default := Some (Default (SqlJson (JObj [])))\<rparr>,
         (mapped_column ''os_data'' JsonT False)\<lparr>a_default := Some (Default (SqlJson (JObj [])))\<rparr>,
         (mapped_column ''device_data'' JsonT False)\<lparr>a_default := Some (Default (SqlJson (JObj [])))\<rparr>,
         (mapped_column ''referrer_data'' JsonT False)\<lparr>a_default := Some (Default (SqlJson (JObj [])))\<rparr>],
      m_uniques = [(Some ''uq_snapshot_url_date'', [''short_url_id'', ''snapshot_date''])],
      m_indexes =
        [\<lparr>ix_name = ''ix_snapshots_url_date'', ix_cols = [''short_url_id'', ''snapshot_date''], ix_unique = False\<rparr>]\<rparr>"

definition refresh_token_model :: model where
  "refresh_token_model =
     \<lparr>m_table = ''refresh_tokens'',
      m_attributes =
        [(mapped_column ''user_id'' UuidT False)\<lparr>a_indexed := True, a_fk := Some (''users'', ''id'', CascadeRows)\<rparr>,
         (mapped_column ''token_hash'' (VarcharT 64) False)\<lparr>a_unique := True\<rparr>,
         mapped_column ''expires_at'' TimestampT False,
         (mapped_column ''is_revoked'' BoolT False)\<lparr>a_default := Some (Default (SqlBool False))\<rparr>,
         mapped_column ''user_agent'' (VarcharT 512) True,
         mapped_column ''ip_address'' (VarcharT 45) True],
      m_uniques = [],
      m_indexes =
        [\<lparr>ix_name = ''ix_refresh_tokens_hash'', ix_cols = [''token_hash''], ix_unique = False\<rparr>,
         \<lparr>ix_name = ''ix_refresh_tokens_user_active'', ix_cols = [''user_id'', ''is_revoked''], ix_unique = False\<rparr>]\<rparr>"

definition metadata :: "model list" where
  "metadata = [user_model, short_url_model, click_event_model, snapshot_model, refresh_token_model]"

text \<open>
  The table of a model: \<open>unique=True\<close> is a constraint, unless \<open>index=True\<close> makes it a unique index; an index made by
  \<open>index=True\<close> is named after its table and column.
\<close>

definition model_table :: "model \<Rightarrow> table" where
  "model_table m =
     (let attrs = base_attributes @ m_attributes m
      in \<lparr>t_name = m_table m,
          t_columns = map (\<lambda>a. sa_column (a_name a) (a_type a) (a_nullable a) (a_server_default a)) attrs,
          t_pk = map a_name (filter a_primary attrs),
          t_uniques = map (\<lambda>a. (None, [a_name a])) (filter (\<lambda>a. a_unique a \<and> \<not> a_indexed a) attrs) @ m_uniques m,
          t_fks = List.map_filter (\<lambda>a. map_option (\<lambda>(tab, ref, act).
              \<lparr>fk_col = a_name a, fk_table = tab, fk_ref = ref, fk_on_delete = act\<rparr>) (a_fk a)) attrs,
          t_indexes = map (\<lambda>a. \<lparr>ix_name = ''ix_'' @ m_table m @ ''_'' @ a_name a, ix_cols = [a_name a], ix_unique = a_unique a\<rparr>)
              (filter a_indexed attrs) @ m_indexes m\<rparr>)"

section \<open>Comparing the two\<close>

definition column_shape :: "column \<Rightarrow> pystr \<times> sql_type \<times> bool" where
  "column_shape k = (col_name k, col_type k, col_nullable k)"

text \<open>The same columns and keys, the defaults that the model declares, and no index that the model lacks.\<close>

definition same_table :: "table \<Rightarrow> table \<Rightarrow> bool" where
  "same_table t u \<longleftrightarrow> t_name t = t_name u \<and>
     set (map column_shape (t_columns t)) = set (map column_shape (t_columns u)) \<and> t_pk t = t_pk u \<and>
     list_all (\<lambda>k. col_default k = None \<or> k \<in> set (t_columns t)) (t_columns u) \<and>
     set (t_uniques t) = set (t_uniques u) \<and> set (t_fks t) = set (t_fks u) \<and>
     list_all (\<lambda>i. i \<in> set (t_indexes u)) (t_indexes t)"

definition missing_indexes :: "catalog \<Rightarrow> catalog \<Rightarrow> pystr list" where
  "missing_indexes c d =
     concat (map2 (\<lambda>t u. map ix_name (filter (\<lambda>i. i \<notin> set (t_indexes t)) (t_indexes u))) c d)"

lemma execute_statements:
  "execute_script (map Statement ss @ [Commit]) (Inl e) c = c"
  "execute_script (map Statement ss @ [Commit]) (Inr d) c = (case run_ddls ss d of Inl e \<Rightarrow> c | Inr d' \<Rightarrow> d')"
proof -
  show skipped: "execute_script (map Statement ss @ [Commit]) (Inl e) c = c" for ss e by (induction ss) simp_all
  show "execute_script (map Statement ss @ [Commit]) (Inr d) c = (case run_ddls ss d of Inl e \<Rightarrow> c | Inr d' \<Rightarrow> d')"
    using skipped by (induction ss arbitrary: d) (auto split: sum.split)
qed

text \<open>The script and the connected run leave the same catalog.\<close>

lemma offline_script:
  "execute_script (run_migrations_offline ss) cur c = snd (do_run_migrations (run_ddls ss) c)"
  by (simp add: run_migrations_offline_def do_run_migrations_def execute_statements split: sum.split)

lemma upgrade_empty: "run_ddls upgrade [] = Inr migrated"
  by code_simp

lemma round_trip_empty: "run_ddls (upgrade @ downgrade) [] = Inr []"
  by code_simp

section \<open>Properties\<close>

text \<open>
  The migration runs on an empty database and makes the tables that the models declare: the same columns with
  types and nullability, every default that a model leaves to the server, the same primary keys, unique constraints and
  foreign keys with their actions.  It lacks exactly the three indexes that \<open>index=True\<close> declares on foreign keys.
\<close>

lemma migration_makes_models:
  "case run_ddls upgrade [] of
     Inl e \<Rightarrow> False
   | Inr c \<Rightarrow> list_all2 same_table c (map model_table metadata) \<and>
       missing_indexes c (map model_table metadata) =
         [''ix_short_urls_owner_id'', ''ix_click_events_short_url_id'', ''ix_refresh_tokens_user_id'']"
  by code_simp

text \<open>
  C38. The downgrade takes the migration back: in a database whose other tables share no name with the script and do
  not refer to its tables, running the upgrade and then the downgrade succeeds and leaves the catalog as it was, and the offline script of the
  upgrade makes the same tables as the connected run.
\<close>

theorem downgrade_undoes_upgrade:
  assumes "beside (upgrade @ downgrade) c"
  shows "do_run_migrations (run_ddls upgrade) c = (Inr (), c @ migrated) \<and>
    do_run_migrations (run_ddls downgrade) (c @ migrated) = (Inr (), c) \<and>
    execute_script (run_migrations_offline upgrade) cur c = c @ migrated"
proof -
  have b: "beside upgrade c" "beside downgrade c" using assms by (simp_all add: beside_def)
  have "run_ddls downgrade migrated = Inr []"
    using round_trip_empty upgrade_empty by (simp add: run_ddls_append)
  then show ?thesis
    using run_ddls_beside [OF b(1), of "[]"] run_ddls_beside [OF b(2), of migrated] upgrade_empty
    by (simp add: do_run_migrations_def offline_script)
qed

text \<open>Beside the table in which alembic keeps the revision.\<close>

definition alembic_version :: table where
  "alembic_version =
     \<lparr>t_name = ''alembic_version'', t_columns = [sa_column ''version_num'' (VarcharT 32) False None],
      t_pk = [''version_num''], t_uniques = [], t_fks = [], t_indexes = []\<rparr>"

lemma alembic_beside: "beside (upgrade @ downgrade) [alembic_version]"
proof -
  have "all_names [alembic_version] = {''alembic_version''}"
    by (simp add: all_names_def alembic_version_def relation_names_def map_filter_simps)
  then show ?thesis
    by (simp add: beside_def upgrade_def downgrade_def create_users_def create_short_urls_def create_click_events_def
        create_analytics_snapshots_def create_refresh_tokens_def relation_names_def map_filter_simps alembic_version_def)
qed

theorem downgrade_undoes_upgrade_witness:
  "do_run_migrations (run_ddls downgrade) (alembic_version # migrated) = (Inr (), [alembic_version])"
  using downgrade_undoes_upgrade [OF alembic_beside] by simp

end
