(* ===== verification/Conformance.thy ===== *)
theory Conformance
  imports Migration
begin

text \<open>
  The tables of \<open>Database\<close> as rows of the migrated catalog: the constraints written out there are those of the
  migration, and deleting a link there is what the foreign keys of the migration make of a \<open>DELETE\<close>.
\<close>

section \<open>Rows\<close>

fun sql_option :: "('a \<Rightarrow> sql_value) \<Rightarrow> 'a option \<Rightarrow> sql_value" where
  "sql_option f None = SqlNull"
| "sql_option f (Some v) = f v"

definition id_value :: "'a base_row_scheme \<Rightarrow> sql_row" where
  "id_value r = [(''id'', SqlUuid (row_id r))]"

definition stamp_values :: "'a base_row_scheme \<Rightarrow> sql_row" where
  "stamp_values r = [(''created_at'', SqlTime (created_at r)), (''updated_at'', SqlTime (updated_at r))]"

definition user_values :: "user \<Rightarrow> sql_row" where
  "user_values u = id_value u @
     [(''email'', SqlText (email u)), (''hashed_password'', SqlText (hashed_password u)),
      (''full_name'', sql_option SqlText (full_name u)), (''role'', SqlText (role u)),
      (''is_active'', SqlBool (u_is_active u)), (''is_verified'', SqlBool (is_verified u))] @ stamp_values u"

definition short_url_values :: "short_url \<Rightarrow> sql_row" where
  "short_url_values s = id_value s @
     [(''original_url'', SqlText (original_url s)), (''short_code'', SqlText (short_code s)),
      (''custom_alias'', sql_option SqlText (custom_alias s)), (''title'', sql_option SqlText (title s)),
      (''owner_id'', sql_option SqlUuid (owner_id s)), (''is_active'', SqlBool (is_active s)),
      (''is_public'', SqlBool (is_public s)), (''expires_at'', sql_option SqlTime (expires_at s)),
      (''click_count'', SqlInt (click_count s))] @ stamp_values s"

definition click_values :: "click_row \<Rightarrow> sql_row" where
  "click_values e = id_value e @
     [(''short_url_id'', SqlUuid (short_url_id e)), (''visitor_hash'', sql_option SqlText (visitor_hash e)),
      (''country'', sql_option SqlText (country e)), (''city'', sql_option SqlText (city e)),
      (''referrer'', sql_option SqlText (referrer e)), (''user_agent'', sql_option SqlText (user_agent e)),
      (''browser'', sql_option SqlText (browser e)), (''os'', sql_option SqlText (os e)),
      (''device'', sql_option SqlText (device e))] @ stamp_values e"

definition snapshot_values :: "snapshot_row \<Rightarrow> sql_row" where
  "snapshot_values n = id_value n @
     [(''short_url_id'', SqlUuid (sn_short_url_id n)), (''snapshot_date'', SqlDate (snapshot_date n)),
      (''total_clicks'', SqlInt (total_clicks n)), (''unique_visitors'', SqlInt (unique_visitors n)),
      (''country_data'', SqlJson (country_data n)), (''browser_data'', SqlJson (browser_data n)),
      (''os_data'', SqlJson (os_data n)), (''device_data'', SqlJson (device_data n)),
      (''referrer_data'', SqlJson (referrer_data n))] @ stamp_values n"

definition token_values :: "refresh_row \<Rightarrow> sql_row" where
  "token_values t = id_value t @
     [(''user_id'', SqlUuid (user_id t)), (''token_hash'', SqlText (token_hash t)),
      (''expires_at'', SqlTime (rt_expires_at t)), (''is_revoked'', SqlBool (is_revoked t)),
      (''user_agent'', sql_option SqlText (rt_user_agent t)), (''ip_address'', sql_option SqlText (ip_address t))] @ stamp_values t"

definition dump :: "database \<Rightarrow> contents" where
  "dump db n =
     (if n = ''users'' then map user_values (users db)
      else if n = ''short_urls'' then map short_url_values (short_urls db)
      else if n = ''click_events'' then map click_values (click_events db)
      else if n = ''analytics_snapshots'' then map snapshot_values (snapshots db)
      else if n = ''refresh_tokens'' then map token_values (refresh_tokens db)
      else [])"

text \<open>The one thing \<open>schema_ok\<close> leaves out: counters are 64-bit integers.\<close>

definition bigint :: "int \<Rightarrow> bool" where
  "bigint i \<longleftrightarrow> - (2 ^ 63) \<le> i \<and> i < 2 ^ 63"

definition counters_fit :: "database \<Rightarrow> bool" where
  "counters_fit db \<longleftrightarrow> list_all (\<lambda>s. bigint (click_count s)) (short_urls db) \<and>
     list_all (\<lambda>n. bigint (total_clicks n) \<and> bigint (unique_visitors n)) (snapshots db)"

section \<open>Lemmas\<close>

lemma row_value_Cons [simp]: "row_value n ((k, v) # r) = (if k = n then v else row_value n r)"
  by (simp add: row_value_def)

lemma sql_option_null [simp]: "(\<And>v. f v \<noteq> SqlNull) \<Longrightarrow> sql_option f x = SqlNull \<longleftrightarrow> x = None"
  by (cases x) simp_all

lemmas row_defs = user_values_def short_url_values_def click_values_def snapshot_values_def token_values_def id_value_def stamp_values_def

lemma optional_columns [simp]:
  "value_in_column (VarcharT n) True (sql_option SqlText x) = varchar n x"
  "value_in_column UuidT True (sql_option SqlUuid y)" "value_in_column TimestampT True (sql_option SqlTime z)"
  by ((cases x; simp), (cases y; simp), (cases z; simp))

lemma not_null_optional:
  "row_value n r = sql_option SqlText x \<Longrightarrow> not_null_values [n] r = map_option (\<lambda>v. [SqlText v]) x"
  by (cases x) (simp_all add: not_null_values_def)

text \<open>A unique constraint on rows is one on the records they come from.\<close>

lemma unique_rows:
  assumes "\<And>x. not_null_values cols (row x) = map_option k (f x)" "inj k"
  shows "unique_ok cols (map row xs) = unique_col f xs"
proof -
  have "filter (\<lambda>v. v \<noteq> None) (map (not_null_values cols) (map row xs)) =
      map (map_option k) (filter (\<lambda>v. v \<noteq> None) (map f xs))"
    using assms(1) by (induction xs) simp_all
  then show ?thesis
    using assms(2) inj_on_subset [OF option.inj_map [OF assms(2)]]
    unfolding unique_ok_def unique_col_def by (simp add: distinct_map del: not_None_eq)
qed

lemma unique_rows_all:
  assumes "\<And>x. not_null_values cols (row x) = Some (k (f x))" "inj k"
  shows "unique_ok cols (map row xs) = distinct (map f xs)"
proof -
  have "unique_ok cols (map row xs) = unique_col (\<lambda>x. Some (f x)) xs"
    by (rule unique_rows [where k = k]) (simp_all add: assms)
  also have "\<dots> = distinct (map f xs)" by (simp add: unique_col_def distinct_map comp_def inj_on_def filter_map)
  finally show ?thesis .
qed

lemma dump_tables [simp]:
  "dump db ''users'' = map user_values (users db)" "dump db ''short_urls'' = map short_url_values (short_urls db)"
  "dump db ''click_events'' = map click_values (click_events db)"
  "dump db ''analytics_snapshots'' = map snapshot_values (snapshots db)"
  "dump db ''refresh_tokens'' = map token_values (refresh_tokens db)"
  by (simp_all add: dump_def)

lemma inj_single: "inj (\<lambda>v. [SqlUuid v])" "inj (\<lambda>v. [SqlText v])" "inj (\<lambda>(u, d). [SqlUuid u, SqlDate d])"
  by (auto simp: inj_def)

lemmas uuid_key = unique_rows_all [where k = "\<lambda>v. [SqlUuid v]", OF _ inj_single(1)]
lemmas text_key = unique_rows_all [where k = "\<lambda>v. [SqlText v]", OF _ inj_single(2)]
lemmas optional_key = unique_rows [where k = "\<lambda>v. [SqlText v]", OF _ inj_single(2)]
lemmas day_key = unique_rows_all [where k = "\<lambda>(u, d). [SqlUuid u, SqlDate d]", OF _ inj_single(3)]

lemma table_keys:
  "unique_ok [''id''] (map user_values us) = distinct (map row_id us)"
  "unique_ok [''email''] (map user_values us) = distinct (map email us)"
  "unique_ok [''id''] (map short_url_values ss) = distinct (map row_id ss)"
  "unique_ok [''short_code''] (map short_url_values ss) = distinct (map short_code ss)"
  "unique_ok [''custom_alias''] (map short_url_values ss) = unique_col custom_alias ss"
  "unique_ok [''id''] (map click_values es) = distinct (map row_id es)"
  "unique_ok [''id''] (map snapshot_values ns) = distinct (map row_id ns)"
  "unique_ok [''short_url_id'', ''snapshot_date''] (map snapshot_values ns) =
     distinct (map (\<lambda>n. (sn_short_url_id n, snapshot_date n)) ns)"
  "unique_ok [''id''] (map token_values ts) = distinct (map row_id ts)"
  "unique_ok [''token_hash''] (map token_values ts) = distinct (map token_hash ts)"
  by ((rule uuid_key text_key day_key; simp add: not_null_values_def row_defs)+,
      rule optional_key, simp add: not_null_optional row_defs,
      (rule uuid_key text_key day_key; simp add: not_null_values_def row_defs)+)

lemma fk_optional:
  assumes "\<And>x. row_value (fk_col k) (row x) = sql_option SqlUuid (f x)"
    and "map (row_value (fk_ref k)) (db (fk_table k)) = map SqlUuid ids"
  shows "fk_ok db (map row xs) k = list_all (\<lambda>x. null_or_in (f x) ids) xs"
proof -
  have "(sql_option SqlUuid v = SqlNull \<or> sql_option SqlUuid v \<in> set (map SqlUuid ids)) = null_or_in v ids" for v
    by (cases v) auto
  then show ?thesis by (simp add: fk_ok_def list.pred_map comp_def assms)
qed

lemma fk_required:
  assumes "\<And>x. row_value (fk_col k) (row x) = SqlUuid (f x)"
    and "map (row_value (fk_ref k)) (db (fk_table k)) = map SqlUuid ids"
  shows "fk_ok db (map row xs) k = list_all (\<lambda>x. f x \<in> set ids) xs"
  by (simp add: fk_ok_def list.pred_map comp_def assms image_iff)

lemma id_values [simp]:
  "row_value ''id'' (user_values u) = SqlUuid (row_id u)" "row_value ''id'' (short_url_values s) = SqlUuid (row_id s)"
  by (simp_all add: row_defs)

lemmas catalog_defs = table_ok_def column_ok_def sa_column_def list.pred_map comp_def table_keys

text \<open>Table by table; of the indexes only a unique one constrains the rows.\<close>

lemma users_table:
  "table_ok (dump db) (create_users\<lparr>t_indexes := ixs\<rparr>) \<longleftrightarrow>
     list_all user_columns (users db) \<and> distinct (map row_id (users db)) \<and>
     list_all (\<lambda>ix. ix_unique ix \<longrightarrow> unique_ok (ix_cols ix) (map user_values (users db))) ixs"
  by (simp add: create_users_def catalog_defs) (auto simp: list_all_iff user_columns_def row_defs)

lemma short_urls_table:
  assumes "list_all (\<lambda>ix. \<not> ix_unique ix) ixs"
  shows "table_ok (dump db) (create_short_urls\<lparr>t_indexes := ixs\<rparr>) \<longleftrightarrow>
     short_urls_ok (users db) (short_urls db) \<and> list_all (\<lambda>s. bigint (click_count s)) (short_urls db)"
proof -
  have "fk_ok (dump db) (map short_url_values (short_urls db))
      \<lparr>fk_col = ''owner_id'', fk_table = ''users'', fk_ref = ''id'', fk_on_delete = SetNull\<rparr> =
      list_all (\<lambda>s. null_or_in (owner_id s) (map row_id (users db))) (short_urls db)"
    by (rule fk_optional) (simp_all, simp add: row_defs)
  then show ?thesis
    using assms by (simp add: create_short_urls_def catalog_defs)
      (auto simp: list_all_iff short_urls_ok_def short_url_columns_def bigint_def row_defs)
qed

lemma click_events_table:
  assumes "list_all (\<lambda>ix. \<not> ix_unique ix) ixs"
  shows "table_ok (dump db) (create_click_events\<lparr>t_indexes := ixs\<rparr>) \<longleftrightarrow> clicks_ok (short_urls db) (click_events db)"
proof -
  have "fk_ok (dump db) (map click_values (click_events db))
      \<lparr>fk_col = ''short_url_id'', fk_table = ''short_urls'', fk_ref = ''id'', fk_on_delete = CascadeRows\<rparr> =
      list_all (\<lambda>e. short_url_id e \<in> set (map row_id (short_urls db))) (click_events db)"
    by (rule fk_required) (simp_all, simp add: row_defs)
  then show ?thesis
    using assms by (simp add: create_click_events_def catalog_defs)
      (auto simp: list_all_iff clicks_ok_def click_columns_def row_defs)
qed

lemma snapshots_table:
  assumes "list_all (\<lambda>ix. \<not> ix_unique ix) ixs"
  shows "table_ok (dump db) (create_analytics_snapshots\<lparr>t_indexes := ixs\<rparr>) \<longleftrightarrow>
     snapshots_ok (short_urls db) (snapshots db) \<and>
     list_all (\<lambda>n. bigint (total_clicks n) \<and> bigint (unique_visitors n)) (snapshots db)"
proof -
  have "fk_ok (dump db) (map snapshot_values (snapshots db))
      \<lparr>fk_col = ''short_url_id'', fk_table = ''short_urls'', fk_ref = ''id'', fk_on_delete = CascadeRows\<rparr> =
      list_all (\<lambda>n. sn_short_url_id n \<in> set (map row_id (short_urls db))) (snapshots db)"
    by (rule fk_required) (simp_all, simp add: row_defs)
  then show ?thesis
    using assms by (simp add: create_analytics_snapshots_def catalog_defs)
      (auto simp: list_all_iff snapshots_ok_def bigint_def row_defs)
qed

lemma tokens_table:
  assumes "list_all (\<lambda>ix. \<not> ix_unique ix) ixs"
  shows "table_ok (dump db) (create_refresh_tokens\<lparr>t_indexes := ixs\<rparr>) \<longleftrightarrow> tokens_ok (users db) (refresh_tokens db)"
proof -
  have "fk_ok (dump db) (map token_values (refresh_tokens db))
      \<lparr>fk_col = ''user_id'', fk_table = ''users'', fk_ref = ''id'', fk_on_delete = CascadeRows\<rparr> =
      list_all (\<lambda>t. user_id t \<in> set (map row_id (users db))) (refresh_tokens db)"
    by (rule fk_required) (simp_all, simp add: row_defs)
  then show ?thesis
    using assms by (simp add: create_refresh_tokens_def catalog_defs)
      (auto simp: list_all_iff tokens_ok_def refresh_columns_def row_defs)
qed

section \<open>Deletion\<close>

lemma delete_leaf: "referring c n = [] \<Longrightarrow> delete_rows (Suc m) c n p db = db(n := filter (\<lambda>r. \<not> p r) (db n))"
  by (simp add: Let_def)

lemma referring_migrated:
  "referring migrated ''short_urls'' =
     [(''click_events'', \<lparr>fk_col = ''short_url_id'', fk_table = ''short_urls'', fk_ref = ''id'', fk_on_delete = CascadeRows\<rparr>),
      (''analytics_snapshots'', \<lparr>fk_col = ''short_url_id'', fk_table = ''short_urls'', fk_ref = ''id'', fk_on_delete = CascadeRows\<rparr>)]"
  "referring migrated ''click_events'' = []" "referring migrated ''analytics_snapshots'' = []"
  by (simp_all add: referring_def migrated_def create_users_def create_short_urls_def create_click_events_def
      create_analytics_snapshots_def create_refresh_tokens_def)

text \<open>Rows that refer to a deleted link are those with its identifier, when every reference is to a link.\<close>

definition refers_to :: "uuid \<Rightarrow> short_url list \<Rightarrow> sql_row \<Rightarrow> bool" where
  "refers_to i ss r \<longleftrightarrow> row_value ''short_url_id'' r \<noteq> SqlNull \<and> row_value ''short_url_id'' r \<in>
     set (map (row_value ''id'') (filter (\<lambda>r. row_value ''id'' r = SqlUuid i) (map short_url_values ss)))"

lemma filter_deleted:
  assumes "\<And>x. row_value ''short_url_id'' (row x) = SqlUuid (f x)"
    and "list_all (\<lambda>x. f x \<in> set (map row_id ss)) xs"
  shows "filter (\<lambda>r. \<not> refers_to i ss r) (map row xs) = map row (filter (\<lambda>x. f x \<noteq> i) xs)"
proof -
  have "refers_to i ss (row x) \<longleftrightarrow> f x = i" if "x \<in> set xs" for x
  proof -
    have "f x \<in> row_id ` set ss" using assms(2) that by (simp add: list_all_iff)
    then show ?thesis unfolding refers_to_def by (auto simp: assms(1) image_iff)
  qed
  then have "filter (\<lambda>x. \<not> refers_to i ss (row x)) xs = filter (\<lambda>x. f x \<noteq> i) xs" by (intro filter_cong) auto
  then show ?thesis by (simp add: filter_map comp_def)
qed

section \<open>Properties\<close>

text \<open>
  C9. The constraints on the tables are those of the migration: the rows of a database satisfy the columns, keys,
  unique constraints and foreign keys of the migrated catalog exactly when the database is in order and its counters
  are 64-bit integers.
\<close>

theorem schema_is_migrated: "catalog_ok migrated (dump db) \<longleftrightarrow> schema_ok db \<and> counters_fit db"
  by (simp add: catalog_ok_def migrated_def users_table short_urls_table click_events_table snapshots_table tokens_table
      table_keys schema_ok_def users_ok_def counters_fit_def) blast

text \<open>
  C23. Deleting a link deletes what the foreign keys of the migration say: its rows in the other tables go with it by
  their \<open>ON DELETE CASCADE\<close>, and nothing else changes.
\<close>

theorem deletion_cascades:
  assumes "schema_ok db"
  shows "delete_rows (length migrated) migrated ''short_urls'' (\<lambda>r. row_value ''id'' r = SqlUuid i) (dump db) =
    dump (delete_short_url i db)"
proof -
  have fks: "list_all (\<lambda>e. short_url_id e \<in> set (map row_id (short_urls db))) (click_events db)"
    "list_all (\<lambda>n. sn_short_url_id n \<in> set (map row_id (short_urls db))) (snapshots db)"
    using assms by (simp_all add: schema_ok_def clicks_ok_def snapshots_ok_def)
  obtain m where len: "length migrated = Suc (Suc m)" by (simp add: migrated_def)
  have rows: "row_value ''short_url_id'' (click_values e) = SqlUuid (short_url_id e)"
    "row_value ''short_url_id'' (snapshot_values n) = SqlUuid (sn_short_url_id n)" for e n
    by (simp_all add: row_defs)
  have "delete_rows (length migrated) migrated ''short_urls'' (\<lambda>r. row_value ''id'' r = SqlUuid i) (dump db) =
      (dump db)
        (''short_urls'' := filter (\<lambda>r. row_value ''id'' r \<noteq> SqlUuid i) (dump db ''short_urls''),
         ''click_events'' := filter (\<lambda>r. \<not> refers_to i (short_urls db) r) (dump db ''click_events''),
         ''analytics_snapshots'' := filter (\<lambda>r. \<not> refers_to i (short_urls db) r) (dump db ''analytics_snapshots''))"
    unfolding len delete_rows.simps(2) [of "Suc m"] referring_migrated(1) Let_def refers_to_def
    by (simp add: delete_leaf referring_migrated(2,3) del: delete_rows.simps set_map)
  also have "\<dots> = dump (delete_short_url i db)"
    unfolding dump_tables filter_deleted [OF rows(1) fks(1)] filter_deleted [OF rows(2) fks(2)]
    by (rule ext) (simp add: dump_def delete_short_url_def filter_map comp_def)
  finally show ?thesis .
qed

definition tiny_db :: database where
  "tiny_db = empty_database\<lparr>
     short_urls :=
       [\<lparr>row_id = 1, created_at = 0, updated_at = 0, original_url = ''https://example.com/'', short_code = ''a'',
         custom_alias = None, title = None, owner_id = None, is_active = True, is_public = True, expires_at = None,
         click_count = 1\<rparr>],
     click_events :=
       [\<lparr>row_id = 2, created_at = 0, updated_at = 0, short_url_id = 1, visitor_hash = None, country = None, city = None,
         referrer = None, user_agent = None, browser = None, os = None, device = None\<rparr>]\<rparr>"

theorem deletion_cascades_witness:
  "delete_rows (length migrated) migrated ''short_urls'' (\<lambda>r. row_value ''id'' r = SqlUuid 1) (dump tiny_db) ''click_events'' = []"
proof -
  have "schema_ok tiny_db"
    by (simp add: schema_ok_def tiny_db_def empty_database_def users_ok_def short_urls_ok_def clicks_ok_def
        snapshots_ok_def tokens_ok_def unique_col_def short_url_columns_def click_columns_def)
  from deletion_cascades [OF this, of 1] show ?thesis
    by (simp add: delete_short_url_def tiny_db_def)
qed

end
