(* ===== verification/Inserts.thy ===== *)
theory Inserts
  imports Conformance Repositories
begin

text \<open>
  What becomes of an \<open>INSERT\<close>: the program names some attributes of a model, SQLAlchemy adds the defaults of the model,
  and PostgreSQL the defaults of the migrated table, whose constraints decide.  The property relates each statement of
  the repositories to its model in \<open>Database\<close> and \<open>Repositories\<close>, where the whole row is written out.
\<close>

section \<open>The statement\<close>

text \<open>
  The columns of the statement: what the program gave, else the default of the model; an attribute with neither is left
  to the server if its column has a default there, and is \<open>NULL\<close> otherwise.
\<close>

fun attribute_value :: "uuid \<Rightarrow> sql_row \<Rightarrow> attribute \<Rightarrow> (pystr \<times> sql_value) option" where
  "attribute_value uuid4 kwargs a =
     (case map_of kwargs (a_name a) of
        Some v \<Rightarrow> Some (a_name a, v)
      | None \<Rightarrow>
          (case a_default a of
             Some Uuid4 \<Rightarrow> Some (a_name a, SqlUuid uuid4)
           | Some (Default v) \<Rightarrow> Some (a_name a, v)
           | None \<Rightarrow> if a_server_default a = None then Some (a_name a, SqlNull) else None))"

definition insert_statement :: "uuid \<Rightarrow> model \<Rightarrow> sql_row \<Rightarrow> sql_row" where
  "insert_statement uuid4 m kwargs = List.map_filter (attribute_value uuid4 kwargs) (base_attributes @ m_attributes m)"

section \<open>The server\<close>

datatype insert_error = NoSuchTable | NoSuchColumn | InvalidDefault | ConstraintViolated

fun default_value :: "instant \<Rightarrow> sql_type \<Rightarrow> pystr \<Rightarrow> sql_value option" where
  "default_value now TimestampT d = (if d = ''now()'' then Some (SqlTime now) else None)"
| "default_value now BoolT d =
     (if d = ''true'' then Some (SqlBool True) else if d = ''false'' then Some (SqlBool False) else None)"
| "default_value now (VarcharT n) d = Some (SqlText d)"
| "default_value now TextT d = Some (SqlText d)"
| "default_value now BigIntT d = (case loads d of Some (JInt i) \<Rightarrow> Some (SqlInt i) | _ \<Rightarrow> None)"
| "default_value now JsonT d = map_option SqlJson (loads d)"
| "default_value now _ d = None"

definition column_value :: "instant \<Rightarrow> sql_row \<Rightarrow> column \<Rightarrow> (pystr \<times> sql_value) option" where
  "column_value now given k =
     map_option (Pair (col_name k))
       (case map_of given (col_name k) of
          Some v \<Rightarrow> Some v
        | None \<Rightarrow> (case col_default k of None \<Rightarrow> Some SqlNull | Some d \<Rightarrow> default_value now (col_type k) d))"

definition insert_row :: "instant \<Rightarrow> table \<Rightarrow> sql_row \<Rightarrow> insert_error + sql_row" where
  "insert_row now t given =
     (if \<not> list_all (\<lambda>(n, _). n \<in> set (column_names t)) given then Inl NoSuchColumn
      else (case those (map (column_value now given) (t_columns t)) of None \<Rightarrow> Inl InvalidDefault | Some r \<Rightarrow> Inr r))"

definition execute_insert :: "catalog \<Rightarrow> instant \<Rightarrow> pystr \<Rightarrow> sql_row \<Rightarrow> contents \<Rightarrow> insert_error + contents" where
  "execute_insert c now tab given db =
     (case find_table tab c of
        None \<Rightarrow> Inl NoSuchTable
      | Some t \<Rightarrow>
          (case insert_row now t given of
             Inl e \<Rightarrow> Inl e
           | Inr r \<Rightarrow>
               (let db' = db(tab := db tab @ [r])
                in if table_ok db' t then Inr db' else Inl ConstraintViolated)))"

text \<open>\<open>session.add(model(**kwargs))\<close> and \<open>flush\<close>.\<close>

definition orm_insert :: "catalog \<Rightarrow> instant \<Rightarrow> uuid \<Rightarrow> model \<Rightarrow> sql_row \<Rightarrow> contents \<Rightarrow> insert_error + contents" where
  "orm_insert c now uuid4 m kwargs db = execute_insert c now (m_table m) (insert_statement uuid4 m kwargs) db"

section \<open>What the program inserts\<close>

definition register_kwargs :: "pystr \<Rightarrow> pystr \<Rightarrow> pystr option \<Rightarrow> sql_row" where
  "register_kwargs mail hash name =
     [(''email'', SqlText mail), (''hashed_password'', SqlText hash), (''full_name'', sql_option SqlText name)]"

definition create_kwargs ::
  "pystr \<Rightarrow> pystr \<Rightarrow> pystr option \<Rightarrow> pystr option \<Rightarrow> uuid option \<Rightarrow> bool \<Rightarrow> instant option \<Rightarrow> sql_row" where
  "create_kwargs original sc alias ttl owner public expires =
     [(''original_url'', SqlText original), (''short_code'', SqlText sc), (''custom_alias'', sql_option SqlText alias),
      (''title'', sql_option SqlText ttl), (''owner_id'', sql_option SqlUuid owner), (''is_public'', SqlBool public),
      (''expires_at'', sql_option SqlTime expires)]"

definition login_kwargs :: "uuid \<Rightarrow> pystr \<Rightarrow> instant \<Rightarrow> pystr option \<Rightarrow> pystr option \<Rightarrow> sql_row" where
  "login_kwargs owner h expires agent ip =
     [(''user_id'', SqlUuid owner), (''token_hash'', SqlText h), (''expires_at'', SqlTime expires),
      (''ip_address'', sql_option SqlText ip), (''user_agent'', sql_option SqlText agent)]"

definition refresh_kwargs :: "uuid \<Rightarrow> pystr \<Rightarrow> instant \<Rightarrow> sql_row" where
  "refresh_kwargs owner h expires =
     [(''user_id'', SqlUuid owner), (''token_hash'', SqlText h), (''expires_at'', SqlTime expires)]"

definition event_kwargs :: "click_row \<Rightarrow> sql_row" where
  "event_kwargs e =
     [(''short_url_id'', SqlUuid (short_url_id e)), (''visitor_hash'', sql_option SqlText (visitor_hash e)),
      (''country'', sql_option SqlText (country e)), (''city'', sql_option SqlText (city e)),
      (''referrer'', sql_option SqlText (referrer e)), (''user_agent'', sql_option SqlText (user_agent e)),
      (''browser'', sql_option SqlText (browser e)), (''os'', sql_option SqlText (os e)),
      (''device'', sql_option SqlText (device e)), (''created_at'', SqlTime (created_at e))]"

definition upsert_kwargs :: "uuid \<Rightarrow> int \<Rightarrow> sql_row" where
  "upsert_kwargs url d = [(''short_url_id'', SqlUuid url), (''snapshot_date'', SqlDate d)]"

section \<open>Rows\<close>

lemma loads_defaults: "loads ''0'' = Some (JInt 0)" "loads ''{}'' = Some (JObj [])"
  by code_simp+

lemmas statement_defs = insert_statement_def base_attributes_def mapped_column_def map_filter_simps
lemmas row_result = insert_row_def column_value_def column_names_def sa_column_def loads_defaults row_defs

lemma user_row:
  "insert_row now (create_users\<lparr>t_indexes := ixs\<rparr>) (insert_statement i user_model (register_kwargs mail hash name)) =
    Inr (user_values (new_user i now mail hash name))"
  by (simp add: statement_defs user_model_def register_kwargs_def)
    (simp add: create_users_def row_result new_user_def role_value_def)

lemma short_url_row:
  "insert_row now (create_short_urls\<lparr>t_indexes := ixs\<rparr>)
      (insert_statement i short_url_model (create_kwargs original sc alias ttl owner public expires)) =
    Inr (short_url_values (new_short_url i now original sc alias ttl owner public expires))"
  by (simp add: statement_defs short_url_model_def create_kwargs_def)
    (simp add: create_short_urls_def row_result new_short_url_def)

lemma token_row:
  "insert_row now (create_refresh_tokens\<lparr>t_indexes := ixs\<rparr>)
      (insert_statement i refresh_token_model (login_kwargs owner h expires agent ip)) =
    Inr (token_values (new_refresh_row i now owner h expires agent ip))"
  "insert_row now (create_refresh_tokens\<lparr>t_indexes := ixs\<rparr>)
      (insert_statement i refresh_token_model (refresh_kwargs owner h expires)) =
    Inr (token_values (new_refresh_row i now owner h expires None None))"
  by (simp_all add: statement_defs refresh_token_model_def login_kwargs_def refresh_kwargs_def)
    (simp_all add: create_refresh_tokens_def row_result new_refresh_row_def)

lemma click_row:
  "insert_row now (create_click_events\<lparr>t_indexes := ixs\<rparr>) (insert_statement i click_event_model (event_kwargs e)) =
    Inr (click_values (e\<lparr>row_id := i, updated_at := now\<rparr>))"
  by (simp add: statement_defs click_event_model_def event_kwargs_def)
    (simp add: create_click_events_def row_result)

lemma snapshot_row:
  "insert_row now (create_analytics_snapshots\<lparr>t_indexes := ixs\<rparr>) (insert_statement i snapshot_model (upsert_kwargs url d)) =
    Inr (snapshot_values (new_snapshot i now url d))"
  by (simp add: statement_defs snapshot_model_def upsert_kwargs_def)
    (simp add: create_analytics_snapshots_def row_result new_snapshot_def)

section \<open>Tables\<close>

text \<open>The migrated tables, beside whatever else the database holds.\<close>

lemma table_names [simp]:
  "t_name create_users = ''users''" "t_name create_short_urls = ''short_urls''" "t_name create_click_events = ''click_events''"
  "t_name create_analytics_snapshots = ''analytics_snapshots''" "t_name create_refresh_tokens = ''refresh_tokens''"
  by (simp_all add: create_users_def create_short_urls_def create_click_events_def create_analytics_snapshots_def
      create_refresh_tokens_def)

lemma find_migrated:
  assumes "beside upgrade c" "n \<in> {''users'', ''short_urls'', ''click_events'', ''analytics_snapshots'', ''refresh_tokens''}"
  shows "find_table n (c @ migrated) = find_table n migrated"
proof (rule find_table_beside)
  have "n \<in> \<Union> (mentioned ` set upgrade)" using assms(2) by (auto simp: upgrade_def relation_names_def)
  then obtain st where "st \<in> set upgrade" "n \<in> mentioned st" by blast
  then show "n \<notin> all_names c" using assms(1) by (auto simp: beside_def list_all_iff)
qed

lemma migrated_tables:
  assumes "beside upgrade c"
  shows "find_table ''users'' (c @ migrated) = Some (create_users\<lparr>t_indexes :=
      [\<lparr>ix_name = ''ix_users_email'', ix_cols = [''email''], ix_unique = True\<rparr>,
       \<lparr>ix_name = ''ix_users_email_active'', ix_cols = [''email'', ''is_active''], ix_unique = False\<rparr>]\<rparr>)"
    "find_table ''short_urls'' (c @ migrated) = Some (create_short_urls\<lparr>t_indexes :=
      [\<lparr>ix_name = ''ix_short_urls_short_code'', ix_cols = [''short_code''], ix_unique = False\<rparr>,
       \<lparr>ix_name = ''ix_short_urls_owner_active'', ix_cols = [''owner_id'', ''is_active''], ix_unique = False\<rparr>,
       \<lparr>ix_name = ''ix_short_urls_expires_at'', ix_cols = [''expires_at''], ix_unique = False\<rparr>]\<rparr>)"
    "find_table ''click_events'' (c @ migrated) = Some (create_click_events\<lparr>t_indexes :=
      [\<lparr>ix_name = ''ix_click_events_url_created'', ix_cols = [''short_url_id'', ''created_at''], ix_unique = False\<rparr>,
       \<lparr>ix_name = ''ix_click_events_created_at'', ix_cols = [''created_at''], ix_unique = False\<rparr>,
       \<lparr>ix_name = ''ix_click_events_country'', ix_cols = [''country''], ix_unique = False\<rparr>]\<rparr>)"
    "find_table ''analytics_snapshots'' (c @ migrated) = Some (create_analytics_snapshots\<lparr>t_indexes :=
      [\<lparr>ix_name = ''ix_snapshots_url_date'', ix_cols = [''short_url_id'', ''snapshot_date''], ix_unique = False\<rparr>]\<rparr>)"
    "find_table ''refresh_tokens'' (c @ migrated) = Some (create_refresh_tokens\<lparr>t_indexes :=
      [\<lparr>ix_name = ''ix_refresh_tokens_hash'', ix_cols = [''token_hash''], ix_unique = False\<rparr>,
       \<lparr>ix_name = ''ix_refresh_tokens_user_active'', ix_cols = [''user_id'', ''is_revoked''], ix_unique = False\<rparr>]\<rparr>)"
  by (subst find_migrated [OF assms], simp, simp add: migrated_def find_table_def)+

lemma model_tables:
  "m_table user_model = ''users''" "m_table short_url_model = ''short_urls''" "m_table click_event_model = ''click_events''"
  "m_table snapshot_model = ''analytics_snapshots''" "m_table refresh_token_model = ''refresh_tokens''"
  by (simp_all add: user_model_def short_url_model_def click_event_model_def snapshot_model_def refresh_token_model_def)

lemma dump_update:
  "(dump db)(''users'' := map user_values (users db) @ [user_values u]) = dump (db\<lparr>users := users db @ [u]\<rparr>)"
  "(dump db)(''short_urls'' := map short_url_values (short_urls db) @ [short_url_values s]) = dump (db\<lparr>short_urls := short_urls db @ [s]\<rparr>)"
  "(dump db)(''click_events'' := map click_values (click_events db) @ [click_values e]) =
    dump (db\<lparr>click_events := click_events db @ [e]\<rparr>)"
  "(dump db)(''analytics_snapshots'' := map snapshot_values (snapshots db) @ [snapshot_values n]) =
    dump (db\<lparr>snapshots := snapshots db @ [n]\<rparr>)"
  "(dump db)(''refresh_tokens'' := map token_values (refresh_tokens db) @ [token_values t]) =
    dump (db\<lparr>refresh_tokens := refresh_tokens db @ [t]\<rparr>)"
  by (auto simp: dump_def fun_eq_iff)

lemma users_constraints:
  "table_ok (dump db) (create_users\<lparr>t_indexes :=
      [\<lparr>ix_name = ''ix_users_email'', ix_cols = [''email''], ix_unique = True\<rparr>,
       \<lparr>ix_name = ''ix_users_email_active'', ix_cols = [''email'', ''is_active''], ix_unique = False\<rparr>]\<rparr>) \<longleftrightarrow>
   users_ok (users db)"
  by (auto simp: users_table table_keys users_ok_def)

lemmas constraints = users_constraints short_urls_table click_events_table snapshots_table tokens_table

text \<open>The answer of the model to a statement, as contents of the migrated database.\<close>

definition dumped :: "database result \<Rightarrow> insert_error + contents" where
  "dumped res = (case res of Inl e \<Rightarrow> Inl ConstraintViolated | Inr db \<Rightarrow> Inr (dump db))"

lemma execute_found:
  assumes "find_table tab c = Some t" "insert_row now t given = Inr r"
  shows "execute_insert c now tab given db =
    (if table_ok (db(tab := db tab @ [r])) t then Inr (db(tab := db tab @ [r])) else Inl ConstraintViolated)"
  by (simp add: execute_insert_def assms Let_def)

lemma insert_checks:
  assumes "schema_ok db"
  shows "dumped (insert_user u db) =
      (if users_ok (users db @ [u]) then Inr (dump (db\<lparr>users := users db @ [u]\<rparr>)) else Inl ConstraintViolated)"
    "dumped (insert_short_url s db) =
      (if short_urls_ok (users db) (short_urls db @ [s]) then Inr (dump (db\<lparr>short_urls := short_urls db @ [s]\<rparr>))
       else Inl ConstraintViolated)"
    "dumped (insert_click e db) =
      (if clicks_ok (short_urls db) (click_events db @ [e]) then Inr (dump (db\<lparr>click_events := click_events db @ [e]\<rparr>))
       else Inl ConstraintViolated)"
    "dumped (insert_snapshot n db) =
      (if snapshots_ok (short_urls db) (snapshots db @ [n]) then Inr (dump (db\<lparr>snapshots := snapshots db @ [n]\<rparr>))
       else Inl ConstraintViolated)"
    "dumped (insert_token t db) =
      (if tokens_ok (users db) (refresh_tokens db @ [t]) then Inr (dump (db\<lparr>refresh_tokens := refresh_tokens db @ [t]\<rparr>))
       else Inl ConstraintViolated)"
  using assms
  by (simp_all add: schema_ok_def dumped_def insert_user_def insert_short_url_def insert_click_def insert_snapshot_def
      insert_token_def users_ok_def short_urls_ok_def clicks_ok_def snapshots_ok_def tokens_ok_def unique_col_snoc)

section \<open>Property\<close>

text \<open>
  C24. Every \<open>INSERT\<close> of the program does to the migrated database what its model does to the tables.  The statement
  names the attributes that the code gives and those with a default of \<open>app/models\<close>; the server adds the defaults of
  the migration, \<open>now()\<close> for the time stamps; the row is then the one that the model writes out in full, and it is refused
  exactly when the model refuses it.  This holds in any database in which the migration ran beside other tables.
\<close>

theorem inserts_conform:
  assumes "beside upgrade c" "run_ddls upgrade c = Inr c'" "schema_ok db" "counters_fit db"
  shows "orm_insert c' now i user_model (register_kwargs mail hash name) (dump db) =
      dumped (insert_user (new_user i now mail hash name) db) \<and>
    orm_insert c' now i short_url_model (create_kwargs original sc alias ttl owner public expires) (dump db) =
      dumped (insert_short_url (new_short_url i now original sc alias ttl owner public expires) db) \<and>
    orm_insert c' now i refresh_token_model (login_kwargs uid h until agent ip) (dump db) =
      dumped (insert_token (new_refresh_row i now uid h until agent ip) db) \<and>
    orm_insert c' now i refresh_token_model (refresh_kwargs uid h until) (dump db) =
      dumped (insert_token (new_refresh_row i now uid h until None None) db) \<and>
    orm_insert c' now i click_event_model (event_kwargs e) (dump db) =
      dumped (insert_click (e\<lparr>row_id := i, updated_at := now\<rparr>) db) \<and>
    orm_insert c' now i snapshot_model (upsert_kwargs url d) (dump db) =
      dumped (insert_snapshot (new_snapshot i now url d) db)"
proof -
  have c': "c' = c @ migrated"
    using run_ddls_beside [OF assms(1), of "[]"] upgrade_empty assms(2) by simp
  note find = migrated_tables [OF assms(1), folded c']
  note found = execute_found [OF find(1) user_row] execute_found [OF find(2) short_url_row] execute_found [OF find(3) click_row]
    execute_found [OF find(4) snapshot_row] execute_found [OF find(5) token_row(1)] execute_found [OF find(5) token_row(2)]
  have fit: "list_all (\<lambda>s. bigint (click_count s)) (short_urls db)"
    "list_all (\<lambda>n. bigint (total_clicks n) \<and> bigint (unique_visitors n)) (snapshots db)"
    using assms(4) by (simp_all add: counters_fit_def)
  have zero: "bigint (click_count (new_short_url i now original sc alias ttl owner public expires))"
    "bigint (total_clicks (new_snapshot i now url d))" "bigint (unique_visitors (new_snapshot i now url d))"
    by (simp_all add: new_short_url_def new_snapshot_def bigint_def)
  show ?thesis
    unfolding orm_insert_def model_tables found insert_checks [OF assms(3)] dump_tables dump_update
    by (simp add: constraints fit zero)
qed

theorem inserts_conform_witness:
  "orm_insert (alembic_version # migrated) 5 1 user_model (register_kwargs ''ada@example.com'' ''digest'' None) (dump empty_database) =
    Inr (dump (empty_database\<lparr>users := [new_user 1 5 ''ada@example.com'' ''digest'' None]\<rparr>)) \<and>
   orm_insert (alembic_version # migrated) 5 1 refresh_token_model (refresh_kwargs 7 ''digest'' 9) (dump empty_database) =
    Inl ConstraintViolated"
proof -
  have b: "beside upgrade [alembic_version]" using alembic_beside by (simp add: beside_def)
  then have up: "run_ddls upgrade [alembic_version] = Inr (alembic_version # migrated)"
    using run_ddls_beside [OF b, of "[]"] upgrade_empty by simp
  have "counters_fit empty_database" by (simp add: counters_fit_def empty_database_def)
  note main = inserts_conform [OF b up empty_database_ok this, of 5 1 "''ada@example.com''" "''digest''" None]
  have "dumped (insert_user (new_user 1 5 ''ada@example.com'' ''digest'' None) empty_database) =
      Inr (dump (empty_database\<lparr>users := [new_user 1 5 ''ada@example.com'' ''digest'' None]\<rparr>))"
    by (simp add: dumped_def insert_user_def empty_database_def new_user_def user_columns_def role_value_def)
  moreover have "dumped (insert_token (new_refresh_row 1 5 7 ''digest'' 9 None None) empty_database) = Inl ConstraintViolated"
    by (simp add: dumped_def insert_token_def empty_database_def)
  ultimately show ?thesis using main by metis
qed

end
