(* ===== verification/Phases.thy ===== *)
theory Phases
  imports Interleaving
begin

text \<open>
  The requests that write, cut where other transactions can come in.  PostgreSQL runs them under READ COMMITTED:
  what a request has looked up may have changed when its statements run.  Each operation of \<open>app/services/url.py\<close>
  and \<open>app/services/auth.py\<close> is split into its lookups (\<open>_read\<close>) and its statements (\<open>_write\<close>), which act on the
  database of a later moment; run without a gap the two are the operation.
\<close>

section \<open>Links\<close>

definition create_read :: "settings \<Rightarrow> (nat \<Rightarrow> nat \<Rightarrow> nat) \<Rightarrow> url_create_request \<Rightarrow> database \<Rightarrow> pystr result" where
  "create_read cfg rng data db =
     (if \<not> is_safe_url (c_original_url data)
      then Inl (App (ValidationError ''URL is not allowed (blocked host or scheme)''))
      else
        (case c_custom_alias data of
           Some (ch # a) \<Rightarrow>
             (case short_code_exists (ch # a) db of
                Inl e \<Rightarrow> Inl e
              | Inr True \<Rightarrow>
                  Inl (App (ConflictError (''Alias '' @ [CHR 0x27] @ (ch # a) @ [CHR 0x27] @ '' is already taken'')))
              | Inr False \<Rightarrow> Inr (ch # a))
         | _ \<Rightarrow> generate_unique_code cfg rng db))"

definition create_write ::
  "instant \<Rightarrow> uuid \<Rightarrow> url_create_request \<Rightarrow> uuid option \<Rightarrow> pystr \<Rightarrow> database \<Rightarrow> (short_url \<times> database) result" where
  "create_write now uuid4 data owner sc =
     create_with insert_short_url
       (new_short_url uuid4 now (c_original_url data) sc (c_custom_alias data) (c_title data) owner
          (c_is_public data) (c_expires_at data))"

text \<open>The lookup and the ownership test that an update and a deletion share.\<close>

definition owned_read :: "uuid \<Rightarrow> uuid \<Rightarrow> bool \<Rightarrow> database \<Rightarrow> short_url result" where
  "owned_read url_id requester is_admin db =
     (case get_by_id (short_urls db) url_id of
        Inl e \<Rightarrow> Inl e
      | Inr None \<Rightarrow> Inl (App (NotFoundError ''URL''))
      | Inr (Some url) \<Rightarrow>
          if \<not> is_admin \<and> owner_id url \<noteq> Some requester
          then Inl (App (AuthorizationError (''You don'' @ [CHR 0x27] @ ''t own this link'')))
          else Inr url)"

text \<open>
  \<open>BaseRepository.update\<close>: the flush sends the attributes that differ from the row as it was loaded, by primary
  key, and raises when no row has that key any more; the refresh then reads the row as it is.
\<close>

definition update_write ::
  "(int \<Rightarrow> instant) \<Rightarrow> instant \<Rightarrow> url_update_request \<Rightarrow> short_url \<Rightarrow> database \<Rightarrow> (short_url \<times> database) result" where
  "update_write to_utc now data loaded db =
     (let changed = filter (url_attr_changes loaded) (dump_updates data)
      in case find (\<lambda>s. row_id s = row_id loaded) (short_urls db) of
           None \<Rightarrow> Inl (if changed = [] then InvalidRequestError else StaleDataError)
         | Some s \<Rightarrow>
             if changed = [] then Inr (s, db)
             else
               (let s' = fold (url_setattr to_utc) changed s
                in if \<not> short_url_columns s' then Inl DataError
                   else Inr (s'\<lparr>updated_at := now\<rparr>,
                          update_short_url (row_id loaded) (\<lambda>_. s'\<lparr>updated_at := now\<rparr>) db)))"

section \<open>Accounts and sessions\<close>

definition register_read :: "register_request \<Rightarrow> database \<Rightarrow> unit result" where
  "register_read data db =
     (case email_exists (reg_email data) db of
        Inl e \<Rightarrow> Inl e
      | Inr True \<Rightarrow> Inl (App (ConflictError ''Email already registered''))
      | Inr False \<Rightarrow> Inr ())"

definition register_write ::
  "('r, 'x) ext_scheme \<Rightarrow> instant \<Rightarrow> uuid \<Rightarrow> nat \<Rightarrow> register_request \<Rightarrow> database \<Rightarrow> (user \<times> database) result" where
  "register_write E now uuid4 salt data =
     create_with insert_user
       (new_user uuid4 now (reg_email data) (hash_password E salt (reg_password data)) (reg_full_name data))"

definition login_read :: "('r, 'x) ext_scheme \<Rightarrow> login_request \<Rightarrow> database \<Rightarrow> user result" where
  "login_read E data db =
     (case get_by_email (login_email data) db of
        Inl e \<Rightarrow> Inl e
      | Inr found \<Rightarrow>
          (case (case found of
                   None \<Rightarrow> None
                 | Some u \<Rightarrow> if verify_password E (login_password data) (hashed_password u) then Some u else None) of
             None \<Rightarrow> Inl (auth_error ''Invalid email or password'')
           | Some u \<Rightarrow> if \<not> u_is_active u then Inl (auth_error ''Account is deactivated'') else Inr u))"

definition login_write ::
  "('r, 'x) ext_scheme \<Rightarrow> settings \<Rightarrow> instant \<Rightarrow> uuid \<Rightarrow> user \<Rightarrow> pystr option \<Rightarrow> pystr option \<Rightarrow> database \<Rightarrow>
   (token_response \<times> database) result"
where
  "login_write E cfg now uuid4 u ip agent db =
     (let access = create_access_token E cfg now (str_uuid (row_id u)) None;
          refresh_tok = create_refresh_token E cfg now (str_uuid (row_id u)) None;
          h = sha256_hex E refresh_tok;
          expires = now + timedelta_days (REFRESH_TOKEN_EXPIRE_DAYS cfg)
      in case create_with insert_token (new_refresh_row uuid4 now (row_id u) h expires agent ip) db of
           Inl e \<Rightarrow> Inl e
         | Inr (_, db') \<Rightarrow> Inr (token_pair cfg access refresh_tok, db'))"

text \<open>The stored row and the subject of the presented token.\<close>

definition refresh_read ::
  "('r, 'x) ext_scheme \<Rightarrow> settings \<Rightarrow> instant \<Rightarrow> pystr \<Rightarrow> database \<Rightarrow> (refresh_row \<times> pystr option) result" where
  "refresh_read E cfg now raw db =
     (case get_by_hash now (sha256_hex E raw) db of
        Inl e \<Rightarrow> Inl e
      | Inr None \<Rightarrow> Inl (auth_error ''Invalid or expired refresh token'')
      | Inr (Some stored) \<Rightarrow>
          (case decode_token E cfg now raw of
             Inl _ \<Rightarrow> Inl (auth_error ''Invalid refresh token'')
           | Inr payload \<Rightarrow>
               if type_claim payload \<noteq> Some ''refresh'' then Inl (auth_error ''Invalid token type'')
               else Inr (stored, sub payload)))"

definition revoke_write :: "instant \<Rightarrow> refresh_row \<Rightarrow> database \<Rightarrow> database result" where
  "revoke_write now stored db =
     (if row_id stored \<notin> row_id ` set (refresh_tokens db) then Inl StaleDataError
      else Inr (revoke_token now stored db))"

definition refresh_write ::
  "('r, 'x) ext_scheme \<Rightarrow> settings \<Rightarrow> instant \<Rightarrow> uuid \<Rightarrow> refresh_row \<Rightarrow> pystr option \<Rightarrow> database \<Rightarrow>
   (token_response \<times> database) result"
where
  "refresh_write E cfg now uuid4 stored subj db =
     (case revoke_write now stored db of
        Inl e \<Rightarrow> Inl e
      | Inr db1 \<Rightarrow>
          (case subj of
             None \<Rightarrow> Inl PyKeyError
           | Some subject \<Rightarrow>
               (let new_access = create_access_token E cfg now subject None;
                    new_refresh = create_refresh_token E cfg now subject None;
                    new_hash = sha256_hex E new_refresh;
                    expires = now + timedelta_days (REFRESH_TOKEN_EXPIRE_DAYS cfg)
                in case create_with insert_token
                          (new_refresh_row uuid4 now (user_id stored) new_hash expires None None) db1 of
                     Inl e \<Rightarrow> Inl e
                   | Inr (_, db') \<Rightarrow> Inr (token_pair cfg new_access new_refresh, db'))))"

definition logout_read :: "('r, 'x) ext_scheme \<Rightarrow> instant \<Rightarrow> pystr \<Rightarrow> database \<Rightarrow> refresh_row option result" where
  "logout_read E now raw = get_by_hash now (sha256_hex E raw)"

section \<open>A transaction between its lookups and its commit\<close>

datatype txn =
    TxCreate uuid url_create_request "uuid option" pystr
  | TxUpdate url_update_request short_url
  | TxDelete short_url
  | TxRegister uuid nat register_request
  | TxLogin uuid user "pystr option" "pystr option"
  | TxRefresh uuid refresh_row "pystr option"
  | TxLogout "refresh_row option"

text \<open>Its statements, and what it sends to Redis.  An update drops the codes of the row, which no statement changes.\<close>

fun txn_statements :: "('r, 'x) ext_scheme \<Rightarrow> settings \<Rightarrow> instant \<Rightarrow> txn \<Rightarrow> database \<Rightarrow> database result" where
  "txn_statements E cfg now (TxCreate i data owner sc) db = map_sum id snd (create_write now i data owner sc db)"
| "txn_statements E cfg now (TxUpdate data loaded) db =
     map_sum id snd (update_write (local_to_utc E) now data loaded db)"
| "txn_statements E cfg now (TxDelete loaded) db = Inr (url_repo_delete loaded db)"
| "txn_statements E cfg now (TxRegister i salt data) db = map_sum id snd (register_write E now i salt data db)"
| "txn_statements E cfg now (TxLogin i u ip agent) db = map_sum id snd (login_write E cfg now i u ip agent db)"
| "txn_statements E cfg now (TxRefresh i stored subj) db = map_sum id snd (refresh_write E cfg now i stored subj db)"
| "txn_statements E cfg now (TxLogout found) db =
     (case found of None \<Rightarrow> Inr db | Some stored \<Rightarrow> revoke_write now stored db)"

definition create_redis ::
  "('r, 'x) ext_scheme \<Rightarrow> settings \<Rightarrow> instant \<Rightarrow> uuid \<Rightarrow> url_create_request \<Rightarrow> uuid option \<Rightarrow> pystr \<Rightarrow> 'r \<Rightarrow> 'r"
where
  "create_redis E cfg now i data owner sc r =
     url_cache_set E cfg now sc
       (serialize (new_short_url i now (c_original_url data) sc (c_custom_alias data) (c_title data) owner
          (c_is_public data) (c_expires_at data))) None r"

declare create_redis_def [simp]

fun txn_redis :: "('r, 'x) ext_scheme \<Rightarrow> settings \<Rightarrow> instant \<Rightarrow> txn \<Rightarrow> 'r \<Rightarrow> 'r" where
  "txn_redis E cfg now (TxCreate i data owner sc) r = create_redis E cfg now i data owner sc r"
| "txn_redis E cfg now (TxUpdate data loaded) r = drop_cached E loaded r"
| "txn_redis E cfg now (TxDelete loaded) r = drop_cached E loaded r"
| "txn_redis E cfg now _ r = r"

definition txn_write :: "('r, 'x) ext_scheme \<Rightarrow> settings \<Rightarrow> instant \<Rightarrow> txn \<Rightarrow> ('r, unit) handler" where
  "txn_write E cfg now x w =
     (case txn_statements E cfg now x (w_db w) of
        Inl e \<Rightarrow> (Inl e, w)
      | Inr db' \<Rightarrow> (Inr (), w\<lparr>w_db := db', w_redis := txn_redis E cfg now x (w_redis w)\<rparr>))"

section \<open>What a request does before its first statement\<close>

definition reading :: "(database \<Rightarrow> 'a result) \<Rightarrow> ('r, 'a) handler" where
  "reading f w = (f (w_db w), w)"

text \<open>Dependencies, validation, rate limit and lookups of the endpoints that write.\<close>

definition create_url_before ::
  "('r, 'x) ext_scheme \<Rightarrow> settings \<Rightarrow> instant \<Rightarrow> uuid \<Rightarrow> uuid \<Rightarrow> (nat \<Rightarrow> nat \<Rightarrow> nat) \<Rightarrow> request \<Rightarrow> pystr option \<Rightarrow>
   url_create_body \<Rightarrow> ('r, txn) handler"
where
  "create_url_before E cfg now lid i rng req cred body =
     and_then (optional_user E cfg now cred) (\<lambda>user.
     and_then (returning (validate_url_create (http_url E) now body)) (\<lambda>data.
     and_then
       (rate_guard E now lid (case user of Some u \<Rightarrow> str_uuid (row_id u) | None \<Rightarrow> client_ip req)
          (if user \<noteq> None then 100 else 10) 3600 ''create_url'' ''URL creation rate limit exceeded'') (\<lambda>_.
     and_then (reading (create_read cfg rng data)) (\<lambda>sc.
     returning (Inr (TxCreate i data (map_option row_id user) sc))))))"

definition update_url_before ::
  "('r, 'x) ext_scheme \<Rightarrow> settings \<Rightarrow> instant \<Rightarrow> pystr option \<Rightarrow> uuid \<Rightarrow> url_update_request \<Rightarrow> ('r, txn) handler" where
  "update_url_before E cfg now cred url_id body =
     and_then (current_user E cfg now cred) (\<lambda>u.
     and_then (returning (validate_url_update body)) (\<lambda>data.
     and_then (reading (owned_read url_id (row_id u) (role u = ''admin''))) (\<lambda>url.
     returning (Inr (TxUpdate data url)))))"

definition delete_url_before ::
  "('r, 'x) ext_scheme \<Rightarrow> settings \<Rightarrow> instant \<Rightarrow> pystr option \<Rightarrow> uuid \<Rightarrow> ('r, txn) handler" where
  "delete_url_before E cfg now cred url_id =
     and_then (current_user E cfg now cred) (\<lambda>u.
     and_then (reading (owned_read url_id (row_id u) (role u = ''admin''))) (\<lambda>url.
     returning (Inr (TxDelete url))))"

definition register_user_before ::
  "('r, 'x) ext_scheme \<Rightarrow> instant \<Rightarrow> uuid \<Rightarrow> uuid \<Rightarrow> nat \<Rightarrow> request \<Rightarrow> register_request \<Rightarrow> ('r, txn) handler" where
  "register_user_before E now lid i salt req body =
     and_then (returning (validate_register (email_str E) body)) (\<lambda>data.
     and_then (rate_guard E now lid (or_anon (get_client_ip req)) 10 3600 ''register'' ''Too many registration attempts'') (\<lambda>_.
     and_then (reading (register_read data)) (\<lambda>_.
     returning (Inr (TxRegister i salt data)))))"

definition login_user_before ::
  "('r, 'x) ext_scheme \<Rightarrow> instant \<Rightarrow> uuid \<Rightarrow> uuid \<Rightarrow> request \<Rightarrow> login_request \<Rightarrow> ('r, txn) handler" where
  "login_user_before E now lid i req body =
     and_then (returning (validate_login (email_str E) body)) (\<lambda>data.
     and_then (rate_guard E now lid (or_anon (get_client_ip req)) 20 300 ''login'' ''Too many login attempts'') (\<lambda>_.
     and_then (reading (login_read E data)) (\<lambda>u.
     returning (Inr (TxLogin i u (get_client_ip req) (h_user_agent req))))))"

definition refresh_session_before :: "('r, 'x) ext_scheme \<Rightarrow> settings \<Rightarrow> instant \<Rightarrow> uuid \<Rightarrow> pystr \<Rightarrow> ('r, txn) handler" where
  "refresh_session_before E cfg now i raw =
     and_then (reading (refresh_read E cfg now raw)) (\<lambda>(stored, subj).
     returning (Inr (TxRefresh i stored subj)))"

definition logout_session_before :: "('r, 'x) ext_scheme \<Rightarrow> instant \<Rightarrow> pystr \<Rightarrow> ('r, txn) handler" where
  "logout_session_before E now raw =
     and_then (reading (logout_read E now raw)) (\<lambda>found.
     returning (Inr (TxLogout found)))"

text \<open>The preparation of a request, \<open>None\<close> for a request that writes nothing to the database.\<close>

fun prepare :: "('r, 'x) ext_scheme \<Rightarrow> settings \<Rightarrow> instant \<Rightarrow> api_call \<Rightarrow> ('r, txn) handler option" where
  "prepare E cfg now (CreateUrl lid i rng req cred body) = Some (create_url_before E cfg now lid i rng req cred body)"
| "prepare E cfg now (UpdateUrl cred url_id body) = Some (update_url_before E cfg now cred url_id body)"
| "prepare E cfg now (DeleteUrl cred url_id) = Some (delete_url_before E cfg now cred url_id)"
| "prepare E cfg now (RegisterUser lid i salt req body) = Some (register_user_before E now lid i salt req body)"
| "prepare E cfg now (LoginUser lid i req body) = Some (login_user_before E now lid i req body)"
| "prepare E cfg now (RefreshSession i raw) = Some (refresh_session_before E cfg now i raw)"
| "prepare E cfg now (LogoutSession raw) = Some (logout_session_before E now raw)"
| "prepare E cfg now _ = None"

lemmas before_defs [simp] = create_url_before_def update_url_before_def delete_url_before_def register_user_before_def
  login_user_before_def refresh_session_before_def logout_session_before_def

fun success_status :: "api_call \<Rightarrow> nat" where
  "success_status (CreateUrl lid i rng req cred body) = 201"
| "success_status (RegisterUser lid i salt req body) = 201"
| "success_status (DeleteUrl cred url_id) = 204"
| "success_status (LogoutSession raw) = 204"
| "success_status RootPage = 307"
| "success_status (Follow req c) = 302"
| "success_status _ = 200"

section \<open>Without a gap the phases are the operation\<close>

text \<open>A handler with its value forgotten; the status of a response does not depend on the value.\<close>

definition forgetting :: "('r, 'a) handler \<Rightarrow> ('r, unit) handler" where
  "forgetting h w = (map_sum id (\<lambda>_. ()) (fst (h w)), snd (h w))"

lemma respond_forgetting: "respond ok (with_session h w) = respond ok (with_session (forgetting h) w)"
  by (cases "h w"; cases "fst (h w)") (auto simp: respond_def with_session_def forgetting_def http_status_def)

lemma and_then_assoc: "and_then (and_then h k) l = and_then h (\<lambda>v. and_then (k v) l)"
  by (rule ext) (auto simp: and_then_def split: prod.splits sum.splits)

lemma forgetting_then: "forgetting (and_then h k) = and_then h (\<lambda>v. forgetting (k v))"
  by (rule ext) (auto simp: and_then_def forgetting_def split: prod.splits sum.splits)

lemma returning_then [simp]: "and_then (returning (Inr v)) k = k v"
  by (rule ext) (simp add: and_then_def returning_def)

lemma reading_then: "and_then (reading f) k w = (case f (w_db w) of Inl e \<Rightarrow> (Inl e, w) | Inr v \<Rightarrow> k v w)"
  by (simp add: and_then_def reading_def)

lemma map_sum_id_snd: "map_sum id snd x = (case x of Inl e \<Rightarrow> Inl e | Inr (v, db) \<Rightarrow> Inr db)"
  by (auto split: sum.split)

lemma create_phases:
  "forgetting (url_create E cfg now i rng data owner) =
    and_then (reading (create_read cfg rng data)) (\<lambda>sc. txn_write E cfg now (TxCreate i data owner sc))"
  by (rule ext)
    (auto simp: forgetting_def url_create_def reading_then create_read_def txn_write_def create_write_def Let_def
      create_with_Inr create_with_def map_sum_id_snd split: option.splits list.splits sum.splits bool.splits)

lemma setattr_unchanged: "\<not> url_attr_changes s a \<Longrightarrow> url_setattr to_utc a s = s"
  by (cases "(s, a)" rule: url_attr_changes.cases) (auto simp: utc_of_def)

text \<open>Setting only what differs is setting everything, when the row is still the one that was loaded.\<close>

lemma fold_changed:
  "fold (url_setattr to_utc) (filter (url_attr_changes s) (dump_updates d)) s = fold (url_setattr to_utc) (dump_updates d) s"
proof -
  have "u_title d = Some t \<Longrightarrow> \<not> url_attr_changes s (AttrTitle t) \<Longrightarrow> title s = Some t"
    "u_set_active d = Some b \<Longrightarrow> \<not> url_attr_changes s (AttrIsActive b) \<Longrightarrow> is_active s = b"
    "u_set_public d = Some b \<Longrightarrow> \<not> url_attr_changes s (AttrIsPublic b) \<Longrightarrow> is_public s = b"
    "u_expires_at d = Some e \<Longrightarrow> \<not> url_attr_changes s (AttrExpiresAt e) \<Longrightarrow> expires_at s = Some (utc_of to_utc e)" for t b e
    by (cases e; simp add: utc_of_def)+
  then show ?thesis
    unfolding fold_dump_updates by (auto simp: dump_updates_def split: option.splits)
qed

lemma only_row:
  assumes "filter P xs = [x]"
  shows "find P xs = Some x" "x \<in> set xs" "P x"
proof -
  have "x \<in> set (filter P xs)" by (simp add: assms)
  then show "x \<in> set xs" "P x" by simp_all
  show "find P xs = Some x" using assms by (simp add: find_filter)
qed

lemma scalar_Some: "scalar_one_or_none xs = Inr (Some x) \<longleftrightarrow> xs = [x]"
  by (auto simp: scalar_one_or_none_def the_one_OneRow_iff split: one_result.splits)

lemma update_phases:
  "forgetting (url_update E cfg now i data requester is_admin) =
    and_then (reading (owned_read i requester is_admin)) (\<lambda>url. txn_write E cfg now (TxUpdate data url))"
proof (rule ext)
  fix w
  show "forgetting (url_update E cfg now i data requester is_admin) w =
    and_then (reading (owned_read i requester is_admin)) (\<lambda>url. txn_write E cfg now (TxUpdate data url)) w"
  proof (cases "\<exists>url. owned_read i requester is_admin (w_db w) = Inr url")
    case True
    then obtain url where url: "owned_read i requester is_admin (w_db w) = Inr url" by blast
    then have g: "get_by_id (short_urls (w_db w)) i = Inr (Some url)" "\<not> (\<not> is_admin \<and> owner_id url \<noteq> Some requester)"
      by (auto simp: owned_read_def split: sum.splits option.splits if_splits)
    then have row: "filter (\<lambda>r. row_id r = i) (short_urls (w_db w)) = [url]"
      by (simp add: get_by_id_def scalar_Some)
    note one = only_row [OF row]
    then have found: "find (\<lambda>s. row_id s = row_id url) (short_urls (w_db w)) = Some url" by simp
    have drop: "drop_cached E (fold (url_setattr f) (dump_updates data) url\<lparr>updated_at := t\<rparr>) r = drop_cached E url r"
      for f t r by (simp add: drop_cached_def fold_dump_updates)
    have none: "filter (url_attr_changes url) (dump_updates data) = [] \<longleftrightarrow> \<not> list_ex (url_attr_changes url) (dump_updates data)"
      by (auto simp: filter_empty_conv list_ex_iff)
    show ?thesis
      using url g found
      by (auto simp: forgetting_def url_update_def reading_then txn_write_def update_write_def url_repo_update_def
          Let_def none fold_changed drop)
  next
    case False
    then show ?thesis
      by (auto simp: forgetting_def url_update_def reading_then owned_read_def split: sum.splits option.splits if_splits)
  qed
qed

lemma delete_phases:
  "forgetting (url_delete E i requester is_admin) =
    and_then (reading (owned_read i requester is_admin)) (\<lambda>url. txn_write E cfg now (TxDelete url))"
  by (rule ext)
    (auto simp: forgetting_def url_delete_def reading_then owned_read_def txn_write_def split: sum.splits option.splits)

lemma register_phases:
  "forgetting (register E now i salt data) =
    and_then (reading (register_read data)) (\<lambda>_. txn_write E cfg now (TxRegister i salt data))"
  by (rule ext)
    (auto simp: forgetting_def register_def reading_then register_read_def register_write_def txn_write_def
      split: sum.splits bool.splits)

lemma login_phases:
  "forgetting (login E cfg now i data ip agent) =
    and_then (reading (login_read E data)) (\<lambda>u. txn_write E cfg now (TxLogin i u ip agent))"
  by (rule ext)
    (auto simp: forgetting_def login_def reading_then login_read_def login_write_def txn_write_def Let_def
      split: sum.splits option.splits if_splits)

lemma stored_in_table:
  assumes "get_by_hash now h db = Inr (Some t)"
  shows "t \<in> set (refresh_tokens db)"
proof -
  have "filter (\<lambda>t. token_hash t = h \<and> \<not> is_revoked t \<and> now < rt_expires_at t) (refresh_tokens db) = [t]"
    using assms by (simp add: get_by_hash_def scalar_Some)
  from only_row(2) [OF this] show ?thesis .
qed

lemma revoke_write_stored:
  "get_by_hash now h db = Inr (Some t) \<Longrightarrow> revoke_write now' t db = Inr (revoke_token now' t db)"
  using stored_in_table by (force simp: revoke_write_def)

text \<open>A refresh that fails after the revocation leaves it to the session to undo it.\<close>

lemma refresh_phases:
  "with_session (forgetting (refresh E cfg now i raw)) =
    with_session (and_then (reading (refresh_read E cfg now raw)) (\<lambda>(stored, subj). txn_write E cfg now (TxRefresh i stored subj)))"
proof (rule ext)
  fix w :: "'a world"
  let ?g = "get_by_hash now (sha256_hex E raw) (w_db w)"
  have rw: "revoke_write now t (w_db w) = Inr (revoke_token now t (w_db w))" if "?g = Inr (Some t)" for t
    by (rule revoke_write_stored [OF that])
  show "with_session (forgetting (refresh E cfg now i raw)) w =
    with_session (and_then (reading (refresh_read E cfg now raw)) (\<lambda>(stored, subj). txn_write E cfg now (TxRefresh i stored subj))) w"
  proof (cases "\<exists>t. ?g = Inr (Some t)")
    case True
    then obtain t where "?g = Inr (Some t)" by blast
    then show ?thesis
      using rw by (simp add: with_session_def forgetting_def refresh_def reading_then refresh_read_def refresh_write_def
          txn_write_def Let_def split: sum.split option.split prod.split)
  next
    case False
    then show ?thesis
      by (auto simp: with_session_def forgetting_def refresh_def reading_then refresh_read_def split: sum.split option.split)
  qed
qed

lemma logout_phases:
  "forgetting (logout E now raw) =
    and_then (reading (logout_read E now raw)) (\<lambda>found. txn_write E cfg now (TxLogout found))"
  using revoke_write_stored by (intro ext)
    (auto simp: forgetting_def logout_def reading_then logout_read_def txn_write_def split: sum.splits option.splits)

lemma forgetting_unit [simp]: "forgetting (\<lambda>w. txn_write E cfg now x w) = txn_write E cfg now x"
  by (rule ext) (auto simp: forgetting_def txn_write_def split: sum.split)

lemma forgetting_returning: "and_then h (\<lambda>v. forgetting (returning (Inr (f v)))) = forgetting h"
  by (rule ext) (auto simp: forgetting_def and_then_def returning_def split: prod.splits sum.splits)

text \<open>An endpoint in two phases, and each of the seven as one.\<close>

lemma respond_phases:
  assumes "with_session (forgetting h) = with_session (and_then g k)"
  shows "respond ok (with_session h w) = respond ok (with_session (and_then g k) w)"
  using respond_forgetting [of ok h w] assms by simp

lemma endpoints_in_phases:
  "respond ok (create_url E cfg now lid i rng req cred cbody w) =
    respond ok (with_session (and_then (create_url_before E cfg now lid i rng req cred cbody) (txn_write E cfg now)) w)"
  "respond ok (update_url E cfg now cred url_id ubody w) =
    respond ok (with_session (and_then (update_url_before E cfg now cred url_id ubody) (txn_write E cfg now)) w)"
  "respond ok (delete_url E cfg now cred url_id w) =
    respond ok (with_session (and_then (delete_url_before E cfg now cred url_id) (txn_write E cfg now)) w)"
  "respond ok (register_user E now lid i salt req rbody w) =
    respond ok (with_session (and_then (register_user_before E now lid i salt req rbody) (txn_write E cfg now)) w)"
  "respond ok (login_user E cfg now lid i req lbody w) =
    respond ok (with_session (and_then (login_user_before E now lid i req lbody) (txn_write E cfg now)) w)"
  "respond ok (refresh_session E cfg now i raw w) =
    respond ok (with_session (and_then (refresh_session_before E cfg now i raw) (txn_write E cfg now)) w)"
  "respond ok (logout_session E now raw w) =
    respond ok (with_session (and_then (logout_session_before E now raw) (txn_write E cfg now)) w)"
  unfolding create_url_def update_url_def delete_url_def register_user_def login_user_def refresh_session_def
    logout_session_def
  by (rule respond_phases;
      simp add: forgetting_then forgetting_returning create_phases update_phases login_phases refresh_phases
        delete_phases [of E url_id _ _ cfg now] register_phases [of E now i salt _ cfg] logout_phases [of E now raw cfg]
        and_then_assoc case_prod_beta')+

section \<open>Properties\<close>

text \<open>
  A request that writes is its preparation (dependencies, validation, rate limit and lookups) followed by its
  transaction, with the same answer and the same effect on both stores.
\<close>

lemma serve_phases:
  assumes "prepare E cfg now c = Some h"
  shows "serve E cfg now c w = respond (success_status c) (with_session (and_then h (txn_write E cfg now)) w)"
  using assms by (cases c) (auto simp only: prepare.simps serve.simps success_status.simps endpoints_in_phases option.inject option.distinct)

end
