(* ===== verification/Connections.thy ===== *)
theory Connections
  imports Phases
begin

text \<open>
  The program on a connection to Redis that can fail.  A command either gets its answer, or is lost before the server
  saw it (\<open>Unsent\<close>), or is executed while its answer is lost (\<open>Unanswered\<close>); in both cases the client raises.  Every
  operation that talks to Redis is given here once more with one \<open>call\<close> per command, in the order of the code, and
  with the handlers of the code around the calls that have one.  The limiter is the object of \<open>rate_limiter.py\<close>: it
  loads its script into the server and then calls it by its digest.
\<close>

section \<open>A connection\<close>

datatype failure = Unsent | Unanswered

text \<open>
  The server: its keys and the scripts it has loaded; a restart forgets the scripts.  \<open>plan n\<close> says what happens to
  the \<open>n\<close>-th command of the connection.
\<close>

record 'r server =
  keys :: 'r
  scripts :: "pystr list"

record 'r connection =
  server :: "'r server"
  plan :: "nat \<Rightarrow> failure option"
  sent :: nat

definition call :: "('r server \<Rightarrow> 'a result \<times> 'r server) \<Rightarrow> ('r connection, 'a) handler" where
  "call command w =
     (let (reply, s') = command (server (w_redis w));
          r = (w_redis w)\<lparr>sent := Suc (sent (w_redis w))\<rparr>
      in case plan r (sent (w_redis w)) of
           None \<Rightarrow> (reply, w\<lparr>w_redis := r\<lparr>server := s'\<rparr>\<rparr>)
         | Some Unsent \<Rightarrow> (Inl RedisConnectionError, w\<lparr>w_redis := r\<rparr>)
         | Some Unanswered \<Rightarrow> (Inl RedisConnectionError, w\<lparr>w_redis := r\<lparr>server := s'\<rparr>\<rparr>))"

text \<open>Commands on the keys, with and without an answer that matters.\<close>

definition on_keys :: "('r \<Rightarrow> 'a \<times> 'r) \<Rightarrow> 'r server \<Rightarrow> 'a result \<times> 'r server" where
  "on_keys f s = (let (v, r) = f (keys s) in (Inr v, s\<lparr>keys := r\<rparr>))"

definition querying :: "('r \<Rightarrow> 'a) \<Rightarrow> ('r connection, 'a) handler" where
  "querying f = call (on_keys (\<lambda>r. (f r, r)))"

definition sending :: "('r \<Rightarrow> 'r) \<Rightarrow> ('r connection, unit) handler" where
  "sending f = call (on_keys (\<lambda>r. ((), f r)))"

definition catching :: "('r, unit) handler \<Rightarrow> ('r, unit) handler" where
  "catching h w = (Inr (), snd (h w))"

text \<open>A statement on the database that returns a value.\<close>

definition writing :: "(database \<Rightarrow> ('a \<times> database) result) \<Rightarrow> ('r, 'a) handler" where
  "writing f w = (case f (w_db w) of Inl e \<Rightarrow> (Inl e, w) | Inr (v, db') \<Rightarrow> (Inr v, w\<lparr>w_db := db'\<rparr>))"

section \<open>The limiter\<close>

text \<open>\<open>SlidingWindowRateLimiter\<close> with the digest it remembers; \<open>get_rate_limiter\<close> makes a new one for every request.\<close>

record limiter =
  script_sha :: "pystr option"

definition get_rate_limiter :: limiter where
  "get_rate_limiter = \<lparr>script_sha = None\<rparr>"

definition script_load :: "pystr \<Rightarrow> 'r server \<Rightarrow> pystr result \<times> 'r server" where
  "script_load digest s = (Inr digest, s\<lparr>scripts := List.insert digest (scripts s)\<rparr>)"

definition evalsha :: "pystr \<Rightarrow> ('r \<Rightarrow> 'a \<times> 'r) \<Rightarrow> 'r server \<Rightarrow> 'a result \<times> 'r server" where
  "evalsha sha script s = (if sha \<in> set (scripts s) then on_keys script s else (Inl NoScriptError, s))"

definition get_sha :: "('r, 'x) ext_scheme \<Rightarrow> limiter \<Rightarrow> ('r connection, pystr \<times> limiter) handler" where
  "get_sha E rl =
     (case script_sha rl of
        Some sha \<Rightarrow> returning (Inr (sha, rl))
      | None \<Rightarrow>
          and_then (call (script_load (script_digest E))) (\<lambda>sha.
          returning (Inr (sha, rl\<lparr>script_sha := Some sha\<rparr>))))"

definition limiter_is_allowed ::
  "('r, 'x) ext_scheme \<Rightarrow> instant \<Rightarrow> uuid \<Rightarrow> pystr \<Rightarrow> int \<Rightarrow> int \<Rightarrow> pystr \<Rightarrow> limiter \<Rightarrow>
   ('r connection, (bool \<times> int \<times> int) \<times> limiter) handler"
where
  "limiter_is_allowed E now uuid4 identifier limit window endpoint rl =
     and_then (get_sha E rl) (\<lambda>(sha, rl').
     and_then (call (evalsha sha
        (sliding_window_script E (rate_key identifier endpoint) now (now - timedelta_seconds window) limit window
           (str_uuid uuid4)))) (\<lambda>result.
     returning (Inr ((fst result \<noteq> 0, fst (snd result), snd (snd result)), rl'))))"

definition rate_guard_call ::
  "('r, 'x) ext_scheme \<Rightarrow> instant \<Rightarrow> uuid \<Rightarrow> pystr \<Rightarrow> int \<Rightarrow> int \<Rightarrow> pystr \<Rightarrow> pystr \<Rightarrow> ('r connection, unit) handler"
where
  "rate_guard_call E now lid identifier limit window endpoint message =
     and_then (limiter_is_allowed E now lid identifier limit window endpoint get_rate_limiter) (\<lambda>((allowed, _, _), _).
     returning (if \<not> allowed then Inl (App (RateLimitError message)) else Inr ()))"

section \<open>Services\<close>

definition url_create_call ::
  "('r, 'x) ext_scheme \<Rightarrow> settings \<Rightarrow> instant \<Rightarrow> uuid \<Rightarrow> (nat \<Rightarrow> nat \<Rightarrow> nat) \<Rightarrow> url_create_request \<Rightarrow> uuid option \<Rightarrow>
   ('r connection, url_response) handler"
where
  "url_create_call E cfg now i rng data owner =
     and_then (reading (create_read cfg rng data)) (\<lambda>sc.
     and_then (writing (create_write now i data owner sc)) (\<lambda>url.
     and_then (sending (url_cache_set E cfg now sc (serialize url) None)) (\<lambda>_.
     returning (Inr (to_response cfg url)))))"

definition drop_cached_call :: "('r, 'x) ext_scheme \<Rightarrow> short_url \<Rightarrow> ('r connection, unit) handler" where
  "drop_cached_call E url =
     and_then (sending (url_cache_delete E (short_code url))) (\<lambda>_.
     (case custom_alias url of
        Some (ch # a) \<Rightarrow> sending (url_cache_delete E (ch # a))
      | _ \<Rightarrow> returning (Inr ())))"

definition url_update_call ::
  "('r, 'x) ext_scheme \<Rightarrow> settings \<Rightarrow> instant \<Rightarrow> uuid \<Rightarrow> url_update_request \<Rightarrow> uuid \<Rightarrow> bool \<Rightarrow>
   ('r connection, url_response) handler"
where
  "url_update_call E cfg now url_id data requester is_admin =
     and_then (reading (owned_read url_id requester is_admin)) (\<lambda>url.
     and_then (writing (url_repo_update (local_to_utc E) now url (dump_updates data))) (\<lambda>url'.
     and_then (drop_cached_call E url') (\<lambda>_.
     returning (Inr (to_response cfg url')))))"

definition url_delete_call ::
  "('r, 'x) ext_scheme \<Rightarrow> uuid \<Rightarrow> uuid \<Rightarrow> bool \<Rightarrow> ('r connection, unit) handler" where
  "url_delete_call E url_id requester is_admin =
     and_then (reading (owned_read url_id requester is_admin)) (\<lambda>url.
     and_then (drop_cached_call E url) (\<lambda>_.
     writing (\<lambda>db. Inr ((), url_repo_delete url db))))"

text \<open>Summaries: one lookup, and one command that stores what was computed.\<close>

definition get_summary_call ::
  "('r, 'x) ext_scheme \<Rightarrow> settings \<Rightarrow> instant \<Rightarrow> pystr \<Rightarrow> int \<Rightarrow> ('r connection, analytics_summary) handler" where
  "get_summary_call E cfg now c days =
     and_then (querying (get_cached_summary E now c)) (\<lambda>answer.
     and_then (returning answer) (\<lambda>hit.
     (case (case hit of Some v \<Rightarrow> if json_truthy v then Some v else None | None \<Rightarrow> None) of
        Some (JObj kvs) \<Rightarrow>
          returning (case summary_load E (JObj kvs) of None \<Rightarrow> Inl PyValueError | Some s \<Rightarrow> Inr s)
      | Some _ \<Rightarrow> returning (Inl PyTypeError)
      | None \<Rightarrow>
          and_then (reading (get_by_short_code c)) (\<lambda>found.
          (case found of
             None \<Rightarrow> returning (Inl (App (NotFoundError ''Short URL'')))
           | Some url \<Rightarrow>
               and_then (reading (\<lambda>db. Inr (compute_summary now c days url db))) (\<lambda>summary.
               and_then (sending (set_cached_summary E cfg now c (summary_dump E summary))) (\<lambda>_.
               returning (Inr summary))))))))"

definition get_or_generate_call ::
  "('r, 'x) ext_scheme \<Rightarrow> settings \<Rightarrow> instant \<Rightarrow> pystr \<Rightarrow> ('r connection, pystr) handler" where
  "get_or_generate_call E cfg now c =
     and_then (querying (qr_get E now c)) (\<lambda>answer.
     and_then (returning answer) (\<lambda>cached.
     (case cached of
        Some png \<Rightarrow> returning (Inr png)
      | None \<Rightarrow>
          and_then (reading (get_by_short_code c)) (\<lambda>found.
          (case found of
             None \<Rightarrow> returning (Inl (App (NotFoundError ''Short URL'')))
           | Some url \<Rightarrow>
               (let png = render_png E (qr_target cfg url)
                in and_then (sending (qr_put E cfg now c png)) (\<lambda>_.
                   returning (Inr png))))))))"

section \<open>Endpoints\<close>

text \<open>What sends nothing to Redis runs as before.\<close>

definition plain :: "'r connection world \<Rightarrow> 'r world" where
  "plain w = \<lparr>w_db = w_db w, w_redis = keys (server (w_redis w))\<rparr>"

definition offline :: "('r, 'a) handler \<Rightarrow> ('r connection, 'a) handler" where
  "offline h w = (let (res, w') = h (plain w) in (res, w\<lparr>w_db := w_db w'\<rparr>))"

definition create_url_call ::
  "('r, 'x) ext_scheme \<Rightarrow> settings \<Rightarrow> instant \<Rightarrow> uuid \<Rightarrow> uuid \<Rightarrow> (nat \<Rightarrow> nat \<Rightarrow> nat) \<Rightarrow> request \<Rightarrow> pystr option \<Rightarrow>
   url_create_body \<Rightarrow> ('r connection, url_response) handler"
where
  "create_url_call E cfg now lid i rng req cred body =
     with_session
       (and_then (offline (optional_user E cfg now cred)) (\<lambda>user.
        and_then (returning (validate_url_create (http_url E) now body)) (\<lambda>data.
        and_then
          (rate_guard_call E now lid (case user of Some u \<Rightarrow> str_uuid (row_id u) | None \<Rightarrow> client_ip req)
             (if user \<noteq> None then 100 else 10) 3600 ''create_url'' ''URL creation rate limit exceeded'') (\<lambda>_.
        url_create_call E cfg now i rng data (map_option row_id user)))))"

definition update_url_call ::
  "('r, 'x) ext_scheme \<Rightarrow> settings \<Rightarrow> instant \<Rightarrow> pystr option \<Rightarrow> uuid \<Rightarrow> url_update_request \<Rightarrow>
   ('r connection, url_response) handler"
where
  "update_url_call E cfg now cred url_id body =
     with_session
       (and_then (offline (current_user E cfg now cred)) (\<lambda>u.
        and_then (returning (validate_url_update body)) (\<lambda>data.
        url_update_call E cfg now url_id data (row_id u) (role u = ''admin''))))"

definition delete_url_call ::
  "('r, 'x) ext_scheme \<Rightarrow> settings \<Rightarrow> instant \<Rightarrow> pystr option \<Rightarrow> uuid \<Rightarrow> ('r connection, unit) handler" where
  "delete_url_call E cfg now cred url_id =
     with_session
       (and_then (offline (current_user E cfg now cred)) (\<lambda>u.
        url_delete_call E url_id (row_id u) (role u = ''admin'')))"

definition register_user_call ::
  "('r, 'x) ext_scheme \<Rightarrow> instant \<Rightarrow> uuid \<Rightarrow> uuid \<Rightarrow> nat \<Rightarrow> request \<Rightarrow> register_request \<Rightarrow>
   ('r connection, user_response) handler"
where
  "register_user_call E now lid i salt req body =
     with_session
       (and_then (returning (validate_register (email_str E) body)) (\<lambda>data.
        and_then (rate_guard_call E now lid (or_anon (get_client_ip req)) 10 3600 ''register'' ''Too many registration attempts'') (\<lambda>_.
        and_then (offline (register E now i salt data)) (\<lambda>u.
        returning (Inr (user_to_response u))))))"

definition login_user_call ::
  "('r, 'x) ext_scheme \<Rightarrow> settings \<Rightarrow> instant \<Rightarrow> uuid \<Rightarrow> uuid \<Rightarrow> request \<Rightarrow> login_request \<Rightarrow>
   ('r connection, token_response) handler"
where
  "login_user_call E cfg now lid i req body =
     with_session
       (and_then (returning (validate_login (email_str E) body)) (\<lambda>data.
        and_then (rate_guard_call E now lid (or_anon (get_client_ip req)) 20 300 ''login'' ''Too many login attempts'') (\<lambda>_.
        offline (login E cfg now i data (get_client_ip req) (h_user_agent req)))))"

definition analytics_summary_call ::
  "('r, 'x) ext_scheme \<Rightarrow> settings \<Rightarrow> instant \<Rightarrow> pystr option \<Rightarrow> pystr \<Rightarrow> int \<Rightarrow>
   ('r connection, analytics_summary) handler"
where
  "analytics_summary_call E cfg now cred c days =
     with_session
       (and_then (offline (current_user E cfg now cred)) (\<lambda>_.
        and_then (query_range 1 365 days) (\<lambda>_.
        get_summary_call E cfg now c days)))"

definition qr_code_call ::
  "('r, 'x) ext_scheme \<Rightarrow> settings \<Rightarrow> instant \<Rightarrow> pystr \<Rightarrow> ('r connection, pystr) handler" where
  "qr_code_call E cfg now c = with_session (get_or_generate_call E cfg now c)"

text \<open>The health check: \<open>msg\<close> is the text of the exception of a failed \<open>PING\<close>.\<close>

definition health_call :: "settings \<Rightarrow> pystr option \<Rightarrow> pystr \<Rightarrow> ('r connection, json) handler" where
  "health_call cfg db_failure msg w =
     (case querying (\<lambda>r. ()) w of
        (Inl _, w') \<Rightarrow> (Inr (health cfg db_failure (Some msg)), w')
      | (Inr _, w') \<Rightarrow> (Inr (health cfg db_failure None), w'))"

section \<open>Redirects and their background tasks\<close>

text \<open>\<open>track_click\<close>: two or three commands.\<close>

definition track_click_call :: "('r, 'x) redis_ops_scheme \<Rightarrow> settings \<Rightarrow> instant \<Rightarrow> pystr \<Rightarrow> ('r connection, int) handler" where
  "track_click_call R cfg now c =
     and_then (call (on_keys (redis_incr R now (hot_key c)))) (\<lambda>count.
     and_then (sending (redis_expire R now (hot_key c) 3600)) (\<lambda>_.
     and_then
       (if count \<ge> HOT_URL_CLICK_THRESHOLD cfg
        then sending (redis_expire R now (url_key c) (URL_CACHE_TTL cfg * 2)) else returning (Inr ())) (\<lambda>_.
     returning (Inr count))))"

text \<open>Only \<open>_enqueue_click\<close> has a handler of its own.\<close>

fun run_task_call :: "('r, 'x) ext_scheme \<Rightarrow> settings \<Rightarrow> instant \<Rightarrow> task \<Rightarrow> ('r connection, unit) handler" where
  "run_task_call E cfg now (CacheSet c v) = sending (url_cache_set E cfg now c v None)"
| "run_task_call E cfg now (TrackClick c) = and_then (track_click_call E cfg now c) (\<lambda>_. returning (Inr ()))"
| "run_task_call E cfg now (EnqueueClick i ip agent refer) = catching (sending (enqueue_click E now i ip agent refer))"

text \<open>Starlette runs the tasks of a response one after the other; an exception ends the sequence.\<close>

primrec run_tasks_call :: "('r, 'x) ext_scheme \<Rightarrow> settings \<Rightarrow> instant \<Rightarrow> task list \<Rightarrow> ('r connection, unit) handler" where
  "run_tasks_call E cfg now [] = returning (Inr ())"
| "run_tasks_call E cfg now (t # ts) = and_then (run_task_call E cfg now t) (\<lambda>_. run_tasks_call E cfg now ts)"

text \<open>The tasks run when the response has been sent, so they do not change the answer.\<close>

definition redirect_call ::
  "('r, 'x) ext_scheme \<Rightarrow> settings \<Rightarrow> instant \<Rightarrow> request \<Rightarrow> pystr \<Rightarrow> ('r connection, pystr) handler" where
  "redirect_call E cfg now req c =
     (if c \<in> set reserved_paths then returning (Inl (HTTPException 404 ''Not Found''))
      else
        and_then (querying (url_cache_get E now c)) (\<lambda>answer.
        and_then (returning answer) (\<lambda>hit.
        and_then (reading (resolve_from now c (redirect_ip req) (h_user_agent req) (h_referer req) hit)) (\<lambda>(target, tasks).
        and_then (catching (run_tasks_call E cfg now tasks)) (\<lambda>_.
        returning (Inr target))))))"

section \<open>The worker\<close>

definition flush_pop_call :: "('r, 'x) ext_scheme \<Rightarrow> settings \<Rightarrow> instant \<Rightarrow> ('r connection, json list) handler" where
  "flush_pop_call E cfg now =
     and_then (querying (queue_length E now)) (\<lambda>queue_len.
     if queue_len = 0 then returning (Inr [])
     else
       and_then (call (on_keys (pop_events E now (nat (ANALYTICS_BATCH_SIZE cfg))))) (\<lambda>answer.
       returning answer))"

definition flush_call ::
  "('r, 'x) ext_scheme \<Rightarrow> settings \<Rightarrow> instant \<Rightarrow> uuid list \<Rightarrow> ('r connection, unit) handler" where
  "flush_call E cfg now ids =
     and_then (flush_pop_call E cfg now) (\<lambda>events.
     if events = [] then returning (Inr ())
     else writing (\<lambda>db. map_sum id (Pair ()) (persist_batch ids now events db)))"

definition run_iteration_call ::
  "('r, 'x) ext_scheme \<Rightarrow> settings \<Rightarrow> instant \<Rightarrow> uuid list \<Rightarrow> ('r connection, unit) handler" where
  "run_iteration_call E cfg now ids = catching (flush_call E cfg now ids)"

definition stop_worker_call ::
  "('r, 'x) ext_scheme \<Rightarrow> settings \<Rightarrow> instant \<Rightarrow> uuid list \<Rightarrow> bool \<Rightarrow> worker \<Rightarrow> 'r connection world \<Rightarrow>
   unit result \<times> worker \<times> 'r connection world"
where
  "stop_worker_call E cfg now ids in_flush s w =
     (case s of
        Stopped \<Rightarrow> (Inr (), Stopped, w)
      | _ \<Rightarrow>
          (let w1 = (if in_flush \<and> s = Running then snd (flush_pop_call E cfg now w) else w);
               (res, w2) = flush_call E cfg now ids w1
           in (res, (case res of Inr _ \<Rightarrow> Stopped | Inl _ \<Rightarrow> Halted), w2)))"

section \<open>The routes\<close>

fun serve_call ::
  "('r, 'x) ext_scheme \<Rightarrow> settings \<Rightarrow> instant \<Rightarrow> api_call \<Rightarrow> 'r connection world \<Rightarrow> nat \<times> 'r connection world" where
  "serve_call E cfg now (CreateUrl lid i rng req cred body) w =
     respond 201 (create_url_call E cfg now lid i rng req cred body w)"
| "serve_call E cfg now (ListUrls rank cred page_no sz) w = respond 200 (offline (list_urls E cfg now rank cred page_no sz) w)"
| "serve_call E cfg now (GetUrl cred url_id) w = respond 200 (offline (get_url E cfg now cred url_id) w)"
| "serve_call E cfg now (UpdateUrl cred url_id body) w = respond 200 (update_url_call E cfg now cred url_id body w)"
| "serve_call E cfg now (DeleteUrl cred url_id) w = respond 204 (delete_url_call E cfg now cred url_id w)"
| "serve_call E cfg now (RegisterUser lid i salt req body) w =
     respond 201 (register_user_call E now lid i salt req body w)"
| "serve_call E cfg now (LoginUser lid i req body) w = respond 200 (login_user_call E cfg now lid i req body w)"
| "serve_call E cfg now (RefreshSession i raw) w = respond 200 (offline (refresh_session E cfg now i raw) w)"
| "serve_call E cfg now (LogoutSession raw) w = respond 204 (offline (logout_session E now raw) w)"
| "serve_call E cfg now (Me cred) w = respond 200 (offline (me E cfg now cred) w)"
| "serve_call E cfg now (AnalyticsSummary cred c days) w = respond 200 (analytics_summary_call E cfg now cred c days w)"
| "serve_call E cfg now (QrCode c) w = respond 200 (qr_code_call E cfg now c w)"
| "serve_call E cfg now RootPage w = (307, w)"
| "serve_call E cfg now (Follow req c) w = respond 302 (redirect_call E cfg now req c w)"

end
