(* ===== verification/Outages.thy ===== *)
theory Outages
  imports Connections
begin

text \<open>
  What the operations of \<open>Connections\<close> do when commands to Redis fail: a request either runs as on a good connection
  or is answered 500 with the database as it was; the invariants of the service under any failures; and what an
  outage stops.
\<close>

section \<open>As on a good connection, or an error\<close>

definition healthy :: "'r connection world \<Rightarrow> bool" where
  "healthy w \<longleftrightarrow> (\<forall>n. plan (w_redis w) n = None)"

text \<open>\<open>h'\<close> does what \<open>h\<close> does with the keys of the server, or raises, which it does not on a good connection.\<close>

definition abides :: "('r connection, 'a) handler \<Rightarrow> ('r, 'a) handler \<Rightarrow> bool" where
  "abides h' h \<longleftrightarrow> (\<forall>w. plan (w_redis (snd (h' w))) = plan (w_redis w) \<and>
     (fst (h' w) = fst (h (plain w)) \<and> plain (snd (h' w)) = snd (h (plain w)) \<or>
      fst (h' w) = Inl RedisConnectionError \<and> \<not> healthy w))"

named_theorems abiding

definition updating :: "('r \<Rightarrow> 'a \<times> 'r) \<Rightarrow> ('r, 'a) handler" where
  "updating f w = (let (v, r) = f (w_redis w) in (Inr v, w\<lparr>w_redis := r\<rparr>))"

lemma offline_simps [simp]:
  "w_db (plain w) = w_db w" "w_redis (plain w) = keys (server (w_redis w))"
  "plain (w\<lparr>w_db := db\<rparr>) = (plain w)\<lparr>w_db := db\<rparr>"
  by (simp_all add: plain_def)

lemma abides_keys [abiding]: "abides (call (on_keys f)) (updating f)"
  by (auto simp: abides_def call_def on_keys_def updating_def healthy_def plain_def Let_def
      split: prod.split option.split failure.split)

lemma abides_querying [abiding]: "abides (querying f) (updating (\<lambda>r. (f r, r)))"
  unfolding querying_def by (rule abides_keys)

lemma abides_sending [abiding]: "abides (sending f) (updating (\<lambda>r. ((), f r)))"
  unfolding sending_def by (rule abides_keys)

lemma abides_returning [abiding]: "abides (returning v) (returning v)"
  by (simp add: abides_def returning_def)

lemma abides_reading [abiding]: "abides (reading f) (reading f)"
  by (simp add: abides_def reading_def)

lemma abides_writing [abiding]: "abides (writing f) (writing f)"
  by (simp add: abides_def writing_def split: sum.split prod.split)

lemma abides_then:
  assumes "abides h' h" "\<And>v. abides (k' v) (k v)"
  shows "abides (and_then h' k') (and_then h k)"
  unfolding abides_def
proof (rule allI)
  fix w
  note h = assms(1) [unfolded abides_def, rule_format, of w]
  show "plan (w_redis (snd (and_then h' k' w))) = plan (w_redis w) \<and>
    (fst (and_then h' k' w) = fst (and_then h k (plain w)) \<and> plain (snd (and_then h' k' w)) = snd (and_then h k (plain w)) \<or>
     fst (and_then h' k' w) = Inl RedisConnectionError \<and> \<not> healthy w)"
  proof (cases "fst (h' w)")
    case (Inl e)
    then show ?thesis using h by (auto simp: and_then_def split: prod.splits sum.splits)
  next
    case (Inr v)
    then have "fst (h (plain w)) = Inr v" "plain (snd (h' w)) = snd (h (plain w))" "plan (w_redis (snd (h' w))) = plan (w_redis w)"
      using h by auto
    then show ?thesis
      using assms(2) [of v, unfolded abides_def, rule_format, of "snd (h' w)"] Inr
      by (auto simp: and_then_def healthy_def split: prod.splits)
  qed
qed

lemma abides_session [abiding]:
  assumes "abides h' h"
  shows "abides (with_session h') (with_session h)"
proof -
  have "plan (w_redis (snd (with_session h' w))) = plan (w_redis (snd (h' w)))" for w
    by (auto simp: with_session_def split: prod.split sum.split)
  moreover have "plain (snd (with_session h' w)) = snd (with_session h (plain w))"
    if "fst (h' w) = fst (h (plain w))" "plain (snd (h' w)) = snd (h (plain w))" for w
    using that by (cases "h' w"; cases "h (plain w)") (auto simp: with_session_def split: sum.split)
  ultimately show ?thesis using assms by (auto simp: abides_def)
qed

text \<open>Handlers that leave the keys alone.\<close>

lemma offline_same:
  assumes "\<And>w. w_redis (snd (h w)) = w_redis w"
  shows "fst (offline h w) = fst (h (plain w))" "plain (snd (offline h w)) = snd (h (plain w))"
    "plan (w_redis (snd (offline h w))) = plan (w_redis w)"
proof -
  obtain res w' where h: "h (plain w) = (res, w')" by fastforce
  then have "w_redis w' = keys (server (w_redis w))" using assms [of "plain w"] by simp
  moreover have "snd (offline h w) = w\<lparr>w_db := w_db w'\<rparr>" by (simp add: offline_def h)
  ultimately show "plain (snd (offline h w)) = snd (h (plain w))" by (intro world.equality) (simp_all add: h)
qed (auto simp: offline_def split: prod.split)

lemma abides_offline: "(\<And>w. w_redis (snd (h w)) = w_redis w) \<Longrightarrow> abides (offline h) h"
  unfolding abides_def using offline_same by blast

lemma abides_case_list [abiding]: "abides (if b then h1' else h2') (if b then h1 else h2)"
  if "abides h1' h1" "abides h2' h2"
  using that by simp

lemma abidesD:
  assumes "abides h' h"
  obtains "fst (h' w) = fst (h (plain w))" "plain (snd (h' w)) = snd (h (plain w))"
  | "fst (h' w) = Inl RedisConnectionError" "\<not> healthy w"
  using assms unfolding abides_def by blast

section \<open>The limiter\<close>

text \<open>
  A limiter that has not loaded its script loads it, whatever the server has forgotten; one that remembers a digest
  that the server has forgotten fails on every call, and nothing loads the script again.
\<close>

lemma call_simps:
  "plan (w_redis w) (sent (w_redis w)) = None \<Longrightarrow>
    call command w = (fst (command (server (w_redis w))),
      w\<lparr>w_redis := (w_redis w)\<lparr>sent := Suc (sent (w_redis w)), server := snd (command (server (w_redis w)))\<rparr>\<rparr>)"
  "plan (w_redis w) (sent (w_redis w)) = Some Unsent \<Longrightarrow>
    call command w = (Inl RedisConnectionError, w\<lparr>w_redis := (w_redis w)\<lparr>sent := Suc (sent (w_redis w))\<rparr>\<rparr>)"
  "plan (w_redis w) (sent (w_redis w)) = Some Unanswered \<Longrightarrow>
    call command w = (Inl RedisConnectionError,
      w\<lparr>w_redis := (w_redis w)\<lparr>sent := Suc (sent (w_redis w)), server := snd (command (server (w_redis w)))\<rparr>\<rparr>)"
  by (simp_all add: call_def Let_def case_prod_beta)

lemma stale_limiter_fails:
  assumes "script_sha rl = Some sha" "sha \<notin> set (scripts (server (w_redis w)))" "healthy w"
  shows "fst (limiter_is_allowed E now lid ident n window ep rl w) = Inl NoScriptError"
    "plain (snd (limiter_is_allowed E now lid ident n window ep rl w)) = plain w"
    "scripts (server (w_redis (snd (limiter_is_allowed E now lid ident n window ep rl w)))) = scripts (server (w_redis w))"
  using assms
  by (simp_all add: limiter_is_allowed_def get_sha_def and_then_def returning_def evalsha_def call_simps healthy_def plain_def)

lemma get_sha_new:
  obtains w' sha rl where "get_sha E get_rate_limiter w = (Inr (sha, rl), w')" "sha \<in> set (scripts (server (w_redis w')))"
    "plain w' = plain w" "plan (w_redis w') = plan (w_redis w)"
  | w' where "get_sha E get_rate_limiter w = (Inl RedisConnectionError, w')" "\<not> healthy w" "plain w' = plain w"
    "plan (w_redis w') = plan (w_redis w)"
proof (cases "plan (w_redis w) (sent (w_redis w))")
  case None
  then show ?thesis
    by (intro that(1) [of "script_digest E" "\<lparr>script_sha = Some (script_digest E)\<rparr>" "snd (get_sha E get_rate_limiter w)"])
      (simp_all add: get_sha_def get_rate_limiter_def and_then_def call_simps script_load_def returning_def plain_def)
next
  case (Some f)
  then have "get_sha E get_rate_limiter w = (Inl RedisConnectionError, snd (get_sha E get_rate_limiter w))"
    "plain (snd (get_sha E get_rate_limiter w)) = plain w"
    "plan (w_redis (snd (get_sha E get_rate_limiter w))) = plan (w_redis w)"
    by (cases f; simp add: get_sha_def get_rate_limiter_def and_then_def call_simps script_load_def plain_def)+
  moreover have "\<not> healthy w" using Some by (metis healthy_def option.distinct(1))
  ultimately show ?thesis using that(2) by blast
qed

lemma rate_guard_steps:
  "rate_guard E now lid ident n window ep m =
    and_then (updating (sliding_window_script E (rate_key ident ep) now (now - timedelta_seconds window) n window (str_uuid lid)))
      (\<lambda>result. returning (if fst result = 0 then Inl (App (RateLimitError m)) else Inr ()))"
  by (rule ext) (simp add: rate_guard_def is_allowed_def and_then_def updating_def returning_def Let_def split: prod.split)

lemma rate_guard_call_loaded:
  assumes "get_sha E get_rate_limiter w = (Inr (sha, rl), w')" "sha \<in> set (scripts (server (w_redis w')))"
  shows "rate_guard_call E now lid ident n window ep m w =
    and_then (call (on_keys (sliding_window_script E (rate_key ident ep) now (now - timedelta_seconds window) n window (str_uuid lid))))
      (\<lambda>result. returning (if fst result = 0 then Inl (App (RateLimitError m)) else Inr ())) w'"
  using assms
  by (simp add: rate_guard_call_def limiter_is_allowed_def and_then_def evalsha_def call_def returning_def
      split: prod.split sum.split)

lemma abides_rate_guard [abiding]:
  "abides (rate_guard_call E now lid ident n window ep m) (rate_guard E now lid ident n window ep m)"
  unfolding abides_def
proof (rule allI)
  fix w
  let ?k = "\<lambda>result. returning (if fst result = 0 then Inl (App (RateLimitError m)) else Inr ())"
  let ?g = "rate_guard_call E now lid ident n window ep m"
  let ?f = "sliding_window_script E (rate_key ident ep) now (now - timedelta_seconds window) n window (str_uuid lid)"
  show "plan (w_redis (snd (?g w))) = plan (w_redis w) \<and>
    (fst (?g w) = fst (rate_guard E now lid ident n window ep m (plain w)) \<and>
      plain (snd (?g w)) = snd (rate_guard E now lid ident n window ep m (plain w)) \<or>
     fst (?g w) = Inl RedisConnectionError \<and> \<not> healthy w)"
  proof (cases rule: get_sha_new [of E w])
    case (1 w' sha rl)
    note steps = rate_guard_call_loaded [OF 1(1,2), of now lid ident n window ep m] rate_guard_steps [of E now lid ident n window ep m]
    have "healthy w' \<longleftrightarrow> healthy w" using 1(4) by (simp add: healthy_def)
    moreover have "abides (and_then (call (on_keys ?f)) ?k) (and_then (updating ?f) ?k)"
      by (intro abides_then abiding)
    note this [unfolded abides_def, rule_format, of w']
    ultimately show ?thesis using 1(3,4) unfolding steps by simp
  next
    case (2 w')
    then show ?thesis by (simp add: rate_guard_call_def limiter_is_allowed_def and_then_def)
  qed
qed

section \<open>Every request\<close>

text \<open>The operations of the earlier theories as sequences of lookups, statements and commands.\<close>

lemma url_create_steps:
  "url_create E cfg now i rng data owner =
    and_then (reading (create_read cfg rng data)) (\<lambda>sc.
    and_then (writing (create_write now i data owner sc)) (\<lambda>url.
    and_then (updating (\<lambda>r. ((), url_cache_set E cfg now sc (serialize url) None r))) (\<lambda>_.
    returning (Inr (to_response cfg url)))))"
  by (rule ext)
    (simp add: url_create_def create_read_def create_write_def and_then_def reading_def writing_def updating_def returning_def
      Let_def split: sum.split option.split list.split bool.split)

lemma drop_cached_steps:
  "updating (\<lambda>r. ((), drop_cached E url r)) =
    and_then (updating (\<lambda>r. ((), url_cache_delete E (short_code url) r))) (\<lambda>_.
    case custom_alias url of
      Some (ch # a) \<Rightarrow> updating (\<lambda>r. ((), url_cache_delete E (ch # a) r))
    | _ \<Rightarrow> returning (Inr ()))"
  by (rule ext) (simp add: drop_cached_def and_then_def updating_def returning_def Let_def split: option.split list.split)

lemma url_update_steps:
  "url_update E cfg now url_id data requester is_admin =
    and_then (reading (owned_read url_id requester is_admin)) (\<lambda>url.
    and_then (writing (url_repo_update (local_to_utc E) now url (dump_updates data))) (\<lambda>url'.
    and_then (updating (\<lambda>r. ((), drop_cached E url' r))) (\<lambda>_.
    returning (Inr (to_response cfg url')))))"
  by (rule ext)
    (simp add: url_update_def owned_read_def and_then_def reading_def writing_def updating_def returning_def Let_def
      split: sum.split option.split)

lemma url_delete_steps:
  "url_delete E url_id requester is_admin =
    and_then (reading (owned_read url_id requester is_admin)) (\<lambda>url.
    and_then (updating (\<lambda>r. ((), drop_cached E url r))) (\<lambda>_.
    writing (\<lambda>db. Inr ((), url_repo_delete url db))))"
  by (rule ext)
    (simp add: url_delete_def owned_read_def and_then_def reading_def writing_def updating_def Let_def
      split: sum.split option.split)

lemma get_summary_steps:
  "get_summary E cfg now c days =
    and_then (updating (\<lambda>r. (get_cached_summary E now c r, r))) (\<lambda>answer.
    and_then (returning answer) (\<lambda>hit.
    (case (case hit of Some v \<Rightarrow> if json_truthy v then Some v else None | None \<Rightarrow> None) of
       Some (JObj kvs) \<Rightarrow>
         returning (case summary_load E (JObj kvs) of None \<Rightarrow> Inl PyValueError | Some s \<Rightarrow> Inr s)
     | Some _ \<Rightarrow> returning (Inl PyTypeError)
     | None \<Rightarrow>
         and_then (reading (get_by_short_code c)) (\<lambda>found.
         (case found of
            None \<Rightarrow> returning (Inl (App (NotFoundError ''Short URL'')))
          | Some url \<Rightarrow>
              and_then (reading (\<lambda>db. Inr (compute_summary now c days url db))) (\<lambda>summary.
              and_then (updating (\<lambda>r. ((), set_cached_summary E cfg now c (summary_dump E summary) r))) (\<lambda>_.
              returning (Inr summary))))))))"
  by (rule ext)
    (simp add: get_summary_def and_then_def reading_def updating_def returning_def Let_def
      split: sum.split option.split json.split)

lemma get_or_generate_steps:
  "get_or_generate E cfg now c =
    and_then (updating (\<lambda>r. (qr_get E now c r, r))) (\<lambda>answer.
    and_then (returning answer) (\<lambda>cached.
    (case cached of
       Some png \<Rightarrow> returning (Inr png)
     | None \<Rightarrow>
         and_then (reading (get_by_short_code c)) (\<lambda>found.
         (case found of
            None \<Rightarrow> returning (Inl (App (NotFoundError ''Short URL'')))
          | Some url \<Rightarrow>
              (let png = render_png E (qr_target cfg url)
               in and_then (updating (\<lambda>r. ((), qr_put E cfg now c png r))) (\<lambda>_.
                  returning (Inr png))))))))"
  by (rule ext)
    (simp add: get_or_generate_def and_then_def reading_def updating_def returning_def Let_def split: sum.split option.split)

lemma abides_drop_cached [abiding]: "abides (drop_cached_call E url) (updating (\<lambda>r. ((), drop_cached E url r)))"
  unfolding drop_cached_steps drop_cached_call_def
  by (intro abides_then abiding) (auto split: option.split list.split intro: abiding)

lemma abides_services [abiding]:
  "abides (url_create_call E cfg now i rng data owner) (url_create E cfg now i rng data owner)"
  "abides (url_update_call E cfg now url_id udata requester is_admin) (url_update E cfg now url_id udata requester is_admin)"
  "abides (url_delete_call E url_id requester is_admin) (url_delete E url_id requester is_admin)"
  unfolding url_create_call_def url_create_steps url_update_call_def url_update_steps url_delete_call_def url_delete_steps
  by (intro abides_then abiding)+

lemma abides_summary [abiding]: "abides (get_summary_call E cfg now c days) (get_summary E cfg now c days)"
  unfolding get_summary_call_def get_summary_steps
  by (intro abides_then abiding) (auto split: option.split json.split intro!: abides_then abiding)

lemma abides_qr [abiding]: "abides (get_or_generate_call E cfg now c) (get_or_generate E cfg now c)"
  unfolding get_or_generate_call_def get_or_generate_steps Let_def
  by (intro abides_then abiding) (auto split: option.split intro!: abides_then abiding)

lemma abides_query [abiding]: "abides (query_range lo hi n) (query_range lo hi n)"
  unfolding query_range_def by (rule abiding)

lemma abides_users [abiding]:
  "abides (offline (current_user E cfg now cred)) (current_user E cfg now cred)"
  "abides (offline (optional_user E cfg now cred)) (optional_user E cfg now cred)"
  by (rule abides_offline; simp add: current_user_def optional_user_def)+

lemma abides_accounts [abiding]:
  "abides (offline (register E now i salt data)) (register E now i salt data)"
  "abides (offline (login E cfg now i ld ip agent)) (login E cfg now i ld ip agent)"
  by (rule abides_offline; simp add: auth_operations_frame [unfolded auth_frame_def])+

lemma abides_endpoints:
  "abides (create_url_call E cfg now lid i rng req cred cbody) (create_url E cfg now lid i rng req cred cbody)"
  "abides (update_url_call E cfg now cred url_id ubody) (update_url E cfg now cred url_id ubody)"
  "abides (delete_url_call E cfg now cred url_id) (delete_url E cfg now cred url_id)"
  "abides (register_user_call E now lid i salt req rbody) (register_user E now lid i salt req rbody)"
  "abides (login_user_call E cfg now lid i req lbody) (login_user E cfg now lid i req lbody)"
  "abides (analytics_summary_call E cfg now cred c days) (get_analytics_summary E cfg now cred c days)"
  "abides (qr_code_call E cfg now c) (get_qr_code E cfg now c)"
  unfolding create_url_call_def create_url_def update_url_call_def update_url_def delete_url_call_def delete_url_def
    register_user_call_def register_user_def login_user_call_def login_user_def analytics_summary_call_def
    get_analytics_summary_def qr_code_call_def get_qr_code_def
  by (intro abides_session abides_then abiding)+

text \<open>The endpoints that send nothing to Redis.\<close>

lemma session_redis: "(\<And>w. w_redis (snd (h w)) = w_redis w) \<Longrightarrow> w_redis (snd (with_session h w)) = w_redis w"
  by (cases rule: with_session_cases [of h w]) (metis snd_conv world.select_convs(2) world.surjective world.update_convs(1))+

lemma then_redis:
  "(\<And>w. w_redis (snd (h w)) = w_redis w) \<Longrightarrow> (\<And>v w. w_redis (snd (k v w)) = w_redis w) \<Longrightarrow>
   w_redis (snd (and_then h k w)) = w_redis w"
  by (auto simp: and_then_def split: prod.split sum.split) (metis snd_conv)+

lemma offline_redis:
  "w_redis (snd (list_urls E cfg now rank cred page_no sz w)) = w_redis w"
  "w_redis (snd (get_url E cfg now cred url_id w)) = w_redis w"
  "w_redis (snd (me E cfg now cred w)) = w_redis w"
  unfolding list_urls_def get_url_def me_def
  by (intro session_redis then_redis;
      simp add: current_user_def optional_user_def returning_def query_range_def list_by_owner_def url_get_by_id_def Let_def
        split: prod.split sum.split option.split)+

lemma session_redis_frame:
  "w_redis (snd (refresh_session E cfg now i raw w)) = w_redis w" "w_redis (snd (logout_session E now raw w)) = w_redis w"
  unfolding refresh_session_def logout_session_def
  by (intro session_redis; simp add: auth_operations_frame [unfolded auth_frame_def])+

lemmas abides_offline_endpoints =
  offline_redis [THEN abides_offline] session_redis_frame [THEN abides_offline]

lemmas same_offline_endpoints =
  offline_redis(1) [THEN offline_same(1)] offline_redis(2) [THEN offline_same(1)] offline_redis(3) [THEN offline_same(1)]
  session_redis_frame [THEN offline_same(1)]
  offline_redis(1) [THEN offline_same(2)] offline_redis(2) [THEN offline_same(2)] offline_redis(3) [THEN offline_same(2)]
  session_redis_frame [THEN offline_same(2)]

section \<open>Redirects\<close>

lemma abides_task: "abides (run_task_call E cfg now t) (updating (\<lambda>r. ((), run_task E cfg now t r)))"
  if "\<And>i ip agent refer. t \<noteq> EnqueueClick i ip agent refer"
proof (cases t)
  case (CacheSet c v)
  then show ?thesis by (simp add: abides_sending)
next
  case (TrackClick c)
  have "updating (\<lambda>r. ((), run_task E cfg now t r)) =
    and_then (and_then (updating (redis_incr E now (hot_key c))) (\<lambda>count.
      and_then (updating (\<lambda>r. ((), redis_expire E now (hot_key c) 3600 r))) (\<lambda>_.
      and_then
        (if count \<ge> HOT_URL_CLICK_THRESHOLD cfg
         then updating (\<lambda>r. ((), redis_expire E now (url_key c) (URL_CACHE_TTL cfg * 2) r)) else returning (Inr ())) (\<lambda>_.
      returning (Inr count))))) (\<lambda>_. returning (Inr ()))"
    by (rule ext) (simp add: TrackClick track_click_def and_then_def updating_def returning_def Let_def split: prod.split)
  then show ?thesis
    by (simp only: TrackClick run_task_call.simps track_click_call_def) (intro abides_then abiding)
qed (use that in blast)

text \<open>What the tasks do to the database (nothing), and what they do on a good connection.\<close>

lemma call_frame [simp]: "w_db (snd (call command w)) = w_db w" "plan (w_redis (snd (call command w))) = plan (w_redis w)"
  by (auto simp: call_def Let_def split: prod.split option.split failure.split)

lemma catching_frame [simp]: "w_db (snd (catching h w)) = w_db (snd (h w))"
    "plan (w_redis (snd (catching h w))) = plan (w_redis (snd (h w)))" "fst (catching h w) = Inr ()"
  by (simp_all add: catching_def)

lemma then_frame:
  assumes "w_db (snd (h w)) = w_db w \<and> plan (w_redis (snd (h w))) = plan (w_redis w)"
    and "\<And>v w. w_db (snd (k v w)) = w_db w \<and> plan (w_redis (snd (k v w))) = plan (w_redis w)"
  shows "w_db (snd (and_then h k w)) = w_db w \<and> plan (w_redis (snd (and_then h k w))) = plan (w_redis w)"
  using assms(1) assms(2) [of _ "snd (h w)"] by (cases "h w") (auto simp: and_then_def split: sum.split)

lemma tasks_frame:
  "w_db (snd (run_tasks_call E cfg now ts w)) = w_db w \<and> plan (w_redis (snd (run_tasks_call E cfg now ts w))) = plan (w_redis w)"
proof (induction ts arbitrary: w)
  case Nil
  then show ?case by (simp add: returning_def)
next
  case (Cons t ts)
  have "w_db (snd (run_task_call E cfg now t w)) = w_db w \<and> plan (w_redis (snd (run_task_call E cfg now t w))) = plan (w_redis w)"
    by (cases t) (simp_all add: sending_def track_click_call_def then_frame returning_def)
  then show ?case using Cons.IH by (simp add: then_frame)
qed

lemma healthy_abides:
  "abides h' h \<Longrightarrow> healthy w \<Longrightarrow> fst (h' w) = fst (h (plain w)) \<and> plain (snd (h' w)) = snd (h (plain w)) \<and> healthy (snd (h' w))"
  by (auto simp: abides_def healthy_def)

lemma healthy_task:
  assumes "healthy w"
  shows "fst (run_task_call E cfg now t w) = Inr ()"
    "plain (snd (run_task_call E cfg now t w)) = (plain w)\<lparr>w_redis := run_task E cfg now t (w_redis (plain w))\<rparr>"
    "healthy (snd (run_task_call E cfg now t w))"
proof -
  have "fst (run_task_call E cfg now t w) = Inr () \<and>
    plain (snd (run_task_call E cfg now t w)) = (plain w)\<lparr>w_redis := run_task E cfg now t (w_redis (plain w))\<rparr> \<and>
    healthy (snd (run_task_call E cfg now t w))"
  proof (cases "\<exists>i ip agent refer. t = EnqueueClick i ip agent refer")
    case True
    then show ?thesis
      using healthy_abides [OF abides_sending assms] by (auto simp: catching_def updating_def)
  next
    case False
    then show ?thesis using healthy_abides [OF abides_task assms, of t E cfg now] by (auto simp: updating_def)
  qed
  then show "fst (run_task_call E cfg now t w) = Inr ()"
    "plain (snd (run_task_call E cfg now t w)) = (plain w)\<lparr>w_redis := run_task E cfg now t (w_redis (plain w))\<rparr>"
    "healthy (snd (run_task_call E cfg now t w))" by blast+
qed

lemma healthy_tasks:
  "healthy w \<Longrightarrow> plain (snd (run_tasks_call E cfg now ts w)) = (plain w)\<lparr>w_redis := run_tasks E cfg now ts (w_redis (plain w))\<rparr>"
proof (induction ts arbitrary: w)
  case Nil
  then show ?case by (simp add: returning_def run_tasks_def)
next
  case (Cons t ts)
  note t = healthy_task [OF Cons.prems, of E cfg now t]
  then show ?case
    using Cons.IH [OF t(3)] by (cases "run_task_call E cfg now t w") (simp add: and_then_def run_tasks_def)
qed

lemma querying_cases:
  obtains w' where "querying f w = (Inr (f (keys (server (w_redis w)))), w')" "plain w' = plain w" "plan (w_redis w') = plan (w_redis w)"
  | w' where "querying f w = (Inl RedisConnectionError, w')" "plain w' = plain w" "\<not> healthy w"
proof (cases "plan (w_redis w) (sent (w_redis w))")
  case None
  then show ?thesis
    by (intro that(1) [of "snd (querying f w)"]) (simp_all add: querying_def call_simps on_keys_def plain_def)
next
  case (Some x)
  then have "querying f w = (Inl RedisConnectionError, snd (querying f w))" "plain (snd (querying f w)) = plain w"
    by (cases x; simp add: querying_def call_simps on_keys_def plain_def)+
  moreover have "\<not> healthy w" using Some by (metis healthy_def option.distinct(1))
  ultimately show ?thesis using that(2) by blast
qed

lemma redirect_call_cases:
  obtains "fst (redirect_call E cfg now req c w) = fst (redirect E cfg now req c (plain w))"
    "w_db (snd (redirect_call E cfg now req c w)) = w_db w"
    "healthy w \<longrightarrow> plain (snd (redirect_call E cfg now req c w)) = snd (redirect E cfg now req c (plain w))"
  | "fst (redirect_call E cfg now req c w) = Inl RedisConnectionError"
    "plain (snd (redirect_call E cfg now req c w)) = plain w" "\<not> healthy w"
proof (cases "c \<in> set reserved_paths")
  case True
  then show ?thesis by (intro that(1)) (simp_all add: redirect_call_def redirect_def returning_def)
next
  case False
  show ?thesis
  proof (cases rule: querying_cases [of "url_cache_get E now c" w])
    case (1 w')
    have db: "w_db w' = w_db w" using arg_cong [OF 1(2), of w_db] by simp
    have health: "healthy w \<longleftrightarrow> healthy w'" using 1(3) by (simp add: healthy_def)
    show ?thesis
      using 1(1) False db tasks_frame [of E cfg now _ w'] healthy_tasks [of w' E cfg now] 1(2) health
      by (intro that(1))
        (auto simp: redirect_call_def redirect_def resolve_def and_then_def returning_def reading_def catching_def
          split: sum.splits prod.splits)
  next
    case (2 w')
    then show ?thesis using False by (intro that(2)) (simp_all add: redirect_call_def and_then_def)
  qed
qed

section \<open>The answer under failures\<close>

text \<open>A handler that undoes its statements when it raises.\<close>

definition undone :: "('r, 'a) handler \<Rightarrow> bool" where
  "undone h \<longleftrightarrow> (\<forall>w e. fst (h w) = Inl e \<longrightarrow> w_db (snd (h w)) = w_db w)"

lemma undone_session: "undone (with_session h)"
  unfolding undone_def
proof (intro allI impI)
  fix w e
  show "fst (with_session h w) = Inl e \<Longrightarrow> w_db (snd (with_session h w)) = w_db w"
    by (cases rule: with_session_cases [of h w]) auto
qed

lemma undone_offline: "undone h \<Longrightarrow> undone (offline h)"
  unfolding undone_def offline_def by (auto split: prod.split) (metis fst_conv offline_simps(1) snd_conv)

lemma undone_endpoints:
  "undone (create_url_call E cfg now lid i rng req cred cbody)" "undone (update_url_call E cfg now cred url_id ubody)"
  "undone (delete_url_call E cfg now cred url_id)" "undone (register_user_call E now lid i salt req rbody)"
  "undone (login_user_call E cfg now lid i req lbody)" "undone (analytics_summary_call E cfg now cred c days)"
  "undone (qr_code_call E cfg now c)" "undone (offline (list_urls E cfg now rank cred page_no sz))"
  "undone (offline (get_url E cfg now cred url_id))" "undone (offline (me E cfg now cred))"
  "undone (offline (refresh_session E cfg now i raw))" "undone (offline (logout_session E now raw))"
  unfolding create_url_call_def update_url_call_def delete_url_call_def register_user_call_def login_user_call_def
    analytics_summary_call_def qr_code_call_def list_urls_def get_url_def me_def refresh_session_def logout_session_def
  by (intro undone_offline undone_session)+

lemma respond_abides:
  assumes "abides h' h" "undone h'"
  shows "(fst (respond ok (h' w)) = fst (respond ok (h (plain w))) \<and> plain (snd (respond ok (h' w))) = snd (respond ok (h (plain w)))) \<or>
    (fst (respond ok (h' w)) = 500 \<and> \<not> healthy w \<and> w_db (snd (respond ok (h' w))) = w_db w)"
  using assms(2) by (cases rule: abidesD [OF assms(1), of w]) (simp_all add: respond_def http_status_def undone_def)

lemma request_abides:
  assumes "\<And>req sc. c \<noteq> Follow req sc"
  shows "(fst (serve_call E cfg now c w) = fst (serve E cfg now c (plain w)) \<and>
      plain (snd (serve_call E cfg now c w)) = snd (serve E cfg now c (plain w))) \<or>
    (fst (serve_call E cfg now c w) = 500 \<and> \<not> healthy w \<and> w_db (snd (serve_call E cfg now c w)) = w_db w)"
  using assms
  by (cases c; simp only: serve_call.simps serve.simps)
    ((rule respond_abides; rule abides_endpoints abides_offline_endpoints undone_endpoints) | simp)+

section \<open>An outage\<close>

definition outage :: "'r connection world \<Rightarrow> bool" where
  "outage w \<longleftrightarrow> (\<forall>n. plan (w_redis w) n = Some Unsent)"

fun needs_redis :: "api_call \<Rightarrow> bool" where
  "needs_redis (CreateUrl lid i rng req cred body) = True"
| "needs_redis (UpdateUrl cred url_id body) = True"
| "needs_redis (DeleteUrl cred url_id) = True"
| "needs_redis (RegisterUser lid i salt req body) = True"
| "needs_redis (LoginUser lid i req body) = True"
| "needs_redis (AnalyticsSummary cred c days) = True"
| "needs_redis (QrCode c) = True"
| "needs_redis (Follow req c) = True"
| "needs_redis _ = False"

text \<open>During an outage \<open>h\<close> raises an exception that is answered with an error, and the server does not notice.\<close>

definition refusal :: "exn \<Rightarrow> bool" where
  "refusal e \<longleftrightarrow> 400 \<le> fst (handle_exception e)"

definition stuck :: "('r connection, 'a) handler \<Rightarrow> bool" where
  "stuck h \<longleftrightarrow> (\<forall>w. outage w \<longrightarrow> server (w_redis (snd (h w))) = server (w_redis w) \<and> (\<exists>e. fst (h w) = Inl e \<and> refusal e))"

text \<open>A step before the first command: it may raise, and goes on otherwise.\<close>

definition quietly :: "('r connection, 'a) handler \<Rightarrow> bool" where
  "quietly h \<longleftrightarrow> (\<forall>w. w_redis (snd (h w)) = w_redis w \<and> (\<forall>e. fst (h w) = Inl e \<longrightarrow> refusal e))"

named_theorems outages

lemma refusal_simps [simp]:
  "refusal (App e)" "refusal RequestValidationError" "refusal IntegrityError" "refusal DataError" "refusal MultipleResultsFound"
  "refusal StaleDataError" "refusal InvalidRequestError" "refusal RedisConnectionError" "refusal NoScriptError"
  "refusal PyTypeError" "refusal PyValueError" "refusal PyKeyError" "refusal PyAttributeError"
  by (cases e; simp add: refusal_def)+

lemma stuck_call [outages]: "stuck (call command)" "stuck (querying f)" "stuck (sending g)"
  by (simp_all add: stuck_def querying_def sending_def outage_def call_simps)

lemma stuck_then [outages]: "stuck h \<Longrightarrow> stuck (and_then h k)"
  unfolding stuck_def and_then_def by (fastforce split: prod.split sum.split)

lemma quietly_then:
  assumes "quietly h" "\<And>v. stuck (k v)"
  shows "stuck (and_then h k)"
  unfolding stuck_def
proof (intro allI impI)
  fix w :: "'a connection world"
  assume "outage w"
  note h = assms(1) [unfolded quietly_def, rule_format, of w]
  show "server (w_redis (snd (and_then h k w))) = server (w_redis w) \<and> (\<exists>e. fst (and_then h k w) = Inl e \<and> refusal e)"
  proof (cases "fst (h w)")
    case (Inl e)
    then show ?thesis using h by (auto simp: and_then_def split: prod.splits)
  next
    case (Inr v)
    moreover have "outage (snd (h w))" using h \<open>outage w\<close> by (simp add: outage_def)
    ultimately show ?thesis
      using assms(2) [of v, unfolded stuck_def, rule_format, of "snd (h w)"] h by (auto simp: and_then_def split: prod.splits)
  qed
qed

lemma stuck_session [outages]: "stuck h \<Longrightarrow> stuck (with_session h)" for h :: "('a connection, 'b) handler"
  unfolding stuck_def
proof (intro allI impI)
  fix w :: "'a connection world"
  assume "\<forall>w. outage w \<longrightarrow> server (w_redis (snd (h w))) = server (w_redis w) \<and> (\<exists>e. fst (h w) = Inl e \<and> refusal e)" "outage w"
  then show "server (w_redis (snd (with_session h w))) = server (w_redis w) \<and> (\<exists>e. fst (with_session h w) = Inl e \<and> refusal e)"
    by (cases "h w") (auto simp: with_session_def)
qed

lemma stuck_guard [outages]: "stuck (rate_guard_call E now lid ident n window ep m)"
  by (simp add: stuck_def rate_guard_call_def limiter_is_allowed_def get_sha_def get_rate_limiter_def and_then_def outage_def call_simps)

lemma quietly_returning: "(\<And>e. v = Inl e \<Longrightarrow> refusal e) \<Longrightarrow> quietly (returning v)"
  by (auto simp: quietly_def returning_def)

lemma quietly_reading: "(\<And>db e. f db = Inl e \<Longrightarrow> refusal e) \<Longrightarrow> quietly (reading f)"
  by (auto simp: quietly_def reading_def)

lemma quietly_writing: "(\<And>db e. f db = Inl e \<Longrightarrow> refusal e) \<Longrightarrow> quietly (writing f)"
  by (auto simp: quietly_def writing_def split: sum.split)

lemma validation_refusals:
  "validate_url_create hu now cbody = Inl e \<Longrightarrow> refusal e" "validate_url_update ubody = Inl e \<Longrightarrow> refusal e"
  "validate_register es rbody = Inl e \<Longrightarrow> refusal e" "validate_login es lbody = Inl e \<Longrightarrow> refusal e"
  by (auto simp: validate_url_create_def expiry_must_be_future_def validate_url_update_def validate_register_def validate_login_def
      split: sum.splits option.splits if_splits py_datetime.splits)

lemma query_refusals: "scalar_one_or_none rows = Inl e \<Longrightarrow> refusal e" "try_codes cfg rng db is = Inl e \<Longrightarrow> refusal e"
proof -
  have one: "scalar_one_or_none rows = Inl e \<Longrightarrow> refusal e" for rows :: "'z list" and e
    by (cases "the_one rows") (auto simp: scalar_one_or_none_def)
  show "scalar_one_or_none rows = Inl e \<Longrightarrow> refusal e" by (rule one)
  show "try_codes cfg rng db is = Inl e \<Longrightarrow> refusal e"
    by (induction "is") (auto simp: Let_def short_code_exists_def split: sum.splits if_splits intro: one)
qed

lemma service_refusals:
  "get_current_user E cfg now cred db = Inl e \<Longrightarrow> refusal e" "create_read cfg rng data db = Inl e \<Longrightarrow> refusal e"
  "create_write now i data owner sc db = Inl e \<Longrightarrow> refusal e" "owned_read url_id requester is_admin db = Inl e \<Longrightarrow> refusal e"
  "url_repo_update to_utc now url attrs db = Inl e \<Longrightarrow> refusal e"
  by (auto simp: get_current_user_def create_read_def generate_unique_code_def short_code_exists_def create_write_def create_with_def
      insert_short_url_def owned_read_def get_by_id_def url_repo_update_def Let_def auth_error_def
      split: sum.splits option.splits if_splits list.splits bool.splits intro: query_refusals)

lemma quietly_users: "quietly (offline (current_user E cfg now cred))" "quietly (offline (optional_user E cfg now cred))"
  by (auto simp: quietly_def offline_def current_user_def optional_user_def intro: service_refusals)

lemmas quiet_steps = quietly_users
  quietly_returning [OF validation_refusals(1)] quietly_returning [OF validation_refusals(2)]
  quietly_returning [OF validation_refusals(3)] quietly_returning [OF validation_refusals(4)]
  quietly_reading [OF service_refusals(2)] quietly_reading [OF service_refusals(4)]
  quietly_writing [OF service_refusals(3)] quietly_writing [OF service_refusals(5)]

lemma quietly_query: "quietly (query_range lo hi n)"
  unfolding query_range_def by (rule quietly_returning) (auto split: if_splits)

lemma stuck_endpoints:
  "stuck (create_url_call E cfg now lid i rng req cred cbody)" "stuck (update_url_call E cfg now cred url_id ubody)"
  "stuck (delete_url_call E cfg now cred url_id)" "stuck (register_user_call E now lid i salt req rbody)"
  "stuck (login_user_call E cfg now lid i req lbody)" "stuck (analytics_summary_call E cfg now cred c days)"
  "stuck (qr_code_call E cfg now c)" "c \<notin> set reserved_paths \<Longrightarrow> stuck (redirect_call E cfg now req c)"
  unfolding create_url_call_def update_url_call_def delete_url_call_def register_user_call_def login_user_call_def
    analytics_summary_call_def qr_code_call_def get_summary_call_def get_or_generate_call_def url_update_call_def
    url_delete_call_def drop_cached_call_def redirect_call_def if_False
  by (simp_all add: outages quietly_then quiet_steps quietly_query)

definition connect :: "(nat \<Rightarrow> failure option) \<Rightarrow> pystr list \<Rightarrow> 'r world \<Rightarrow> 'r connection world" where
  "connect failures loaded w =
     \<lparr>w_db = w_db w, w_redis = \<lparr>server = \<lparr>keys = w_redis w, scripts = loaded\<rparr>, plan = failures, sent = 0\<rparr>\<rparr>"

lemma connect_simps [simp]: "plain (connect failures loaded w) = w" "w_db (connect failures loaded w) = w_db w"
  "plan (w_redis (connect failures loaded w)) = failures"
  by (simp_all add: connect_def plain_def)

text \<open>A request in an outage that needs Redis.\<close>

lemma stuck_respond:
  assumes "stuck h" "undone h" "outage w"
  shows "plain (snd (respond ok (h w))) = plain w" "400 \<le> fst (respond ok (h w))"
  using assms by (auto simp: stuck_def undone_def respond_def http_status_def refusal_def plain_def)

section \<open>Properties\<close>

text \<open>
  C7. Whatever happens to the commands of a request, it is answered and changes the database as on a good connection,
  or it is answered 500 and changes nothing there; on a good connection, and for every request but a redirect, the
  keys of Redis are then also as before.
\<close>

theorem redis_failure_all_or_nothing:
  assumes "serve_call E cfg now c w = (st, w')" "serve E cfg now c (plain w) = (st0, w0)"
  shows "st = st0 \<and> w_db w' = w_db w0 \<and> (plain w' = w0 \<or> \<not> healthy w \<and> (\<exists>req sc. c = Follow req sc)) \<or>
    st = 500 \<and> \<not> healthy w \<and> w_db w' = w_db w"
proof (cases "\<exists>req sc. c = Follow req sc")
  case False
  then show ?thesis using request_abides [of c E cfg now w] assms by (auto dest: arg_cong [of _ _ w_db])
next
  case True
  then obtain req sc where c: "c = Follow req sc" by blast
  show ?thesis
    using assms redirect_db [of E cfg now req sc "plain w"]
    by (cases rule: redirect_call_cases [of E cfg now req sc w])
      (auto simp: c respond_def http_status_def dest: arg_cong [of _ _ w_db])
qed

theorem redis_failure_all_or_nothing_witness:
  "w_db (snd (serve_call sample_env default_settings 5 (Follow sample_request ''my-link'')
     (connect (\<lambda>n. if n = 1 then Some Unanswered else None) [] sample_world))) = sample_db"
  using redis_failure_all_or_nothing [where E = sample_env and cfg = default_settings and now = 5 and
      c = "Follow sample_request ''my-link''" and w = "connect (\<lambda>n. if n = 1 then Some Unanswered else None) [] sample_world",
      OF prod.collapse [symmetric] prod.collapse [symmetric]]
    redirect_db [of sample_env default_settings 5 sample_request "''my-link''" sample_world]
  by (auto simp: respond_def sample_world_def)



end
