(* ===== verification/Failures.thy ===== *)
theory Failures
  imports Outages
begin

text \<open>
  The service over an unreliable connection: requests, worker iterations and the stop of the worker with any failures
  of their commands.  The stronger invariant survives as long as no command is executed without an answer; the weaker
  one, in which a cached payload is some row with a safe target, survives everything.
\<close>

section \<open>Commands that keep an invariant\<close>

text \<open>
  \<open>harmless Q I db h\<close>: under a plan in \<open>Q\<close> the commands of \<open>h\<close> keep an invariant of the keys and the committed
  database \<open>db\<close>.  \<open>recoverable\<close> asks this only of an \<open>h\<close> that raises.
\<close>

definition harmless ::
  "((nat \<Rightarrow> failure option) \<Rightarrow> bool) \<Rightarrow> ('r world \<Rightarrow> bool) \<Rightarrow> database \<Rightarrow> ('r connection, 'a) handler \<Rightarrow> bool"
where
  "harmless Q I db h \<longleftrightarrow> (\<forall>w. plan (w_redis (snd (h w))) = plan (w_redis w) \<and>
     (Q (plan (w_redis w)) \<longrightarrow> I ((plain w)\<lparr>w_db := db\<rparr>) \<longrightarrow> I ((plain (snd (h w)))\<lparr>w_db := db\<rparr>)))"

definition recoverable ::
  "((nat \<Rightarrow> failure option) \<Rightarrow> bool) \<Rightarrow> ('r world \<Rightarrow> bool) \<Rightarrow> database \<Rightarrow> ('r connection, 'a) handler \<Rightarrow> bool"
where
  "recoverable Q I db h \<longleftrightarrow> (\<forall>w e. fst (h w) = Inl e \<longrightarrow>
     Q (plan (w_redis w)) \<longrightarrow> I ((plain w)\<lparr>w_db := db\<rparr>) \<longrightarrow> I ((plain (snd (h w)))\<lparr>w_db := db\<rparr>))"

named_theorems harmless_steps

lemma harmless_recoverable: "harmless Q I db h \<Longrightarrow> recoverable Q I db h"
  by (simp add: harmless_def recoverable_def)

lemma harmless_same:
  assumes "\<And>w. w_redis (snd (h w)) = w_redis w"
  shows "harmless Q I db h"
  using assms by (simp add: harmless_def plain_def)

lemma harmless_quiet [harmless_steps]:
  "harmless Q I db (returning v)" "harmless Q I db (reading f)" "harmless Q I db (writing g)"
  by (rule harmless_same; simp add: returning_def reading_def writing_def split: sum.split prod.split)+

lemma harmless_offline [harmless_steps]: "harmless Q I db (offline h)"
  by (rule harmless_same) (simp add: offline_def split: prod.split)

lemma harmless_query [harmless_steps]: "harmless Q I db (query_range lo hi n)"
  unfolding query_range_def by (rule harmless_quiet)

lemma harmless_then:
  assumes "harmless Q I db h" "\<And>v w w'. h w = (Inr v, w') \<Longrightarrow> harmless Q I db (k v)"
  shows "harmless Q I db (and_then h k)"
  unfolding harmless_def
proof (rule allI)
  fix w
  obtain res w' where h: "h w = (res, w')" by fastforce
  show "plan (w_redis (snd (and_then h k w))) = plan (w_redis w) \<and>
     (Q (plan (w_redis w)) \<longrightarrow> I ((plain w)\<lparr>w_db := db\<rparr>) \<longrightarrow> I ((plain (snd (and_then h k w)))\<lparr>w_db := db\<rparr>))"
    using assms(1) [unfolded harmless_def, rule_format, of w] assms(2) [of w _ w', unfolded harmless_def, rule_format, of _ w'] h
    by (cases res) (auto simp: and_then_def)
qed

lemma recoverable_then:
  assumes "harmless Q I db h" "\<And>v w w'. h w = (Inr v, w') \<Longrightarrow> recoverable Q I db (k v)"
  shows "recoverable Q I db (and_then h k)"
  unfolding recoverable_def
proof (intro allI impI)
  fix w e
  assume e: "fst (and_then h k w) = Inl e" "Q (plan (w_redis w))" "I ((plain w)\<lparr>w_db := db\<rparr>)"
  obtain res w' where h: "h w = (res, w')" by fastforce
  show "I ((plain (snd (and_then h k w)))\<lparr>w_db := db\<rparr>)"
    using assms(1) [unfolded harmless_def, rule_format, of w] assms(2) [of w _ w', unfolded recoverable_def, rule_format, of _ w'] h e
    by (cases res) (auto simp: and_then_def)
qed

text \<open>A last command: it may do what it likes when it is answered.\<close>

lemma recoverable_last:
  assumes "recoverable Q I db h" "\<And>v w. \<exists>r. fst (k v w) = Inr r"
  shows "recoverable Q I db (and_then h k)"
  unfolding recoverable_def
proof (intro allI impI)
  fix w e
  assume e: "fst (and_then h k w) = Inl e" "Q (plan (w_redis w))" "I ((plain w)\<lparr>w_db := db\<rparr>)"
  obtain res w' where h: "h w = (res, w')" by fastforce
  show "I ((plain (snd (and_then h k w)))\<lparr>w_db := db\<rparr>)"
  proof (cases res)
    case (Inl x)
    then show ?thesis using assms(1) [unfolded recoverable_def, rule_format, of w] h e by (simp add: and_then_def)
  next
    case (Inr v)
    then have "and_then h k w = k v w'" by (simp add: and_then_def h)
    then show ?thesis using e(1) assms(2) [of v w'] by auto
  qed
qed

lemma call_keys_cases:
  "plain (snd (call (on_keys f) w)) = plain w \<or> plain (snd (call (on_keys f) w)) = (plain w)\<lparr>w_redis := snd (f (w_redis (plain w)))\<rparr>"
  by (auto simp: call_def on_keys_def plain_def Let_def split: prod.split option.split failure.split)

lemma harmless_call:
  assumes "\<And>r. I \<lparr>w_db = db, w_redis = r\<rparr> \<Longrightarrow> I \<lparr>w_db = db, w_redis = snd (f r)\<rparr>"
  shows "harmless Q I db (call (on_keys f))"
  unfolding harmless_def
proof (intro allI conjI impI)
  fix w assume "I ((plain w)\<lparr>w_db := db\<rparr>)"
  then show "I ((plain (snd (call (on_keys f) w)))\<lparr>w_db := db\<rparr>)"
    using call_keys_cases [of f w] assms [of "w_redis (plain w)"] by (auto simp: plain_def)
qed simp

lemma harmless_querying [harmless_steps]: "harmless Q I db (querying f)"
  unfolding querying_def by (rule harmless_call) simp

lemma harmless_sending:
  "(\<And>r. I \<lparr>w_db = db, w_redis = r\<rparr> \<Longrightarrow> I \<lparr>w_db = db, w_redis = f r\<rparr>) \<Longrightarrow> harmless Q I db (sending f)"
  unfolding sending_def by (rule harmless_call) simp

lemma harmless_catching: "harmless Q I db h \<Longrightarrow> harmless Q I db (catching h)"
  by (simp add: harmless_def catching_def)

lemma harmless_session:
  assumes "recoverable Q I (w_db w) h" "Q (plan (w_redis w))" "I (plain w)" "fst (with_session h w) = Inl e"
  shows "I (plain (snd (with_session h w)))"
proof (cases rule: with_session_cases [of h w])
  case (2 e' w')
  have same: "(plain w)\<lparr>w_db := w_db w\<rparr> = plain w" by (simp add: plain_def)
  show ?thesis using assms(1) [unfolded recoverable_def, rule_format, of w e'] assms(2,3) 2 by (simp add: same)
qed (use assms(4) in simp)

section \<open>The commands of the service\<close>

text \<open>The plans that a promise about the cache survives.\<close>

definition answered :: "(nat \<Rightarrow> failure option) \<Rightarrow> bool" where
  "answered p \<longleftrightarrow> (\<forall>n. p n \<noteq> Some Unanswered)"

definition tolerates :: "(database \<Rightarrow> pystr \<Rightarrow> json \<Rightarrow> bool) \<Rightarrow> (nat \<Rightarrow> failure option) \<Rightarrow> bool" where
  "tolerates promise p \<longleftrightarrow> answered p \<or> (\<forall>db c v. row_payload v \<longrightarrow> promise db c v)"

lemma unsent_recoverable:
  assumes "\<And>p. Q p \<Longrightarrow> answered p"
  shows "recoverable Q I db (sending f)"
  unfolding recoverable_def
proof (intro allI impI)
  fix w e assume w: "fst (sending f w) = Inl e" "Q (plan (w_redis w))" "I ((plain w)\<lparr>w_db := db\<rparr>)"
  then have "plan (w_redis w) (sent (w_redis w)) \<noteq> Some Unanswered" using assms by (auto simp: answered_def)
  then have "plain (snd (sending f w)) = plain w"
    using w(1) by (auto simp: sending_def call_def on_keys_def plain_def Let_def split: option.splits failure.splits)
  then show "I ((plain (snd (sending f w)))\<lparr>w_db := db\<rparr>)" using w(3) by simp
qed

context cached_services
begin

lemma inv_urls:
  assumes "service_ok_with promise E look now \<lparr>w_db = db, w_redis = r\<rparr>" "same_look look (- url_keys) now r r'"
    and "holds (url_cache_get E) (promise db) now r'"
  shows "service_ok_with promise E look now \<lparr>w_db = db, w_redis = r'\<rparr>"
  by (rule service_ok_links [OF assms(1)])
    (use assms(2,3) service_okD [OF assms(1)] in \<open>simp_all add: world_ok_with_def\<close>)

lemma inv_cache: "service_ok_with promise E look now \<lparr>w_db = db, w_redis = r\<rparr> \<Longrightarrow> holds (url_cache_get E) (promise db) now r"
  using service_okD(1) by (fastforce simp: world_ok_with_def)

lemma inv_set:
  assumes "service_ok_with promise E look now \<lparr>w_db = db, w_redis = r\<rparr>" "promise db c (serialize s)"
  shows "service_ok_with promise E look now \<lparr>w_db = db, w_redis = url_cache_set E cfg now c (serialize s) None r\<rparr>"
  by (rule inv_urls [OF assms(1) same_url_set], rule url_cache.holds_put [OF inv_cache [OF assms(1)]])
    (use assms(2) in simp_all)

lemma inv_delete:
  assumes "service_ok_with promise E look now \<lparr>w_db = db, w_redis = r\<rparr>"
  shows "service_ok_with promise E look now \<lparr>w_db = db, w_redis = url_cache_delete E c r\<rparr>"
proof (rule inv_urls [OF assms same_url_delete])
  show "holds (url_cache_get E) (promise db) now (url_cache_delete E c r)"
    using inv_cache [OF assms] url_cache.get_drop [of now _ c r] unfolding holds_def by metis
qed

text \<open>A command after which the keys of links have at least the content they had.\<close>

lemma inv_same_urls:
  assumes "service_ok_with promise E look now \<lparr>w_db = db, w_redis = r\<rparr>" "same_look look (- url_keys) now r r'"
    and "\<And>c. look r' now (url_key c) = look r now (url_key c)"
  shows "service_ok_with promise E look now \<lparr>w_db = db, w_redis = r'\<rparr>"
proof (rule inv_urls [OF assms(1,2)])
  have "url_cache_get E now c r' = url_cache_get E now c r" for c by (rule url_get_cong) (rule assms(3))
  then show "holds (url_cache_get E) (promise db) now r'" using inv_cache [OF assms(1)] by (simp add: holds_def)
qed

lemma inv_hot:
  assumes "service_ok_with promise E look now \<lparr>w_db = db, w_redis = r\<rparr>"
  shows "service_ok_with promise E look now \<lparr>w_db = db, w_redis = snd (redis_incr E now (hot_key c) r)\<rparr>"
    "service_ok_with promise E look now \<lparr>w_db = db, w_redis = redis_expire E now (hot_key c) 3600 r\<rparr>"
    "service_ok_with promise E look now \<lparr>w_db = db, w_redis = redis_expire E now (url_key c) (URL_CACHE_TTL cfg * 2) r\<rparr>"
proof -
  have keys: "hot_key c \<in> url_keys" "url_key c \<in> url_keys" "url_key d \<noteq> hot_key c" for d by auto
  have ttl: "now < now + timedelta_seconds (URL_CACHE_TTL cfg * 2)" using ttl_positive by (simp add: timedelta_seconds_def usec_def)
  show "service_ok_with promise E look now \<lparr>w_db = db, w_redis = snd (redis_incr E now (hot_key c) r)\<rparr>"
    by (rule inv_same_urls [OF assms]) (use keys in \<open>auto simp: same_look_def intro!: look_incr_other\<close>)
  show "service_ok_with promise E look now \<lparr>w_db = db, w_redis = redis_expire E now (hot_key c) 3600 r\<rparr>"
    by (rule inv_same_urls [OF assms]) (use keys in \<open>auto simp: same_look_def look_expire\<close>)
  show "service_ok_with promise E look now \<lparr>w_db = db, w_redis = redis_expire E now (url_key c) (URL_CACHE_TTL cfg * 2) r\<rparr>"
    by (rule inv_same_urls [OF assms]) (use keys ttl in \<open>auto simp: same_look_def look_expire\<close>)
qed

text \<open>The pieces of the endpoints.\<close>

lemma inv_enqueue:
  assumes "service_ok_with promise E look now \<lparr>w_db = db, w_redis = r\<rparr>" "0 \<le> now" "now < max_instant"
  shows "service_ok_with promise E look now \<lparr>w_db = db, w_redis = enqueue_click E now i ip agent refer r\<rparr>"
proof -
  note ok = service_okD [OF assms(1)]
  let ?e = "clicked_event E now i ip agent refer"
  obtain es where "events_queued r now es" "list_all (good_event E) es" using ok(6) by (auto simp: queue_ok_def)
  moreover have "good_event E ?e" unfolding good_event_def using assms(2,3) by blast
  ultimately have "queue_ok E look now (push_event E now ?e r)"
    unfolding queue_ok_def
    by (intro exI [of _ "es @ [?e]"] conjI queue.queued_push) (auto simp: clicked_event_def)
  moreover have "range summary_key \<subseteq> - {queue_key}" "range qr_key \<subseteq> - {queue_key}" by auto
  ultimately show ?thesis
    using ok(1,4,5,7,8,9) summaries_same [OF same_push] images_same [OF same_push] holds_push
    by (simp add: service_ok_with_def world_ok_with_def enqueue_click_push)
qed

lemma harmless_guard [harmless_steps]:
  "harmless Q (service_ok_with promise E look now) db (rate_guard_call E now lid ident n window ep m)"
proof -
  let ?f = "sliding_window_script E (rate_key ident ep) now (now - timedelta_seconds window) n window (str_uuid lid)"
  have limited: "service_ok_with promise E look now \<lparr>w_db = db, w_redis = snd (?f r)\<rparr>"
    if "service_ok_with promise E look now \<lparr>w_db = db, w_redis = r\<rparr>" for r
    using service_ok_limiter [OF that, of "snd (is_allowed E now lid ident n window ep r)"] same_limiter
    by (simp add: is_allowed_def Let_def split: prod.splits)
  let ?k = "\<lambda>result. returning (if fst result = 0 then Inl (App (RateLimitError m)) else Inr ())"
  have called: "harmless Q (service_ok_with promise E look now) db (and_then (call (on_keys ?f)) ?k)"
    by (intro harmless_then harmless_call harmless_quiet limited)
  show ?thesis
    unfolding harmless_def
  proof (rule allI)
    fix w
    show "plan (w_redis (snd (rate_guard_call E now lid ident n window ep m w))) = plan (w_redis w) \<and>
      (Q (plan (w_redis w)) \<longrightarrow> service_ok_with promise E look now ((plain w)\<lparr>w_db := db\<rparr>) \<longrightarrow>
        service_ok_with promise E look now ((plain (snd (rate_guard_call E now lid ident n window ep m w)))\<lparr>w_db := db\<rparr>))"
    proof (cases rule: get_sha_new [of E w])
      case (1 w' sha rl)
      then show ?thesis
        using called [unfolded harmless_def, rule_format, of w'] rate_guard_call_loaded [OF 1(1,2), of now lid ident n window ep m]
        by simp
    next
      case (2 w')
      then show ?thesis by (simp add: rate_guard_call_def limiter_is_allowed_def and_then_def)
    qed
  qed
qed

lemma harmless_drop [harmless_steps]: "harmless Q (service_ok_with promise E look now) db (drop_cached_call E url)"
  unfolding drop_cached_call_def
  by (intro harmless_then harmless_sending inv_delete)
    (auto split: option.split list.split intro!: harmless_sending harmless_quiet inv_delete)

lemma recoverable_create:
  assumes "\<And>p. Q p \<Longrightarrow> tolerates promise p" "valid_create data"
  shows "recoverable Q (service_ok_with promise E look now) db (url_create_call E cfg now i rng data owner)"
  unfolding url_create_call_def
proof (rule recoverable_then [OF harmless_quiet(2)], rule recoverable_then [OF harmless_quiet(3)], rule recoverable_last)
  fix sc url and u u' v v' :: "'r connection world"
  assume "reading (create_read cfg rng data) u = (Inr sc, u')" "writing (create_write now i data owner sc) v = (Inr url, v')"
  then have url: "original_url url = c_original_url data" "expires_at url = c_expires_at data" "is_safe_url (c_original_url data)"
    by (auto simp: reading_def writing_def create_read_def create_write_def create_with_Inr new_short_url_def split: if_splits sum.splits)
  then have payload: "row_payload (serialize url)"
    using assms(2) by (auto simp: row_payload_def valid_create_def)
  show "recoverable Q (service_ok_with promise E look now) db (sending (url_cache_set E cfg now sc (serialize url) None))"
  proof (cases "\<forall>db c v. row_payload v \<longrightarrow> promise db c v")
    case True
    then show ?thesis using payload by (intro harmless_recoverable harmless_sending inv_set) auto
  next
    case False
    then show ?thesis using assms(1) by (intro unsent_recoverable) (auto simp: tolerates_def)
  qed
qed (simp add: returning_def)

lemma recoverable_update:
  "recoverable Q (service_ok_with promise E look now) db (url_update_call E cfg now url_id udata requester is_admin)"
  "recoverable Q (service_ok_with promise E look now) db (url_delete_call E url_id requester is_admin)"
  unfolding url_update_call_def url_delete_call_def
  by (intro harmless_recoverable harmless_then harmless_steps)+

text \<open>Images, and the cached row of a link that is looked up.\<close>

lemma harmless_image: "service_ok_with promise E look now \<lparr>w_db = db, w_redis = r\<rparr> \<Longrightarrow> png \<noteq> [] \<Longrightarrow>
    service_ok_with promise E look now \<lparr>w_db = db, w_redis = qr_put E cfg now c png r\<rparr>"
proof -
  assume inv: "service_ok_with promise E look now \<lparr>w_db = db, w_redis = r\<rparr>" and "png \<noteq> []"
  note ok = service_okD [OF inv]
  have "holds (qr_get E) (\<lambda>_ _. True) now (qr_put E cfg now c png r)"
    by (rule images.holds_put) (use ok(8) \<open>png \<noteq> []\<close> in simp_all)
  moreover note same_qr_put [of now r c png]
  moreover have "range url_key \<subseteq> - range qr_key" "range summary_key \<subseteq> - range qr_key" "queue_key \<in> - range qr_key" by auto
  ultimately show ?thesis
    using ok queue_ok_same summaries_same urls_same by (auto simp: service_ok_with_def world_ok_with_def)
qed

lemma harmless_qr:
  assumes "\<And>s. s \<noteq> [] \<Longrightarrow> render_png E s \<noteq> []"
  shows "harmless Q (service_ok_with promise E look now) db (get_or_generate_call E cfg now c)"
proof -
  have "render_png E (qr_target cfg url) \<noteq> []" for url by (rule assms) (simp add: qr_target_def)
  then show ?thesis
    unfolding get_or_generate_call_def Let_def
    by (intro harmless_then harmless_steps)
      (auto split: option.split intro!: harmless_then harmless_steps harmless_sending harmless_image)
qed

text \<open>Background tasks: the payload of a warmed cache must satisfy the promise.\<close>

lemma harmless_tasks:
  assumes "0 \<le> now" "now < max_instant"
    and "\<And>c v. CacheSet c v \<in> set ts \<Longrightarrow> \<exists>s. v = serialize s \<and> promise db c v"
  shows "harmless Q (service_ok_with promise E look now) db (run_tasks_call E cfg now ts)"
  using assms(3)
proof (induction ts)
  case Nil
  show ?case by (simp add: harmless_quiet)
next
  case (Cons t ts)
  have "harmless Q (service_ok_with promise E look now) db (run_task_call E cfg now t)"
  proof (cases t)
    case (CacheSet c v)
    then show ?thesis using Cons.prems [of c v] by (auto intro: harmless_sending inv_set)
  next
    case (TrackClick c)
    then show ?thesis
      by (auto simp: track_click_call_def intro!: harmless_then harmless_call harmless_sending harmless_quiet inv_hot)
  next
    case (EnqueueClick i ip agent refer)
    then show ?thesis using inv_enqueue assms(1,2) by (auto intro!: harmless_catching harmless_sending)
  qed
  then show ?case using Cons by (auto intro: harmless_then)
qed

lemma redirect_call_keeps:
  assumes "service_ok_with promise E look now (plain w)" "0 \<le> now" "now < max_instant"
  shows "service_ok_with promise E look now (plain (snd (redirect_call E cfg now req c w)))"
proof -
  note ok = service_okD [OF assms(1)]
  let ?I = "service_ok_with promise E look now"
  have tasks: "harmless (\<lambda>_. True) ?I (w_db w) (run_tasks_call E cfg now ts)"
    if "resolve_from now c ip agent refer hit (w_db w) = Inr (target, ts)" for ip agent refer hit target ts
  proof (rule harmless_tasks [OF assms(2,3)])
    note found = that
    fix d v assume "CacheSet d v \<in> set ts"
    then obtain s where s: "get_active_by_code now c (w_db w) = Inr (Some s)" "d = c" "v = serialize s"
      using found by (auto simp: resolve_from_def split: option.splits sum.splits if_splits)
    then have "links (w_db w) c = Some s" "live now s"
      using link.active_link [OF ok(2), of now c] by (auto split: option.splits if_splits)
    moreover have "expiry_in_range (expires_at s)" "is_safe_url (original_url s)"
      using dates_ok_row [of "w_db w" c s] targets_safe_row [OF ok(9), of c s] ok(1) calculation
      by (simp_all add: world_ok_with_def)
    ultimately show "\<exists>s. v = serialize s \<and> promise (w_db w) d v"
      using promise_new [of "w_db w" c s] s by (auto simp: live_def)
  qed
  have kept: "?I (plain (snd (run_tasks_call E cfg now ts w')))"
    if "plain w' = plain w" "resolve_from now c ip agent refer hit (w_db w) = Inr (target, ts)" for ip agent refer hit target ts w'
  proof -
    have db: "w_db w' = w_db w" using arg_cong [OF that(1), of w_db] by simp
    have same: "(plain u)\<lparr>w_db := w_db w\<rparr> = plain u" if "w_db u = w_db w" for u :: "'r connection world" using that by (simp add: plain_def)
    then show ?thesis
      using tasks [OF that(2), unfolded harmless_def, rule_format, of w'] assms(1) that(1) db tasks_frame [of E cfg now ts w']
      by (simp add: same)
  qed
  show ?thesis
  proof (cases "c \<in> set reserved_paths")
    case False
    show ?thesis
    proof (cases rule: querying_cases [of "url_cache_get E now c" w])
      case (1 w')
      have db: "w_db w' = w_db w" using arg_cong [OF 1(2), of w_db] by simp
      show ?thesis
        using 1(1,2) False db kept [OF 1(2)] assms(1)
        by (auto simp: redirect_call_def and_then_def returning_def reading_def catching_def split: sum.splits prod.splits)
    next
      case (2 w')
      then show ?thesis using False assms(1) by (simp add: redirect_call_def and_then_def)
    qed
  qed (use assms(1) in \<open>simp add: redirect_call_def returning_def\<close>)
qed

end

section \<open>The worker\<close>

lemma abides_pop: "abides (flush_pop_call E cfg now) (flush_pop E cfg now)"
proof -
  have "flush_pop E cfg now =
    and_then (updating (\<lambda>r. (queue_length E now r, r))) (\<lambda>queue_len.
      if queue_len = 0 then returning (Inr [])
      else and_then (updating (pop_events E now (nat (ANALYTICS_BATCH_SIZE cfg)))) (\<lambda>answer. returning answer))"
    by (rule ext) (auto simp: flush_pop_def and_then_def updating_def returning_def Let_def split: prod.split)
  then show ?thesis unfolding flush_pop_call_def by (simp only:) (intro abides_then abiding)
qed

lemma pop_call_keys:
  "plain (snd (flush_pop_call E cfg now w)) = plain w \<or> plain (snd (flush_pop_call E cfg now w)) = snd (flush_pop E cfg now (plain w))"
proof (cases rule: querying_cases [of "queue_length E now" w])
  case (1 w')
  show ?thesis
    using 1(1,2) call_keys_cases [of "pop_events E now (nat (ANALYTICS_BATCH_SIZE cfg))" w']
    by (auto simp: flush_pop_call_def flush_pop_def and_then_def returning_def split: prod.splits sum.splits)
next
  case (2 w')
  then show ?thesis by (simp add: flush_pop_call_def and_then_def)
qed

lemma flush_call_cases:
  obtains "plain (snd (flush_call E cfg now ids w)) = plain w"
  | "plain (snd (flush_call E cfg now ids w)) = snd (flush_pop E cfg now (plain w))"
  | "plain (snd (flush_call E cfg now ids w)) = snd (flush E cfg now ids (plain w))"
    "fst (flush_call E cfg now ids w) = fst (flush E cfg now ids (plain w))"
proof (cases "fst (flush_pop_call E cfg now w)")
  case (Inl e)
  then have "snd (flush_call E cfg now ids w) = snd (flush_pop_call E cfg now w)"
    by (auto simp: flush_call_def and_then_def split: prod.splits)
  then show ?thesis using pop_call_keys [of E cfg now w] that by auto
next
  case (Inr events)
  have pop: "fst (flush_pop E cfg now (plain w)) = Inr events" "plain (snd (flush_pop_call E cfg now w)) = snd (flush_pop E cfg now (plain w))"
    using Inr by (cases rule: abidesD [OF abides_pop, of E cfg now w]; simp)+
  have db: "w_db (snd (flush_pop_call E cfg now w)) = w_db (snd (flush_pop E cfg now (plain w)))"
    using arg_cong [OF pop(2), of w_db] by simp
  show ?thesis
    using Inr pop db
    by (intro that(3))
      (auto simp: flush_call_def flush_def and_then_def returning_def writing_def split: prod.splits sum.splits)
qed

context cached_services
begin

lemma flush_call_keeps:
  assumes "service_ok_with promise E look now (plain w)" "0 < ANALYTICS_BATCH_SIZE cfg"
  shows "service_ok_with promise E look now (plain (snd (flush_call E cfg now ids w)))"
    "service_ok_with promise E look now (plain (snd (flush_pop_call E cfg now w)))"
proof -
  show "service_ok_with promise E look now (plain (snd (flush_call E cfg now ids w)))"
    by (cases rule: flush_call_cases [of E cfg now ids w])
      (simp_all add: assms(1) pop_keeps [OF assms] flush_keeps [OF assms])
  show "service_ok_with promise E look now (plain (snd (flush_pop_call E cfg now w)))"
    using pop_call_keys [of E cfg now w] assms(1) pop_keeps(1) [OF assms] by auto
qed

lemma stop_call_keeps:
  assumes "service_ok_with promise E look now (plain w)" "0 < ANALYTICS_BATCH_SIZE cfg"
  shows "service_ok_with promise E look now (plain (snd (snd (stop_worker_call E cfg now ids in_flush s w))))"
  using assms flush_call_keeps [OF assms] flush_call_keeps(1) [OF flush_call_keeps(2) [OF assms] assms(2)]
  by (auto simp: stop_worker_call_def Let_def case_prod_beta split: worker.split)

text \<open>A request that fails on its connection leaves the invariant.\<close>

lemma session_call_keeps:
  assumes "abides (with_session g) h" "recoverable (tolerates promise) (service_ok_with promise E look now) (w_db w) g"
    and "tolerates promise (plan (w_redis w))" "service_ok_with promise E look now (plain w)"
    and "service_ok_with promise E look now (snd (h (plain w)))"
  shows "service_ok_with promise E look now (plain (snd (with_session g w)))"
  by (cases rule: abidesD [OF assms(1), of w])
    (use assms(5) harmless_session [OF assms(2-4)] in simp_all)

end

section \<open>Requests\<close>

text \<open>A summary is stored as on a good connection, or not at all.\<close>

lemma summary_call_keys:
  "plain (snd (get_summary_call E cfg now c days w)) = plain w \<or>
   plain (snd (get_summary_call E cfg now c days w)) = snd (get_summary E cfg now c days (plain w))"
proof (cases rule: querying_cases [of "get_cached_summary E now c" w])
  case (1 w')
  have sent: "plain (snd (and_then (sending f) (\<lambda>_. returning x) w')) = plain w \<or>
    plain (snd (and_then (sending f) (\<lambda>_. returning x) w')) = (plain w)\<lparr>w_redis := f (w_redis (plain w))\<rparr>"
    for f and x :: "'z result"
    using call_keys_cases [of "\<lambda>r. ((), f r)" w'] 1(2)
    by (auto simp: sending_def and_then_def returning_def split: prod.splits sum.splits)
  have db: "w_db w' = w_db w" using arg_cong [OF 1(2), of w_db] by simp
  show ?thesis
    using 1(1,2) db sent
    by (auto simp: get_summary_call_def get_summary_def and_then_def [of "querying _"] and_then_def [of "returning _"]
        and_then_def [of "reading _"] returning_def reading_def Let_def split: sum.splits option.splits json.splits)
next
  case (2 w')
  then show ?thesis by (simp add: get_summary_call_def and_then_def)
qed

lemma get_summary_db: "w_db (snd (get_summary E cfg now c days w)) = w_db w"
  by (auto simp: get_summary_def Let_def split: sum.split option.split json.split)

lemma session_readonly: "w_db (snd (h w)) = w_db w \<Longrightarrow> snd (with_session h w) = snd (h w)"
  by (cases rule: with_session_cases [of h w]) (auto simp: w_db_same)

lemma summary_endpoint_keys:
  "plain (snd (analytics_summary_call E cfg now cred c days w)) = plain w \<or>
   plain (snd (analytics_summary_call E cfg now cred c days w)) = snd (get_analytics_summary E cfg now cred c days (plain w))"
proof -
  let ?h = "get_summary_call E cfg now c days" and ?g = "get_summary E cfg now c days"
  have db: "w_db (snd (?h w)) = w_db w"
    using summary_call_keys [of E cfg now c days w] get_summary_db [of E cfg now c days "plain w"]
    by (metis offline_simps(1))
  note whole = session_readonly [of ?h w, OF db] session_readonly [of ?g "plain w", OF get_summary_db]
  have "offline (current_user E cfg now cred) w = (get_current_user E cfg now cred (w_db w), w)"
    by (simp add: offline_def current_user_def)
  then show ?thesis
    using summary_call_keys [of E cfg now c days w] whole
    by (cases "get_current_user E cfg now cred (w_db w)"; cases "1 \<le> days \<and> days \<le> 365")
      (auto simp: analytics_summary_call_def get_analytics_summary_def with_session_def and_then_def current_user_def
        query_range_def returning_def)
qed

context cached_services
begin

lemma recoverable_endpoints:
  assumes "aware_in_range (b_expires_at cbody)"
  shows "recoverable (tolerates promise) (service_ok_with promise E look now) db
      (and_then (offline (optional_user E cfg now cred)) (\<lambda>user.
        and_then (returning (validate_url_create (http_url E) now cbody)) (\<lambda>data.
        and_then
          (rate_guard_call E now lid (case user of Some u \<Rightarrow> str_uuid (row_id u) | None \<Rightarrow> client_ip req)
             (if user \<noteq> None then 100 else 10) 3600 ''create_url'' ''URL creation rate limit exceeded'') (\<lambda>_.
        url_create_call E cfg now i rng data (map_option row_id user)))))"
proof (rule recoverable_then [OF harmless_offline], rule recoverable_then [OF harmless_quiet(1)], rule recoverable_then [OF harmless_guard])
  fix data and u u' :: "'r connection world" and user :: "user option"
  assume "returning (validate_url_create (http_url E) now cbody) u = (Inr data, u')"
  then have "validate_url_create (http_url E) now cbody = Inr data" by (simp add: returning_def)
  then have "valid_create data"
    by (rule validated_create(1)) (use assms in \<open>simp add: aware_in_range_def\<close>)
  then show "recoverable (tolerates promise) (service_ok_with promise E look now) db
      (url_create_call E cfg now i rng data (map_option row_id user))"
    by (intro recoverable_create)
qed

lemma serve_call_keeps:
  assumes "deployment E look cfg" "service_ok_with promise E look now (plain w)" "call_ok (w_db w) c"
    and "0 \<le> now" "now < max_instant" "tolerates promise (plan (w_redis w))"
  shows "service_ok_with promise E look now (plain (snd (serve_call E cfg now c w)))"
proof -
  note axioms = cached_services_axioms
  have served: "service_ok_with promise E look now (snd (serve E cfg now c (plain w)))" if "\<And>req sc. c \<noteq> Follow req sc"
    using serve_keeps_with [OF assms(1) axioms assms(2) _ that] assms(3) by simp
  have harmless: "service_ok_with promise E look now (plain (snd (with_session g w)))"
    if "abides (with_session g) h" "harmless (tolerates promise) (service_ok_with promise E look now) (w_db w) g"
      "service_ok_with promise E look now (snd (h (plain w)))"
    for g :: "('r connection, 'z) handler" and h
    by (rule session_call_keeps [OF that(1) harmless_recoverable [OF that(2)] assms(6,2) that(3)])
  show ?thesis
  proof (cases c)
    case (CreateUrl lid i rng req cred body)
    have "aware_in_range (b_expires_at body)" using assms(3) CreateUrl by simp
    from session_call_keeps [OF abides_endpoints(1) [unfolded create_url_call_def] recoverable_endpoints [OF this] assms(6,2)]
    show ?thesis using served by (simp add: CreateUrl respond_def create_url_call_def)
  next
    case (UpdateUrl cred url_id body)
    show ?thesis
      using served unfolding UpdateUrl
      by (simp add: respond_def update_url_call_def)
        (rule harmless [OF abides_endpoints(2) [unfolded update_url_call_def]],
          auto simp: url_update_call_def intro!: harmless_then harmless_steps)
  next
    case (DeleteUrl cred url_id)
    show ?thesis
      using served unfolding DeleteUrl
      by (simp add: respond_def delete_url_call_def)
        (rule harmless [OF abides_endpoints(3) [unfolded delete_url_call_def]],
          auto simp: url_delete_call_def intro!: harmless_then harmless_steps)
  next
    case (RegisterUser lid i salt req body)
    show ?thesis
      using served unfolding RegisterUser
      by (simp add: respond_def register_user_call_def)
        (rule harmless [OF abides_endpoints(4) [unfolded register_user_call_def]], auto intro!: harmless_then harmless_steps)
  next
    case (LoginUser lid i req body)
    show ?thesis
      using served unfolding LoginUser
      by (simp add: respond_def login_user_call_def)
        (rule harmless [OF abides_endpoints(5) [unfolded login_user_call_def]], auto intro!: harmless_then harmless_steps)
  next
    case (AnalyticsSummary cred d days)
    then show ?thesis using served summary_endpoint_keys [of E cfg now cred d days w] assms(2) by (auto simp: respond_def)
  next
    case (QrCode d)
    show ?thesis
      using served unfolding QrCode
      by (simp add: respond_def qr_code_call_def)
        (rule harmless [OF abides_endpoints(7) [unfolded qr_code_call_def]], auto intro!: harmless_qr deploymentD(4) [OF assms(1)])
  next
    case (Follow req d)
    then show ?thesis using redirect_call_keeps [OF assms(2,4,5)] by (simp add: respond_def)
  qed (use served assms(2) in \<open>simp_all add: respond_def same_offline_endpoints\<close>)
qed

end

end
