(* ===== verification/Transactions.thy ===== *)
theory Transactions
  imports Phases
begin

text \<open>
  The service with the transactions of its requests interleaved: any number of requests have done their lookups and
  wait for their statements, have run them and sent their commands to Redis, and commit or roll back later, between
  the steps of everything else (\<open>Interleaving\<close>).  Row locks keep what a statement has changed until the commit, so
  the effect on the database appears with the commit; Redis sees the commands before.
\<close>

section \<open>Steps\<close>

text \<open>An open transaction and, once its statements have run, the moment at which they did.\<close>

record 'r serving =
  service :: "'r running"
  open_txns :: "(instant option \<times> txn) list"

inductive txn_step :: "('r, 'x) ext_scheme \<Rightarrow> settings \<Rightarrow> nat \<Rightarrow> 'r serving \<Rightarrow> 'r serving \<Rightarrow> bool" for E cfg where
  calm: "open_step E cfg k (service x) y \<Longrightarrow> txn_step E cfg k x (x\<lparr>service := y\<rparr>)"
| prepared: "call_ok (w_db (world (service x))) c \<Longrightarrow> prepare E cfg (clock (service x)) c = Some h \<Longrightarrow>
    h (world (service x)) = (Inr p, w') \<Longrightarrow>
    txn_step E cfg 0 x (x\<lparr>service := (service x)\<lparr>world := w'\<rparr>, open_txns := open_txns x @ [(None, p)]\<rparr>)"
| refused: "call_ok (w_db (world (service x))) c \<Longrightarrow> prepare E cfg (clock (service x)) c = Some h \<Longrightarrow>
    h (world (service x)) = (Inl e, w') \<Longrightarrow> txn_step E cfg 0 x (x\<lparr>service := (service x)\<lparr>world := w'\<rparr>\<rparr>)"
| executed: "open_txns x = ps @ (None, p) # qs \<Longrightarrow>
    txn_statements E cfg (clock (service x)) p (w_db (world (service x))) = Inr db' \<Longrightarrow>
    txn_step E cfg 0 x
      (x\<lparr>service := (service x)\<lparr>world := (world (service x))
            \<lparr>w_redis := txn_redis E cfg (clock (service x)) p (w_redis (world (service x)))\<rparr>\<rparr>,
         open_txns := ps @ (Some (clock (service x)), p) # qs\<rparr>)"
| committed: "open_txns x = ps @ (Some t, p) # qs \<Longrightarrow>
    txn_statements E cfg t p (w_db (world (service x))) = Inr db' \<Longrightarrow>
    txn_step E cfg 0 x
      (x\<lparr>service := (service x)\<lparr>world := (world (service x))\<lparr>w_db := db'\<rparr>\<rparr>, open_txns := ps @ qs\<rparr>)"
| rolled_back: "open_txns x = ps @ q # qs \<Longrightarrow> txn_step E cfg 0 x (x\<lparr>open_txns := ps @ qs\<rparr>)"

inductive txn_run ::
  "('r, 'x) ext_scheme \<Rightarrow> ('r \<Rightarrow> instant \<Rightarrow> pystr \<Rightarrow> redis_value option) \<Rightarrow> settings \<Rightarrow> nat \<Rightarrow> 'r serving \<Rightarrow> bool"
  for E look cfg where
  idle: "open_run E look cfg n x \<Longrightarrow> txn_run E look cfg n \<lparr>service = x, open_txns = []\<rparr>"
| further: "txn_run E look cfg n x \<Longrightarrow> txn_step E cfg k x y \<Longrightarrow> txn_run E look cfg (n + k) y"

section \<open>What a prepared transaction carries\<close>

fun good_txn :: "txn \<Rightarrow> bool" where
  "good_txn (TxCreate i data owner sc) \<longleftrightarrow> valid_create data \<and> is_safe_url (c_original_url data) \<and>
     (c_custom_alias data = None \<or> c_custom_alias data = Some sc)"
| "good_txn (TxUpdate data loaded) \<longleftrightarrow> varchar 255 (u_title data) \<and> datetime_in_range (u_expires_at data) \<and>
     alias_is_code loaded"
| "good_txn (TxDelete loaded) \<longleftrightarrow> alias_is_code loaded"
| "good_txn _ \<longleftrightarrow> True"

lemma create_read_choose:
  assumes "links_ok db" "valid_create data"
  shows "create_read cfg rng data db = Inr sc \<longleftrightarrow>
    is_safe_url (c_original_url data) \<and> choose_code cfg rng db (c_custom_alias data) = Inr sc"
proof (cases "c_custom_alias data")
  case None
  then show ?thesis
    by (simp add: create_read_def choose_code_def generate_unique_code_def try_codes_find [OF assms(1)])
next
  case (Some a)
  with assms(2) obtain ch b where a: "a = ch # b" by (cases a) (auto simp: valid_create_def)
  have "short_code_exists a db = Inr (links db a \<noteq> None)" by (rule link.taken_iff [OF assms(1)])
  then show ?thesis using Some by (cases "links db a = None") (simp_all add: create_read_def choose_code_def a)
qed

lemma owned_read_row:
  assumes "links_ok db" "owned_read i requester is_admin db = Inr s"
  shows "s \<in> set (short_urls db) \<and> row_id s = i \<and> alias_is_code s \<and> may_change requester is_admin s"
proof (cases rule: get_link_by_id [OF assms(1), of i])
  case (2 s')
  then show ?thesis
    using assms links_ok_row [OF assms(1)] by (auto simp: owned_read_def may_change_def split: if_splits)
qed (use assms(2) in \<open>simp add: owned_read_def\<close>)

text \<open>A preparation changes nothing but the limiter's keys.\<close>

definition only_limits ::
  "('r \<Rightarrow> instant \<Rightarrow> pystr \<Rightarrow> redis_value option) \<Rightarrow> instant \<Rightarrow> ('r, 'a) handler \<Rightarrow> bool" where
  "only_limits look now h \<longleftrightarrow>
     (\<forall>w. w_db (snd (h w)) = w_db w \<and> same_look look (- rate_keys) now (w_redis w) (w_redis (snd (h w))))"

lemma only_limits_then:
  assumes "only_limits look now h" "\<And>v. only_limits look now (k v)"
  shows "only_limits look now (and_then h k)"
  unfolding only_limits_def and_then_def
proof
  fix w
  show "w_db (snd (case h w of (Inl e, w') \<Rightarrow> (Inl e, w') | (Inr v, w') \<Rightarrow> k v w')) = w_db w \<and>
    same_look look (- rate_keys) now (w_redis w) (w_redis (snd (case h w of (Inl e, w') \<Rightarrow> (Inl e, w') | (Inr v, w') \<Rightarrow> k v w')))"
    using assms(1) [unfolded only_limits_def, rule_format, of w] assms(2) [unfolded only_limits_def, rule_format]
      same_look_trans
    by (cases "h w") (fastforce split: sum.split)
qed

lemma only_limits_reads [intro]:
  "only_limits look now (reading f)" "only_limits look now (returning v)"
  "only_limits look now (current_user E cfg t cred)" "only_limits look now (optional_user E cfg t cred)"
  by (simp_all add: only_limits_def reading_def returning_def current_user_def optional_user_def)

context services
begin

lemma only_limits_guard [intro]: "only_limits look now (rate_guard E now lid ip limit window ep m)"
  unfolding only_limits_def rate_guard_world(2) by (simp add: same_limiter)

lemma prepare_limits: "prepare E cfg now c = Some h \<Longrightarrow> only_limits look now h"
  by (cases c) (auto intro!: only_limits_then)

end

text \<open>Running the parts of a preparation that succeeds.\<close>

lemma parts_run:
  "and_then (returning x) k w = (Inr p, w') \<longleftrightarrow> (\<exists>v. x = Inr v \<and> k v w = (Inr p, w'))"
  "and_then (optional_user E cfg now cred) m w = m (get_optional_user E cfg now cred (w_db w)) w"
  "and_then (current_user E cfg now cred) l w = (Inr p, w') \<longleftrightarrow>
     (\<exists>u. get_current_user E cfg now cred (w_db w) = Inr u \<and> l u w = (Inr p, w'))"
  "and_then (reading f) g w = (Inr p, w') \<longleftrightarrow> (\<exists>v. f (w_db w) = Inr v \<and> g v w = (Inr p, w'))"
  by (auto simp: and_then_def returning_def optional_user_def current_user_def reading_def split: sum.splits)

lemma guard_run:
  "and_then (rate_guard E now lid ip limit win ep msg) k w = (Inr p, w') \<Longrightarrow> \<exists>r. k () (w\<lparr>w_redis := r\<rparr>) = (Inr p, w')"
  by (auto simp: and_then_def rate_guard_def split: prod.splits sum.splits if_splits)

lemma prepare_good:
  assumes "links_ok (w_db w)" "call_ok (w_db w) c" "prepare E cfg now c = Some h" "h w = (Inr p, w')"
  shows "good_txn p"
proof (cases c)
  case (CreateUrl lid i rng req cred body)
  then obtain data sc owner where d: "validate_url_create (http_url E) now body = Inr data"
    "create_read cfg rng data (w_db w) = Inr sc" "p = TxCreate i data owner sc"
    using assms(3,4) by (auto simp: parts_run returning_def dest!: guard_run)
  have v: "valid_create data"
    by (rule validated_create(1) [OF d(1)]) (use assms(2) CreateUrl in \<open>simp add: aware_in_range_def\<close>)
  then show ?thesis
    using d(2,3) create_read_choose [OF assms(1) v] choose_code_free [of cfg rng "w_db w" "c_custom_alias data" sc] by auto
next
  case (UpdateUrl cred url_id body)
  then obtain data and u :: user and s where "validate_url_update body = Inr data" "owned_read url_id (row_id u) (role u = ''admin'') (w_db w) = Inr s"
    "p = TxUpdate data s"
    using assms(3,4) by (auto simp: parts_run returning_def)
  then show ?thesis
    using validated_update [of body data] owned_read_row [OF assms(1)] assms(2) UpdateUrl by auto
next
  case (DeleteUrl cred url_id)
  then obtain u :: user and s where "owned_read url_id (row_id u) (role u = ''admin'') (w_db w) = Inr s" "p = TxDelete s"
    using assms(3,4) by (auto simp: parts_run returning_def)
  then show ?thesis using owned_read_row [OF assms(1)] by auto
next
  case (RegisterUser lid i salt req body)
  then show ?thesis using assms(3,4) by (auto simp: parts_run returning_def dest!: guard_run)
next
  case (LoginUser lid i req body)
  then show ?thesis using assms(3,4) by (auto simp: parts_run returning_def dest!: guard_run)
next
  case (RefreshSession i raw)
  then show ?thesis using assms(3,4) by (auto simp: parts_run returning_def)
next
  case (LogoutSession raw)
  then show ?thesis using assms(3,4) by (auto simp: parts_run returning_def)
qed (use assms(3) in simp_all)

section \<open>Redis before the commit\<close>

lemma former_redis:
  assumes "services E look cfg" "former_ok E look now w" "same_look look (- url_keys) now (w_redis w) r'"
    and "holds (url_cache_get E) (\<lambda>c v. row_payload v) now r'"
  shows "former_ok E look now (w\<lparr>w_redis := r'\<rparr>)"
proof (rule cached_services.service_ok_links [OF services.cached_services_former [OF assms(1)] assms(2)])
  note ok = service_okD [OF assms(2)]
  show "world_ok_with (\<lambda>db c. row_payload) E now (w\<lparr>w_redis := r'\<rparr>)"
    using ok(1) assms(4) by (simp add: world_ok_with_def)
qed (use assms(3) service_okD [OF assms(2)] in simp_all)

context services
begin

lemma same_txn_redis: "same_look look (- url_keys) now r (txn_redis E cfg now p r)"
  by (cases p) (simp_all add: same_url_set same_drop_cached)

lemma txn_redis_keeps:
  assumes "former_ok E look now w" "good_txn p"
  shows "former_ok E look now (w\<lparr>w_redis := txn_redis E cfg now p (w_redis w)\<rparr>)"
proof (rule former_redis [OF services_axioms assms(1) same_txn_redis])
  have cache: "holds (url_cache_get E) (\<lambda>c v. row_payload v) now (w_redis w)"
    using service_okD(1) [OF assms(1)] by (simp add: world_ok_with_def)
  have dropped: "holds (url_cache_get E) (\<lambda>c v. row_payload v) now (drop_cached E s (w_redis w))" if "alias_is_code s" for s
    by (rule holds_drop_cached [OF that cache])
  show "holds (url_cache_get E) (\<lambda>c v. row_payload v) now (txn_redis E cfg now p (w_redis w))"
  proof (cases p)
    case (TxCreate i data owner sc)
    let ?s = "new_short_url i now (c_original_url data) sc (c_custom_alias data) (c_title data) owner
        (c_is_public data) (c_expires_at data)"
    have "row_payload (serialize ?s)"
      unfolding row_payload_def
      by (rule exI [of _ ?s]) (use assms(2) TxCreate in \<open>simp add: new_short_url_def valid_create_def\<close>)
    then have "holds (url_cache_get E) (\<lambda>c v. row_payload v) now (url_cache_set E cfg now sc (serialize ?s) None (w_redis w))"
      by (intro url_cache.holds_put cache) simp_all
    then show ?thesis by (simp add: TxCreate)
  next
    case (TxUpdate data loaded)
    then show ?thesis using dropped assms(2) by simp
  next
    case (TxDelete loaded)
    then show ?thesis using dropped assms(2) by simp
  qed (use cache in simp_all)
qed

end

section \<open>Statements on a database that others have changed\<close>

lemma create_write_effect:
  assumes "links_ok db" "create_write now i data owner sc db = Inr (s, db')"
  shows "s = new_short_url i now (c_original_url data) sc (c_custom_alias data) (c_title data) owner
      (c_is_public data) (c_expires_at data)"
    and "db' = db\<lparr>short_urls := short_urls db @ [s]\<rparr>" "row_id s \<notin> row_id ` set (short_urls db)"
    and "insert_short_url s db = Inr db'"
  using assms(2) by (auto simp: create_write_def create_with_Inr insert_short_url_def new_short_url_def split: if_splits)

lemma setattr_keeps:
  "row_id (fold (url_setattr to_utc) as s) = row_id s" "short_code (fold (url_setattr to_utc) as s) = short_code s"
  "custom_alias (fold (url_setattr to_utc) as s) = custom_alias s" "owner_id (fold (url_setattr to_utc) as s) = owner_id s"
  "original_url (fold (url_setattr to_utc) as s) = original_url s" "click_count (fold (url_setattr to_utc) as s) = click_count s"
proof (induction as arbitrary: s)
  case (Cons a as)
  {
    case 1
    show ?case using Cons(1) by (cases a) simp_all
  next
    case 2
    show ?case using Cons(2) by (cases a) simp_all
  next
    case 3
    show ?case using Cons(3) by (cases a) simp_all
  next
    case 4
    show ?case using Cons(4) by (cases a) simp_all
  next
    case 5
    show ?case using Cons(5) by (cases a) simp_all
  next
    case 6
    show ?case using Cons(6) by (cases a) simp_all
  }
qed simp_all

lemma setattr_expiry:
  "expires_at (fold (url_setattr to_utc) as s) = expires_at s \<or>
   (\<exists>e. AttrExpiresAt e \<in> set as \<and> expires_at (fold (url_setattr to_utc) as s) = Some (utc_of to_utc e))"
proof (induction as arbitrary: s)
  case (Cons a as)
  from Cons.IH [of "url_setattr to_utc a s"] show ?case
    by (cases a) (simp_all, blast+)
qed simp

text \<open>The row that an update leaves: the given fields where they differed from the loaded row.\<close>

lemma update_write_effect:
  assumes "links_ok db" "update_write to_utc now data loaded db = Inr (s', db')"
  obtains s where "s \<in> set (short_urls db)" "row_id s = row_id loaded"
    and "same_keys s s'" "short_url_columns s'" "original_url s' = original_url s" "click_count s' = click_count s"
    and "expires_at s' = expires_at s \<or> (\<exists>e. u_expires_at data = Some e \<and> expires_at s' = Some (utc_of to_utc e))"
    and "db' = update_short_url (row_id s) (\<lambda>_. s') db"
proof -
  let ?changed = "filter (url_attr_changes loaded) (dump_updates data)"
  have "find (\<lambda>s. row_id s = row_id loaded) (short_urls db) \<noteq> None"
  proof
    assume none: "find (\<lambda>s. row_id s = row_id loaded) (short_urls db) = None"
    show False using assms(2) unfolding update_write_def none Let_def by simp
  qed
  then obtain s where s: "find (\<lambda>s. row_id s = row_id loaded) (short_urls db) = Some s" by blast
  from find_member [OF s] have row: "s \<in> set (short_urls db)" "row_id s = row_id loaded" by simp_all
  note d = schema_distinct(1) [OF links_ok_schema [OF assms(1)]]
  show thesis
  proof (cases "?changed = []")
    case True
    then have "s' = s" "db' = db" using assms(2) s by (simp_all add: update_write_def)
    moreover have "update_short_url (row_id s) (\<lambda>_. s) db = db"
      using upd_where_id [OF d row(1)] by (simp add: update_short_url_def)
    ultimately show ?thesis
      using that row links_ok_row [OF assms(1) row(1)] by (simp add: same_keys_def)
  next
    case False
    let ?s = "fold (url_setattr to_utc) ?changed s"
    have e: "s' = ?s\<lparr>updated_at := now\<rparr>" "db' = update_short_url (row_id s) (\<lambda>_. s') db" "short_url_columns s'"
      using assms(2) s False row(2) by (auto simp: update_write_def Let_def short_url_columns_def split: if_splits)
    have sent: "AttrExpiresAt e \<in> set ?changed \<Longrightarrow> u_expires_at data = Some e" for e
      by (auto simp: dump_updates_def split: option.splits)
    note keeps = setattr_keeps [of to_utc ?changed s]
    show ?thesis
    proof (rule that [OF row])
      show "expires_at s' = expires_at s \<or> (\<exists>e. u_expires_at data = Some e \<and> expires_at s' = Some (utc_of to_utc e))"
        using setattr_expiry [of to_utc ?changed s] sent unfolding e(1) by (simp, blast)
    qed (use e keeps in \<open>simp_all add: same_keys_def\<close>)
  qed
qed

text \<open>The part of the invariant that the tables carry.\<close>

definition tables_ok :: "database \<Rightarrow> bool" where
  "tables_ok db \<longleftrightarrow> links_ok db \<and> dates_ok db \<and> targets_safe db \<and> counts_agree db \<and> clicks_dated db"

lemma former_tables: "former_ok E look now w \<Longrightarrow> tables_ok (w_db w)"
  by (auto simp: tables_ok_def service_ok_with_def world_ok_with_def)

lemma former_db: "former_ok E look now w \<Longrightarrow> tables_ok db \<Longrightarrow> former_ok E look now (w\<lparr>w_db := db\<rparr>)"
  by (simp add: tables_ok_def service_ok_with_def world_ok_with_def)

lemma tables_ok_accounts:
  assumes "tables_ok db" "schema_ok db'" "short_urls db' = short_urls db" "click_events db' = click_events db"
  shows "tables_ok db'"
  using assms
  by (simp add: tables_ok_def links_ok_def dates_ok_def targets_safe_def counts_agree_def click_total_def clicks_dated_def)

lemma tables_ok_insert:
  assumes "tables_ok db" "valid_create data" "is_safe_url (c_original_url data)"
    "c_custom_alias data = None \<or> c_custom_alias data = Some sc" "create_write now i data owner sc db = Inr (s, db')"
  shows "tables_ok db'"
proof -
  have ok: "links_ok db" using assms(1) by (simp add: tables_ok_def)
  note e = create_write_effect [OF ok assms(5)]
  have "alias_is_code s" using assms(4) unfolding e(1) by (rule alias_is_code_new)
  then have "links_ok db'" by (rule insert_links_ok [OF ok e(4)])
  moreover have "click_total (row_id s) db = 0" by (rule click_total_fresh [OF links_ok_schema [OF ok] e(3)])
  moreover have "original_url s = c_original_url data" "expires_at s = c_expires_at data" "click_count s = 0"
    by (simp_all add: e(1) new_short_url_def)
  moreover have "expiry_in_range (c_expires_at data)" using assms(2) by (simp add: valid_create_def)
  ultimately show ?thesis
    using assms(1,3) by (simp add: e(2) tables_ok_def dates_ok_def targets_safe_def counts_agree_def click_total_def clicks_dated_def)
qed

lemma tables_ok_update:
  assumes "tables_ok db" "datetime_in_range (u_expires_at data)" "\<And>n. 0 \<le> to_utc n \<and> to_utc n < max_instant"
    and "update_write to_utc now data loaded db = Inr (s', db')"
  shows "tables_ok db'"
proof -
  have ok: "links_ok db" using assms(1) by (simp add: tables_ok_def)
  obtain s where s: "s \<in> set (short_urls db)" "same_keys s s'" "short_url_columns s'" "original_url s' = original_url s"
    "click_count s' = click_count s" "db' = update_short_url (row_id s) (\<lambda>_. s') db"
    "expires_at s' = expires_at s \<or> (\<exists>e. u_expires_at data = Some e \<and> expires_at s' = Some (utc_of to_utc e))"
    by (rule update_write_effect [OF ok assms(4)])
  have "row_id s' = row_id s" using s(2) by (simp add: same_keys_def)
  have "expiry_in_range (expires_at s)" using assms(1) s(1) by (simp add: tables_ok_def dates_ok_def list_all_iff)
  moreover have "expiry_in_range (Some (utc_of to_utc e))" if "u_expires_at data = Some e" for e
    using that assms(2,3) by (cases e) (simp_all add: expiry_in_range_def datetime_in_range_def utc_of_def)
  ultimately have "expiry_in_range (expires_at s')" using s(7) by auto
  then show ?thesis
    using assms(1) s(1,4,5) \<open>row_id s' = row_id s\<close> update_links_ok [OF ok s(1-3)] unfolding s(6)
    by (auto simp: tables_ok_def dates_ok_def targets_safe_def counts_agree_def click_total_def clicks_dated_def
        update_short_url_def list_all_iff set_upd_where)
qed

lemma tables_ok_delete: "tables_ok db \<Longrightarrow> tables_ok (url_repo_delete s db)"
  using delete_links_ok [of db] counts_agree_delete [of db]
  by (auto simp: tables_ok_def url_repo_delete_def dates_ok_def targets_safe_def clicks_dated_def list_all_iff)
    (auto simp: delete_short_url_def)

lemma revoke_write_effect:
  "revoke_write now t db = Inr db' \<Longrightarrow> db' = revoke_token now t db \<and> row_id t \<in> row_id ` set (refresh_tokens db)"
  by (auto simp: revoke_write_def split: if_splits)

lemma revoke_token_frame [simp]:
  "short_urls (revoke_token now t db) = short_urls db" "click_events (revoke_token now t db) = click_events db"
  "users (revoke_token now t db) = users db"
  by (simp_all add: revoke_token_def update_tokens_def)

lemma insert_account_frame:
  "insert_user u db = Inr db' \<Longrightarrow> short_urls db' = short_urls db \<and> click_events db' = click_events db"
  "insert_token t db = Inr db' \<Longrightarrow> short_urls db' = short_urls db \<and> click_events db' = click_events db"
  by (auto simp: insert_user_def insert_token_def split: if_splits)

lemma statements_account:
  assumes "schema_ok db" "txn_statements E cfg now p db = Inr db'"
    and "\<And>i data owner sc. p \<noteq> TxCreate i data owner sc" "\<And>data s. p \<noteq> TxUpdate data s" "\<And>s. p \<noteq> TxDelete s"
  shows "schema_ok db' \<and> short_urls db' = short_urls db \<and> click_events db' = click_events db"
proof (cases p)
  case (TxRegister i salt data)
  then show ?thesis
    using assms(2) insert_user_ok [OF assms(1)] insert_account_frame(1)
    by (auto simp: register_write_def create_with_Inr map_sum_id_snd split: sum.splits)
next
  case (TxLogin i u ip agent)
  then obtain t where "insert_token t db = Inr db'"
    using assms(2) by (auto simp: login_write_def Let_def create_with_Inr map_sum_id_snd split: sum.splits)
  then show ?thesis using insert_token_ok [OF assms(1)] insert_account_frame(2) by blast
next
  case (TxRefresh i stored subj)
  then obtain t where "insert_token t (revoke_token now stored db) = Inr db'"
    using assms(2)
    by (auto simp: refresh_write_def Let_def create_with_Inr map_sum_id_snd dest!: revoke_write_effect
        split: sum.splits option.splits)
  then show ?thesis
    using insert_token_ok [OF revoke_token_ok [OF assms(1)]] insert_account_frame(2) by fastforce
next
  case (TxLogout found)
  then show ?thesis
    using assms(1,2) by (auto split: option.splits intro: revoke_token_ok dest!: revoke_write_effect)
qed (use assms(3-5) in auto)

context services
begin

lemma statements_keep:
  assumes "tables_ok db" "good_txn p" "txn_statements E cfg now p db = Inr db'"
  shows "tables_ok db' \<and> length (click_events db') \<le> length (click_events db)"
proof -
  have account: ?thesis
    if "\<And>i data owner sc. p \<noteq> TxCreate i data owner sc" "\<And>data s. p \<noteq> TxUpdate data s" "\<And>s. p \<noteq> TxDelete s"
    using statements_account [OF _ assms(3) that] tables_ok_accounts [OF assms(1), of db'] assms(1)
    by (simp add: tables_ok_def links_ok_schema)
  show ?thesis
  proof (cases p)
    case (TxCreate i data owner sc)
    then obtain s where s: "create_write now i data owner sc db = Inr (s, db')"
      using assms(3) by (auto simp: map_sum_id_snd split: sum.splits)
    have "links_ok db" using assms(1) by (simp add: tables_ok_def)
    then show ?thesis
      using tables_ok_insert [OF assms(1) _ _ _ s] assms(2) TxCreate create_write_effect(2) [OF _ s] by auto
  next
    case (TxUpdate data loaded)
    then obtain s where s: "update_write (local_to_utc E) now data loaded db = Inr (s, db')"
      using assms(3) by (auto simp: map_sum_id_snd split: sum.splits)
    have "links_ok db" using assms(1) by (simp add: tables_ok_def)
    from update_write_effect [OF this s] have "click_events db' = click_events db"
      by (metis (no_types) update_short_url_def database.ext_inject database.surjective database.update_convs(2))
    then show ?thesis
      using tables_ok_update [OF assms(1) _ utc_range s] assms(2) TxUpdate by simp
  next
    case (TxDelete loaded)
    then show ?thesis
      using assms(3) tables_ok_delete [OF assms(1)] by (auto simp: url_repo_delete_def delete_short_url_def)
  qed (rule account; simp)+
qed

end

section \<open>The invariant\<close>

definition serving_ok ::
  "('r, 'x) ext_scheme \<Rightarrow> ('r \<Rightarrow> instant \<Rightarrow> pystr \<Rightarrow> redis_value option) \<Rightarrow> nat \<Rightarrow> 'r serving \<Rightarrow> bool" where
  "serving_ok E look n x \<longleftrightarrow> open_ok E look n (service x) \<and> list_all (good_txn \<circ> snd) (open_txns x)"

context services
begin

lemma accounted_frame:
  assumes "accounted E look m t w" "same_look look {queue_key} t (w_redis w) (w_redis w')"
    "length (click_events (w_db w')) \<le> length (click_events (w_db w))"
  shows "accounted E look m t w'"
proof -
  obtain es where es: "events_queued (w_redis w) t es" "list_all (good_event E) es"
    "length (click_events (w_db w)) + length es \<le> m"
    using assms(1) by (auto simp: accounted_def)
  have "events_queued (w_redis w') t es"
    using es(1) same_lookD [OF assms(2)] by (auto intro: queued_frame)
  then show ?thesis using es(2,3) assms(3) unfolding accounted_def by (intro exI [of _ es]) simp
qed

text \<open>Exchanging the world under an open service.\<close>

lemma open_ok_world:
  assumes "open_ok E look n x" "former_ok E look (clock x) w'"
    "same_look look {queue_key} (clock x) (w_redis (world x)) (w_redis w')"
    "length (click_events (w_db w')) \<le> length (click_events (w_db (world x)))"
  shows "open_ok E look n (x\<lparr>world := w'\<rparr>)"
proof -
  obtain m where x: "former_ok E look (clock x) (world x)" "0 \<le> clock x" "clock x < max_instant"
    "list_all (list_all good_task) (pending x)" "list_all (good_event E) (batch x)"
    "accounted E look m (clock x) (world x)" "m + length (batch x) + waiting (pending x) \<le> n"
    by (rule open_okD [OF assms(1)])
  show ?thesis
    using x(2-5,7) assms(2) accounted_frame [OF x(6) assms(3,4)] by (intro open_okI [where m = m]) simp_all
qed

lemma open_ok_former: "open_ok E look n x \<Longrightarrow> former_ok E look (clock x) (world x)"
  by (simp add: open_ok_def)

lemma prepare_keeps:
  assumes "open_ok E look n x" "prepare E cfg (clock x) c = Some h" "h (world x) = (res, w')"
  shows "open_ok E look n (x\<lparr>world := w'\<rparr>)"
proof -
  have h: "w_db w' = w_db (world x)" "same_look look (- rate_keys) (clock x) (w_redis (world x)) (w_redis w')"
    using prepare_limits [OF assms(2)] assms(3) unfolding only_limits_def by (metis snd_conv)+
  have "w' = (world x)\<lparr>w_redis := w_redis w'\<rparr>" using h(1) by simp
  then have "former_ok E look (clock x) w'"
    using former.service_ok_limiter [OF open_ok_former [OF assms(1)] h(2)] by metis
  moreover have "same_look look {queue_key} (clock x) (w_redis (world x)) (w_redis w')"
    by (rule same_look_mono [OF h(2)]) auto
  ultimately show ?thesis by (rule open_ok_world [OF assms(1)]) (simp add: h(1))
qed

lemma txn_step_keeps:
  assumes "txn_step E cfg k x y" "serving_ok E look n x" "deployment E look cfg"
  shows "serving_ok E look (n + k) y"
proof -
  have ok: "open_ok E look n (service x)" and good: "list_all (good_txn \<circ> snd) (open_txns x)"
    using assms(2) by (simp_all add: serving_ok_def)
  note former = open_ok_former [OF ok]
  show ?thesis
    using assms(1)
  proof (cases rule: txn_step.cases)
    case (calm z)
    then show ?thesis using open_step_keeps [OF calm(2) ok assms(3)] good by (simp add: serving_ok_def)
  next
    case (prepared c h p w')
    have "good_txn p" by (rule prepare_good [OF service_okD(2) [OF former] prepared(3-5)])
    then show ?thesis
      using prepared prepare_keeps [OF ok prepared(4,5)] good by (simp add: serving_ok_def)
  next
    case (refused c h e w')
    then show ?thesis using prepare_keeps [OF ok refused(4,5)] good by (simp add: serving_ok_def)
  next
    case (executed ps p qs db')
    then have p: "good_txn p" using good by simp
    have "open_ok E look n ((service x)\<lparr>world := (world (service x))
        \<lparr>w_redis := txn_redis E cfg (clock (service x)) p (w_redis (world (service x)))\<rparr>\<rparr>)"
      by (rule open_ok_world [OF ok txn_redis_keeps [OF former p]])
        (simp_all add: same_look_mono [OF same_txn_redis])
    then show ?thesis using executed good by (simp add: serving_ok_def)
  next
    case (committed ps t p qs db')
    then have "good_txn p" using good by simp
    from statements_keep [OF former_tables [OF former] this committed(4)]
    have "open_ok E look n ((service x)\<lparr>world := (world (service x))\<lparr>w_db := db'\<rparr>\<rparr>)"
      by (intro open_ok_world [OF ok] former_db [OF former]) simp_all
    then show ?thesis using committed good by (simp add: serving_ok_def)
  next
    case (rolled_back ps q qs)
    then show ?thesis using ok good by (simp add: serving_ok_def)
  qed
qed

lemma txn_run_ok:
  assumes "txn_run E look cfg n x" "deployment E look cfg"
  shows "serving_ok E look n x"
  using assms(1)
proof (induction rule: txn_run.induct)
  case (idle n x)
  then show ?case using open_run_ok [OF _ assms(2)] by (simp add: serving_ok_def)
next
  case (further n x k y)
  show ?case by (rule txn_step_keeps [OF further(2,3) assms(2)])
qed

end

text \<open>A run with a transaction that has not executed yet.\<close>

lemma sample_open_txn:
  "txn_run sample_env store_look default_settings 0 \<lparr>service = sample_running, open_txns = [(None, TxLogout None)]\<rparr>"
proof -
  let ?x = "\<lparr>service = sample_running, open_txns = []\<rparr>" and ?c = "LogoutSession ''unknown''"
  let ?h = "logout_session_before sample_env 5 ''unknown''"
  have "refresh_tokens (w_db (world sample_running)) = []"
    using sample_created_world by (simp add: sample_running_def empty_database_def)
  then have run: "?h (world sample_running) = (Inr (TxLogout None), world sample_running)"
    by (simp add: reading_then returning_def logout_read_def get_by_hash_def)
  have "prepare sample_env default_settings (clock (service ?x)) ?c = Some ?h" by (simp add: sample_running_def)
  moreover have "call_ok (w_db (world (service ?x))) ?c" "?h (world (service ?x)) = (Inr (TxLogout None), world sample_running)"
    using run by simp_all
  ultimately have "txn_step sample_env default_settings 0 ?x
      (?x\<lparr>service := (service ?x)\<lparr>world := world sample_running\<rparr>, open_txns := open_txns ?x @ [(None, TxLogout None)]\<rparr>)"
    using txn_step.prepared by blast
  then show ?thesis using txn_run.further [OF txn_run.idle [OF sample_open_run]] by fastforce
qed

section \<open>Properties\<close>

lemma open_of_run:
  assumes "deployment E look cfg" "txn_run E look cfg n x"
  shows "open_ok E look n (service x)"
  using services.txn_run_ok [OF deploymentD(1) [OF assms(1)] assms(2,1)] by (simp add: serving_ok_def)

text \<open>
  C3. With any number of open transactions, background tasks that run late or not at all, and requests between the
  two halves of a flush, the tables still satisfy every constraint, every stored target passed the safety check, the
  click counters are the numbers of stored clicks, and the queue holds well-formed events.
\<close>

theorem interleaved_states_ok:
  assumes "deployment E look cfg" "txn_run E look cfg n x"
  shows "links_ok (w_db (world (service x))) \<and> targets_safe (w_db (world (service x))) \<and>
    counts_agree (w_db (world (service x))) \<and>
    queue_ok E look (clock (service x)) (w_redis (world (service x))) \<and> list_all (good_event E) (batch (service x))"
  by (rule open_ok_states [OF open_of_run [OF assms]])

theorem interleaved_states_ok_witness: "targets_safe (w_db (snd sample_created))"
  using interleaved_states_ok [OF sample_deployment sample_open_txn] by (simp add: sample_running_def)

text \<open>
  C4. The public read paths under the same interleavings, where the cache may be behind or ahead of the table: a
  redirect leads to a target that passed the safety check or is answered 404 or 410, a QR code is answered 200 or
  404, and neither ever answers with a server error.
\<close>

theorem public_reads_safe:
  assumes "deployment E look cfg" "txn_run E look cfg n x"
  shows "(case follow E (clock (service x)) req c (world (service x)) of
            Inr (target, tasks) \<Rightarrow> is_safe_url target
          | Inl e \<Rightarrow> http_status 302 (Inl e :: pystr result) \<in> {404, 410}) \<and>
    fst (serve E cfg (clock (service x)) (QrCode c) (world (service x))) \<in> {200, 404}"
  by (rule open_ok_reads [OF assms(1) open_of_run [OF assms]])

theorem public_reads_safe_witness: "is_safe_url ''https://example.com/''"
proof -
  obtain tasks where
    "follow sample_env 5 sample_request ''my-link'' (snd sample_created) = Inr (''https://example.com/'', tasks)"
    by (rule sample_follow)
  then show ?thesis
    using public_reads_safe [OF sample_deployment sample_open_txn, of sample_request "''my-link''"]
    by (simp add: sample_running_def)
qed

text \<open>
  C5. No click is counted twice: under every interleaving, losses included, the click counters of all links, the
  events in the queue, the batch in the worker's hands and the clicks still to be queued together are at most the
  number of visitors that were redirected.
\<close>

theorem clicks_counted_once:
  assumes "deployment E look cfg" "txn_run E look cfg n x"
    and "redis_server.events_queued look (w_redis (world (service x))) (clock (service x)) es"
  shows "sum_list (map click_count (short_urls (w_db (world (service x))))) +
    int (length es + length (batch (service x)) + waiting (pending (service x))) \<le> int n"
  by (rule open_ok_clicks [OF deploymentD(1) [OF assms(1)] open_of_run [OF assms(1,2)] assms(3)])

theorem clicks_counted_once_witness:
  "sum_list (map click_count (short_urls (w_db (snd sample_created)))) = 0"
proof -
  obtain tasks where t: "open_run sample_env store_look default_settings 1 (sample_running\<lparr>pending := [tasks]\<rparr>)"
    "sum_list (map clicks_of tasks) = 1"
    by (rule sample_followed)
  let ?x = "\<lparr>service = sample_running\<lparr>pending := [tasks]\<rparr>, open_txns = []\<rparr>"
  have q: "redis_server.events_queued store_look (w_redis (world (service ?x))) (clock (service ?x)) []"
    using created_queue by (simp add: sample_running_def)
  have "0 \<le> sum_list (map click_count (short_urls (w_db (snd sample_created))))"
    using sample_created_world by (simp add: new_short_url_def)
  then show ?thesis
    using clicks_counted_once [OF sample_deployment txn_run.idle [OF t(1)] q] t(2) by (simp add: sample_running_def)
qed

end
