(* ===== verification/Races.thy ===== *)
theory Races
  imports Transactions
begin

text \<open>
  Two requests that looked up the same rows before either committed: two creations of one alias, two updates of one
  link, two refreshes with one token.  Each theorem runs the statements of the second on the database that the first
  has left.
\<close>

section \<open>Lookups and statements\<close>

lemma create_read_taken:
  assumes "links_ok db" "links db a = Some s" "c_custom_alias data = Some a" "a \<noteq> []" "is_safe_url (c_original_url data)"
  shows "create_read cfg rng data db =
    Inl (App (ConflictError (''Alias '' @ [CHR 0x27] @ a @ [CHR 0x27] @ '' is already taken'')))"
  using assms(2-5) link.taken_iff [OF assms(1), of a] by (cases a) (simp_all add: create_read_def)

text \<open>The fields of an update that differ from the loaded row, set on another version of it.\<close>

definition merged :: "(int \<Rightarrow> instant) \<Rightarrow> url_update_request \<Rightarrow> short_url \<Rightarrow> short_url \<Rightarrow> short_url" where
  "merged to_utc d loaded current =
     current\<lparr>title := (if u_title d = None \<or> u_title d = title loaded then title current else u_title d),
       expires_at := (case u_expires_at d of
           None \<Rightarrow> expires_at current
         | Some e \<Rightarrow> if url_attr_changes loaded (AttrExpiresAt e) then Some (utc_of to_utc e) else expires_at current),
       is_active := (case u_set_active d of
           None \<Rightarrow> is_active current | Some b \<Rightarrow> if b \<noteq> is_active loaded then b else is_active current),
       is_public := (case u_set_public d of
           None \<Rightarrow> is_public current | Some b \<Rightarrow> if b \<noteq> is_public loaded then b else is_public current)\<rparr>"

lemma fold_merged:
  "fold (url_setattr to_utc) (filter (url_attr_changes loaded) (dump_updates d)) current = merged to_utc d loaded current"
  by (cases "u_title d"; cases "u_expires_at d"; cases "u_set_active d"; cases "u_set_public d")
    (simp_all add: dump_updates_def merged_def)

lemma update_write_merged:
  assumes "update_write to_utc now data loaded db = Inr (s', db')"
  obtains s where "find (\<lambda>s. row_id s = row_id loaded) (short_urls db) = Some s"
    and "s'\<lparr>updated_at := updated_at s\<rparr> = merged to_utc data loaded s"
    and "links_ok db \<Longrightarrow> find (\<lambda>s. row_id s = row_id loaded) (short_urls db') = Some s'"
proof -
  let ?changed = "filter (url_attr_changes loaded) (dump_updates data)"
  let ?find = "\<lambda>db. find (\<lambda>s. row_id s = row_id loaded) (short_urls db)"
  have "?find db \<noteq> None"
  proof
    assume none: "?find db = None"
    show False using assms unfolding update_write_def none Let_def by simp
  qed
  then obtain s where s: "?find db = Some s" by blast
  note row = find_member [OF s]
  show thesis
  proof (cases "?changed = []")
    case True
    then have "s' = s" "db' = db" using assms s by (simp_all add: update_write_def)
    moreover have "merged to_utc data loaded s = s" using fold_merged [of to_utc loaded data s] True by simp
    ultimately show ?thesis using that s by simp
  next
    case False
    then have e: "s' = merged to_utc data loaded s\<lparr>updated_at := now\<rparr>" "db' = update_short_url (row_id loaded) (\<lambda>_. s') db"
      using assms s by (auto simp: update_write_def Let_def fold_merged split: if_splits)
    have id: "row_id s' = row_id loaded" using row by (simp add: e(1) merged_def)
    show ?thesis
    proof (rule that [OF s])
      show "s'\<lparr>updated_at := updated_at s\<rparr> = merged to_utc data loaded s" by (simp add: e(1) merged_def)
      assume "links_ok db"
      then have "distinct (map row_id (short_urls db))" by (intro schema_distinct(1) links_ok_schema)
      moreover have "map row_id (short_urls db') = map row_id (short_urls db)"
        using id by (simp add: e(2) update_short_url_def map_upd_where)
      moreover have "s' \<in> set (short_urls db')"
        using row by (auto simp: e(2) update_short_url_def set_upd_where)
      ultimately show "?find db' = Some s'"
        using find_key [of row_id "short_urls db'" "row_id loaded" "\<lambda>_. True" s'] id by simp
    qed
  qed
qed

text \<open>A token that is unknown to the table can be stored.\<close>

lemma refresh_write_stores:
  assumes "schema_ok db" "auth_library E" "stored \<in> set (refresh_tokens db)" "i \<notin> row_id ` set (refresh_tokens db)"
    and "tok = create_refresh_token E cfg now subject None" "sha256_hex E tok \<notin> token_hash ` set (refresh_tokens db)"
    and "row = new_refresh_row i now (user_id stored) (sha256_hex E tok)
      (now + timedelta_days (REFRESH_TOKEN_EXPIRE_DAYS cfg)) None None"
  shows "\<exists>db'. refresh_write E cfg now i stored (Some subject) db =
      Inr (token_pair cfg (create_access_token E cfg now subject None) tok, db') \<and>
    insert_token row (revoke_token now stored db) = Inr db'"
proof -
  have owner: "user_id stored \<in> row_id ` set (users db)"
    using assms(1,3) by (auto simp: schema_ok_def tokens_ok_def list_all_iff)
  have cols: "refresh_columns row"
    using auth_library.digest_length [OF assms(2)] by (simp add: assms(7) refresh_columns_def new_refresh_row_def)
  have keys: "row_id ` set (refresh_tokens (revoke_token now stored db)) = row_id ` set (refresh_tokens db)"
    "token_hash ` set (refresh_tokens (revoke_token now stored db)) = token_hash ` set (refresh_tokens db)"
    using assms(3) by (auto simp: revoke_token_other [OF assms(1,3)] revoke_def image_iff)
  have "\<exists>db'. insert_token row (revoke_token now stored db) = Inr db'"
    using cols owner assms(4,6) by (simp add: insert_token_def keys) (simp add: assms(7) new_refresh_row_def)
  moreover have "revoke_write now stored db = Inr (revoke_token now stored db)"
    using assms(3) by (auto simp: revoke_write_def)
  ultimately show ?thesis
    by (auto simp: refresh_write_def Let_def create_with_def assms(5,7))
qed

lemma token_hashes_kept:
  assumes "schema_ok db" "insert_token r (revoke_token now t db) = Inr db'" "t \<in> set (refresh_tokens db)"
  shows "row_id ` set (refresh_tokens db') = insert (row_id r) (row_id ` set (refresh_tokens db))"
    and "token_hash ` set (refresh_tokens db') = insert (token_hash r) (token_hash ` set (refresh_tokens db))"
    and "revoke now t \<in> set (refresh_tokens db')"
proof -
  have "refresh_tokens db' = refresh_tokens (revoke_token now t db) @ [r]"
    using assms(2) by (auto simp: insert_token_def split: if_splits)
  then show "row_id ` set (refresh_tokens db') = insert (row_id r) (row_id ` set (refresh_tokens db))"
    "token_hash ` set (refresh_tokens db') = insert (token_hash r) (token_hash ` set (refresh_tokens db))"
    "revoke now t \<in> set (refresh_tokens db')"
    using assms(3) by (auto simp: revoke_token_other [OF assms(1,3)] revoke_def image_iff)
qed

text \<open>What a rotation leaves: the new token is found until it expires, the old one no more, the others as before.\<close>

lemma refresh_write_effect:
  assumes "schema_ok db" "auth_library E" "stored \<in> set (refresh_tokens db)" "i \<notin> row_id ` set (refresh_tokens db)"
    and "h = sha256_hex E (create_refresh_token E cfg now subject None)" "h \<notin> token_hash ` set (refresh_tokens db)"
  obtains r row db' where "refresh_write E cfg now i stored (Some subject) db = Inr (r, db')" "schema_ok db'"
    "user_id row = user_id stored" "revoke now stored \<in> set (refresh_tokens db')"
    "row_id ` set (refresh_tokens db') = insert i (row_id ` set (refresh_tokens db))"
    "token_hash ` set (refresh_tokens db') = insert h (token_hash ` set (refresh_tokens db))"
    "\<And>u h'. get_by_hash u h' db' =
      (if h' = h then Inr (if u < now + timedelta_days (REFRESH_TOKEN_EXPIRE_DAYS cfg) then Some row else None)
       else if h' = token_hash stored then Inr None else get_by_hash u h' db)"
proof -
  let ?row = "new_refresh_row i now (user_id stored) h (now + timedelta_days (REFRESH_TOKEN_EXPIRE_DAYS cfg)) None None"
  obtain r db' where w: "refresh_write E cfg now i stored (Some subject) db = Inr (r, db')"
    "insert_token ?row (revoke_token now stored db) = Inr db'"
    using refresh_write_stores [OF assms(1-4) refl] assms(5,6) by blast
  note revoked = revoke_token_ok [OF assms(1)]
  have row: "row_id ?row = i" "token_hash ?row = h" "user_id ?row = user_id stored"
    "usable u ?row \<longleftrightarrow> u < now + timedelta_days (REFRESH_TOKEN_EXPIRE_DAYS cfg)" for u
    by (simp_all add: new_refresh_row_def usable_def)
  have "get_by_hash u h' db' =
      (if h' = h then Inr (if u < now + timedelta_days (REFRESH_TOKEN_EXPIRE_DAYS cfg) then Some ?row else None)
       else if h' = token_hash stored then Inr None else get_by_hash u h' db)" for u h'
    using get_by_hash_snoc [OF revoked w(2), of u h'] revoke_hides [OF assms(1,3)] revoke_keeps [OF assms(1,3), of h']
    by (auto simp: row)
  with that [OF w(1) insert_token_ok [OF revoked w(2)] row(3)] token_hashes_kept [OF assms(1) w(2) assms(3)] row
  show thesis by simp
qed

lemma refresh_write_revoked: "refresh_write E cfg now i (revoke t stored) subj db = refresh_write E cfg now i stored subj db"
proof -
  have "row_id (revoke t stored) = row_id stored" "user_id (revoke t stored) = user_id stored"
    by (simp_all add: revoke_def)
  then show ?thesis by (cases subj) (simp_all add: refresh_write_def revoke_write_def revoke_token_def)
qed

text \<open>Ada's token of second 0 presented twice, in seconds 1 and 2.\<close>

lemma ada_more_digests:
  "sample_digest (ada_token 2) \<noteq> sample_digest (ada_token 0)" "sample_digest (ada_token 2) \<noteq> sample_digest (ada_token 1)"
  by code_simp+

lemma follow_cached:
  assumes "url_cache_get E now c (w_redis w) = Inr (Some (serialize s))" "expires_at s = None" "c \<notin> set reserved_paths"
  shows "\<exists>tasks. follow E now req c w = Inr (original_url s, tasks)"
  using assms guard_expiry_serialize [of s now]
  by (simp add: follow_def resolve_def resolve_from_def dict_item_def uuid_of_json_def str_of_json_def expiry_in_range_def unexpired_def)

text \<open>
  The cache is written before the commit: after a creation whose commit fails, its code redirects, for the time to
  live, to a link that the table never had.
\<close>

lemma rolled_back_link_redirects:
  assumes "services E look cfg" "open_txns x = [(None, TxCreate i data owner sc)]"
    and "txn_statements E cfg (clock (service x)) (TxCreate i data owner sc) (w_db (world (service x))) = Inr db'"
    and "links_ok (w_db (world (service x)))" "c_expires_at data = None" "sc \<notin> set reserved_paths"
  obtains y z tasks where "txn_step E cfg 0 x y" "txn_step E cfg 0 y z" "open_txns z = []"
    "w_db (world (service z)) = w_db (world (service x))" "links (w_db (world (service z))) sc = None"
    "follow E (clock (service z)) req sc (world (service z)) = Inr (c_original_url data, tasks)"
proof -
  let ?now = "clock (service x)" and ?p = "TxCreate i data owner sc" and ?w = "world (service x)"
  let ?s = "new_short_url i ?now (c_original_url data) sc (c_custom_alias data) (c_title data) owner (c_is_public data) (c_expires_at data)"
  define y where "y = x\<lparr>service := (service x)\<lparr>world := ?w\<lparr>w_redis := txn_redis E cfg ?now ?p (w_redis ?w)\<rparr>\<rparr>,
      open_txns := [(Some ?now, ?p)]\<rparr>"
  define z where "z = y\<lparr>open_txns := []\<rparr>"
  have steps: "txn_step E cfg 0 x y" "txn_step E cfg 0 y z"
    using txn_step.executed [of x "[]" ?p "[]" E cfg db'] txn_step.rolled_back [of y "[]" _ "[]" E cfg] assms(2,3)
    by (simp_all add: y_def z_def)
  obtain s where "create_write ?now i data owner sc (w_db ?w) = Inr (s, db')"
    using assms(3) by (auto simp: map_sum_id_snd split: sum.splits)
  note w = create_write_effect [OF assms(4) this]
  have free: "links (w_db ?w) sc = None"
    using w(1,4) by (auto simp: links_None_iff insert_short_url_def new_short_url_def split: if_splits)
  have now: "0 < timedelta_seconds (URL_CACHE_TTL cfg)"
    using services.axioms(1) [OF assms(1)] by (simp add: shortener_redis_def shortener_redis_axioms_def timedelta_seconds_def usec_def)
  have "url_cache_get E ?now sc (txn_redis E cfg ?now ?p (w_redis ?w)) = Inr (Some (serialize ?s))"
    using shortener_redis.read_after_write [OF services.axioms(1) [OF assms(1)] serialize_wf order_refl] now by simp
  then have "\<exists>tasks. follow E ?now req sc (?w\<lparr>w_redis := txn_redis E cfg ?now ?p (w_redis ?w)\<rparr>) = Inr (c_original_url data, tasks)"
    using follow_cached [of E ?now sc "?w\<lparr>w_redis := txn_redis E cfg ?now ?p (w_redis ?w)\<rparr>" ?s req] assms(5,6)
    by (simp add: new_short_url_def)
  then show thesis
    using that [OF steps] free by (auto simp: y_def z_def)
qed

section \<open>Properties\<close>

text \<open>
  C17. A refresh token can be spent twice: of two requests that have looked it up before either commits, both succeed
  when they run in different seconds, and both new tokens are accepted afterwards, although a request that comes
  after the first commit is refused.
\<close>

theorem refresh_used_twice:
  assumes "schema_ok db" "auth_library E" "refresh_read E cfg t raw db = Inr (stored, Some subject)"
    and "i \<notin> row_id ` set (refresh_tokens db)" "j \<notin> row_id ` set (refresh_tokens db)" "i \<noteq> j"
    and "h1 = sha256_hex E (create_refresh_token E cfg t1 subject None)" "h1 \<notin> token_hash ` set (refresh_tokens db)"
    and "h2 = sha256_hex E (create_refresh_token E cfg t2 subject None)" "h2 \<notin> token_hash ` set (refresh_tokens db)"
    and "h1 \<noteq> h2"
  shows "\<exists>r1 db1 r2 db2. refresh_write E cfg t1 i stored (Some subject) db = Inr (r1, db1) \<and>
    refresh_write E cfg t2 j stored (Some subject) db1 = Inr (r2, db2) \<and>
    (\<forall>u. \<exists>s1 s2. user_id s1 = user_id stored \<and> user_id s2 = user_id stored \<and>
       get_by_hash u h1 db2 = Inr (if u < t1 + timedelta_days (REFRESH_TOKEN_EXPIRE_DAYS cfg) then Some s1 else None) \<and>
       get_by_hash u h2 db2 = Inr (if u < t2 + timedelta_days (REFRESH_TOKEN_EXPIRE_DAYS cfg) then Some s2 else None)) \<and>
    (\<forall>u. refresh_read E cfg u raw db1 = Inl (auth_error ''Invalid or expired refresh token''))"
proof -
  have "get_by_hash t (sha256_hex E raw) db = Inr (Some stored)"
    using assms(3) by (auto simp: refresh_read_def split: sum.splits option.splits if_splits)
  then have stored: "stored \<in> set (refresh_tokens db)" "token_hash stored = sha256_hex E raw"
    by (auto simp: get_by_hash_iff [OF assms(1)])
  obtain r1 row1 db1 where w1: "refresh_write E cfg t1 i stored (Some subject) db = Inr (r1, db1)" "schema_ok db1"
    "user_id row1 = user_id stored" "revoke t1 stored \<in> set (refresh_tokens db1)"
    "row_id ` set (refresh_tokens db1) = insert i (row_id ` set (refresh_tokens db))"
    "token_hash ` set (refresh_tokens db1) = insert h1 (token_hash ` set (refresh_tokens db))"
    "\<And>u h'. get_by_hash u h' db1 =
      (if h' = h1 then Inr (if u < t1 + timedelta_days (REFRESH_TOKEN_EXPIRE_DAYS cfg) then Some row1 else None)
       else if h' = token_hash stored then Inr None else get_by_hash u h' db)"
    by (rule refresh_write_effect [OF assms(1,2) stored(1) assms(4,7,8)]) blast
  have fresh: "j \<notin> row_id ` set (refresh_tokens db1)" "h2 \<notin> token_hash ` set (refresh_tokens db1)"
    using assms(5,6,10,11) by (simp_all add: w1(5,6))
  obtain r2 row2 db2 where w2: "refresh_write E cfg t2 j stored (Some subject) db1 = Inr (r2, db2)"
    "user_id row2 = user_id stored"
    "\<And>u h'. get_by_hash u h' db2 =
      (if h' = h2 then Inr (if u < t2 + timedelta_days (REFRESH_TOKEN_EXPIRE_DAYS cfg) then Some row2 else None)
       else if h' = token_hash stored then Inr None else get_by_hash u h' db1)"
    by (rule refresh_write_effect [OF w1(2) assms(2) w1(4) fresh(1) assms(9) fresh(2)])
      (simp add: refresh_write_revoked, simp add: revoke_def)
  have h1: "h1 \<noteq> token_hash stored" using assms(8) stored(1) by blast
  have "\<forall>u. \<exists>s1 s2. user_id s1 = user_id stored \<and> user_id s2 = user_id stored \<and>
       get_by_hash u h1 db2 = Inr (if u < t1 + timedelta_days (REFRESH_TOKEN_EXPIRE_DAYS cfg) then Some s1 else None) \<and>
       get_by_hash u h2 db2 = Inr (if u < t2 + timedelta_days (REFRESH_TOKEN_EXPIRE_DAYS cfg) then Some s2 else None)"
    by (rule allI, rule exI [of _ row1], rule exI [of _ row2]) (use h1 assms(11) in \<open>simp add: w1(3,7) w2(2,3)\<close>)
  moreover have "\<forall>u. refresh_read E cfg u raw db1 = Inl (auth_error ''Invalid or expired refresh token'')"
    using h1 stored(2) by (simp add: refresh_read_def w1(7))
  ultimately show ?thesis using w1(1) w2(1) by blast
qed

theorem refresh_used_twice_witness:
  "\<exists>r1 db1 r2 db2. refresh_write sample_env default_settings usec 2 (ada_session 0 1) (Some (str_uuid 7)) (w_db ada_session_world) = Inr (r1, db1) \<and>
     refresh_write sample_env default_settings (2 * usec) 3 (ada_session 0 1) (Some (str_uuid 7)) db1 = Inr (r2, db2)"
proof -
  have tok: "ada_session 0 1 \<in> set (refresh_tokens (w_db ada_session_world))"
    "refresh_tokens (w_db ada_session_world) = [ada_session 0 1]"
    by (simp_all add: ada_session_world_def ada_world_def ada_db_def)
  have f: "token_hash (ada_session 0 1) = sample_digest (ada_token 0)" "row_id (ada_session 0 1) = 1" "usable 0 (ada_session 0 1)"
    by (simp_all add: ada_session_def new_refresh_row_def usable_def timedelta_days_def usec_def)
  have g: "get_by_hash 0 (sample_digest (ada_token 0)) (w_db ada_session_world) = Inr (Some (ada_session 0 1))"
    using tok f by (simp add: get_by_hash_iff [OF ada_session_ok])
  have "decode_token sample_env default_settings 0 (ada_token 0) =
      Inr \<lparr>sub = Some (str_uuid 7), exp_claim = 2592000, type_claim = Some ''refresh''\<rparr>"
    using sample_auth.decode_encode [of 0 "''change-this-secret-key''" "''HS256''"
        "\<lparr>sub = Some (str_uuid 7), exp_claim = 2592000, type_claim = Some ''refresh''\<rparr>"]
    by (simp add: decode_token_def ada_token_def default_settings_simps sample_env_simps usec_def)
  then have "refresh_read sample_env default_settings 0 (ada_token 0) (w_db ada_session_world) =
      Inr (ada_session 0 1, Some (str_uuid 7))"
    using g by (simp add: refresh_read_def sample_env_simps)
  moreover have "create_refresh_token sample_env default_settings usec (str_uuid 7) None = ada_token 1"
    "create_refresh_token sample_env default_settings (2 * usec) (str_uuid 7) None = ada_token 2"
    using ada_refresh_token [of 1] ada_refresh_token [of 2] by simp_all
  ultimately show ?thesis
    using refresh_used_twice [OF ada_session_ok sample_auth.auth_library_axioms, of default_settings 0 "ada_token 0"
        "ada_session 0 1" "str_uuid 7" 2 3 "sample_digest (ada_token 1)" usec "sample_digest (ada_token 2)" "2 * usec"]
      ada_digests ada_more_digests
    by (simp add: tok(2) f sample_env_simps) blast
qed

text \<open>
  C20. Two creations of one alias that both found it free: the second to commit is answered 500, not the 409 that it
  gets when it comes after the first, and the alias leads to the link of the first.
\<close>

theorem alias_race_is_500:
  assumes "links_ok db" "create_read cfg rng1 d1 db = Inr a" "create_read cfg rng2 d2 db = Inr a"
    and "c_custom_alias d1 = Some a" "c_custom_alias d2 = Some a" "valid_create d1" "valid_create d2"
    and "create_write t1 i d1 o1 a db = Inr (s, db1)"
  shows "create_write t2 j d2 o2 a db1 = Inl IntegrityError \<and> http_status 201 (Inl IntegrityError :: short_url result) = 500 \<and>
    http_status 201 (create_read cfg rng2 d2 db1) = 409 \<and> links db1 a = Some s \<and> original_url s = c_original_url d1"
proof -
  note w = create_write_effect [OF assms(1,8)]
  have s: "short_code s = a" "custom_alias s = Some a" "original_url s = c_original_url d1"
    using w(1) assms(4) by (simp_all add: new_short_url_def)
  have in1: "s \<in> set (short_urls db1)" by (simp add: w(2))
  have ok1: "links_ok db1"
    by (rule insert_links_ok [OF assms(1) w(4)]) (simp add: s alias_is_code_def)
  have found: "links db1 a = Some s" using links_in [OF links_ok_schema [OF ok1] in1] s(1) by simp
  have a: "a \<noteq> []" "length a \<le> 50" using assms(6) unfolding valid_create_def assms(4) by auto
  have "is_safe_url (c_original_url d2)" using assms(3) by (auto simp: create_read_def split: if_splits)
  then have "http_status 201 (create_read cfg rng2 d2 db1) = 409"
    using create_read_taken [OF ok1 found assms(5) a(1)] by (simp add: http_status_def)
  moreover have "create_write t2 j d2 o2 a db1 = Inl IntegrityError"
    using in1 s(1) assms(5,7) a(2)
    by (auto simp: create_write_def create_with_def insert_short_url_def new_short_url_def short_url_columns_def
        valid_create_def image_iff)
  ultimately show ?thesis using found s(3) by (simp add: http_status_def)
qed

theorem alias_race_is_500_witness:
  "\<exists>s db1. create_write 5 1 sample_create None ''my-link'' empty_database = Inr (s, db1) \<and>
     create_write 5 2 sample_create None ''my-link'' db1 = Inl IntegrityError"
proof -
  have none: "short_urls empty_database = []" by (simp add: empty_database_def)
  have "short_code_exists ''my-link'' empty_database = Inr False"
    by (simp add: short_code_exists_def none)
  then have read: "create_read default_settings (\<lambda>i j. j) sample_create empty_database = Inr ''my-link''"
    using sample_create_safe by (simp add: create_read_def sample_create_def)
  have al: "c_custom_alias sample_create = Some ''my-link''" by (simp add: sample_create_def)
  obtain s db1 where w: "create_write 5 1 sample_create None ''my-link'' empty_database = Inr (s, db1)"
    by (simp add: create_write_def create_with_def insert_short_url_def short_url_columns_def new_short_url_def
        sample_create_def none)
  show ?thesis
    using alias_race_is_500 [OF empty_links_ok read read al al sample_create_valid sample_create_valid w, of 5 2 None] w by blast
qed

text \<open>
  C21. Two updates that loaded the same version of a link: the second sets just the fields in which it differs from
  that version, on top of what the first has written, so changes of different fields are both kept, and a field that
  asks for the loaded value is skipped although the first update has changed it.
\<close>

theorem concurrent_updates_merge:
  assumes "links_ok db" "s \<in> set (short_urls db)"
    and "update_write to_utc t1 d1 s db = Inr (s1, db1)" "update_write to_utc t2 d2 s db1 = Inr (s2, db2)"
  shows "find (\<lambda>r. row_id r = row_id s) (short_urls db2) = Some s2 \<and>
    s2\<lparr>updated_at := updated_at s\<rparr> = merged to_utc d2 s (merged to_utc d1 s s) \<and>
    (u_title d2 = title s \<longrightarrow> title s2 = title s1)"
proof -
  have "find (\<lambda>r. row_id r = row_id s) (short_urls db) = Some s"
    using find_key [OF schema_distinct(1) [OF links_ok_schema [OF assms(1)]], of "row_id s" "\<lambda>_. True" s] assms(2) by simp
  then have one: "s1\<lparr>updated_at := updated_at s\<rparr> = merged to_utc d1 s s"
    "find (\<lambda>r. row_id r = row_id s) (short_urls db1) = Some s1"
    using update_write_merged [OF assms(3)] assms(1) by (metis option.inject)+
  obtain c where c: "c \<in> set (short_urls db)" "row_id c = row_id s" "same_keys c s1" "short_url_columns s1"
    "db1 = update_short_url (row_id c) (\<lambda>_. s1) db"
    by (rule update_write_effect [OF assms(1,3)]) blast
  have ok1: "links_ok db1" unfolding c(5) by (rule update_links_ok [OF assms(1) c(1,3,4)])
  have two: "s2\<lparr>updated_at := updated_at s1\<rparr> = merged to_utc d2 s s1"
    "find (\<lambda>r. row_id r = row_id s) (short_urls db2) = Some s2"
    using update_write_merged [OF assms(4)] ok1 one(2) by (metis option.inject)+
  have "merged to_utc d2 s (x\<lparr>updated_at := n\<rparr>) = merged to_utc d2 s x\<lparr>updated_at := n\<rparr>" for x n
    by (cases x; cases "u_expires_at d2"; cases "u_set_active d2"; cases "u_set_public d2") (simp_all add: merged_def)
  then have "merged to_utc d2 s (merged to_utc d1 s s) = merged to_utc d2 s s1\<lparr>updated_at := updated_at s\<rparr>"
    using one(1) by metis
  moreover have "s2\<lparr>updated_at := updated_at s\<rparr> = (s2\<lparr>updated_at := updated_at s1\<rparr>)\<lparr>updated_at := updated_at s\<rparr>"
    by simp
  ultimately have "s2\<lparr>updated_at := updated_at s\<rparr> = merged to_utc d2 s (merged to_utc d1 s s)"
    unfolding two(1) by simp
  moreover have "title s2 = title (merged to_utc d2 s s1)" unfolding two(1) [symmetric] by simp
  then have "u_title d2 = title s \<longrightarrow> title s2 = title s1" by (simp add: merged_def)
  ultimately show ?thesis using two(2) by blast
qed

theorem concurrent_updates_merge_witness:
  "\<exists>s1 db1 s2 db2. update_write (\<lambda>n. 0) 1 sample_update sample_link sample_db = Inr (s1, db1) \<and>
     update_write (\<lambda>n. 0) 2 (sample_update\<lparr>u_set_active := None, u_title := Some ''New''\<rparr>) sample_link db1 = Inr (s2, db2) \<and>
     title s2 = Some ''New'' \<and> \<not> is_active s2"
proof -
  let ?d2 = "sample_update\<lparr>u_set_active := None, u_title := Some ''New''\<rparr>"
  obtain s1 db1 where w1: "update_write (\<lambda>n. 0) 1 sample_update sample_link sample_db = Inr (s1, db1)"
    by (simp add: update_write_def dump_updates_def sample_update_def sample_link_def new_short_url_def sample_db_def
        short_url_columns_def)
  obtain s2 db2 where w2: "update_write (\<lambda>n. 0) 2 ?d2 sample_link db1 = Inr (s2, db2)"
    using w1 by (auto simp: update_write_def dump_updates_def sample_update_def sample_link_def new_short_url_def sample_db_def
        short_url_columns_def update_short_url_def upd_where_def)
  have "sample_link \<in> set (short_urls sample_db)" by (simp add: sample_db_def)
  from concurrent_updates_merge [OF sample_db_ok this w1 w2]
  have "s2\<lparr>updated_at := updated_at sample_link\<rparr> = merged (\<lambda>n. 0) ?d2 sample_link (merged (\<lambda>n. 0) sample_update sample_link sample_link)"
    by blast
  then have "title (s2\<lparr>updated_at := updated_at sample_link\<rparr>) = Some ''New''" "\<not> is_active (s2\<lparr>updated_at := updated_at sample_link\<rparr>)"
    by (simp_all add: merged_def sample_update_def sample_link_def new_short_url_def)
  then show ?thesis using w1 w2 by auto
qed

end
