(* ===== verification/Unreliable.thy ===== *)
theory Unreliable
  imports Failures Races
begin

text \<open>
  The running service over an unreliable connection, as a step relation with its reachable states, and a click whose
  background tasks fail.
\<close>

section \<open>Steps and reachable states\<close>

text \<open>
  The steps of \<open>System\<close> with failing commands.  Every step may find other scripts loaded in the server, so a restart
  of Redis that keeps its data needs no step of its own.
\<close>

inductive shaky_step ::
  "('r, 'x) ext_scheme \<Rightarrow> settings \<Rightarrow> ((nat \<Rightarrow> failure option) \<Rightarrow> bool) \<Rightarrow> 'r state \<Rightarrow> 'r state \<Rightarrow> bool"
  for E cfg fails where
  tick: "t \<le> t' \<Longrightarrow> t' < max_instant \<Longrightarrow> shaky_step E cfg fails (t, s, w) (t', s, w)"
| request: "fails p \<Longrightarrow> call_ok (w_db w) c \<Longrightarrow>
    shaky_step E cfg fails (t, s, w) (t, s, plain (snd (serve_call E cfg t c (connect p loaded w))))"
| start: "shaky_step E cfg fails (t, s, w) (t, start_worker s, w)"
| iterate: "fails p \<Longrightarrow>
    shaky_step E cfg fails (t, Running, w) (t, Running, plain (snd (run_iteration_call E cfg t ids (connect p loaded w))))"
| stop: "fails p \<Longrightarrow> stop_worker_call E cfg t ids in_flush s (connect p loaded w) = (res, s', w') \<Longrightarrow>
    shaky_step E cfg fails (t, s, w) (t, s', plain w')"

inductive shaky_reach ::
  "('r, 'x) ext_scheme \<Rightarrow> ('r \<Rightarrow> instant \<Rightarrow> pystr \<Rightarrow> redis_value option) \<Rightarrow> settings \<Rightarrow>
   ((nat \<Rightarrow> failure option) \<Rightarrow> bool) \<Rightarrow> 'r state \<Rightarrow> bool"
  for E look cfg fails where
  empty: "0 \<le> t \<Longrightarrow> t < max_instant \<Longrightarrow> (\<And>u k. look r u k = None) \<Longrightarrow>
    shaky_reach E look cfg fails (t, Stopped, \<lparr>w_db = empty_database, w_redis = r\<rparr>)"
| further: "shaky_reach E look cfg fails x \<Longrightarrow> shaky_step E cfg fails x y \<Longrightarrow> shaky_reach E look cfg fails y"

lemma shaky_step_keeps:
  assumes "shaky_step E cfg fails (t, s, w) (t', s', w')" "deployment E look cfg" "cached_services E look cfg promise"
    and "\<And>p. fails p \<Longrightarrow> tolerates promise p"
    and "service_ok_with promise E look t w" "0 \<le> t" "t < max_instant"
  shows "service_ok_with promise E look t' w' \<and> 0 \<le> t' \<and> t' < max_instant"
  using assms(1)
proof (cases rule: shaky_step.cases)
  case tick
  then show ?thesis using cached_services.service_ok_later [OF assms(3,5)] assms(6) by simp
next
  case (request p c loaded)
  then show ?thesis
    using cached_services.serve_call_keeps [OF assms(3,2), of t "connect p loaded w" c] assms(4-7) by simp
next
  case start
  then show ?thesis using assms(5-7) by simp
next
  case (iterate p ids loaded)
  then show ?thesis
    using cached_services.flush_call_keeps(1) [OF assms(3) _ deploymentD(3) [OF assms(2)], of t "connect p loaded w" ids] assms(5-7)
    by (simp add: run_iteration_call_def catching_def)
next
  case (stop p ids in_flush loaded res u)
  then show ?thesis
    using cached_services.stop_call_keeps [OF assms(3) _ deploymentD(3) [OF assms(2)], of t "connect p loaded w" ids in_flush s] assms(5-7)
    by simp
qed

lemma shaky_reach_ok:
  assumes "shaky_reach E look cfg fails x" "deployment E look cfg" "cached_services E look cfg promise"
    and "\<And>p. fails p \<Longrightarrow> tolerates promise p"
  shows "service_ok_with promise E look (fst x) (snd (snd x)) \<and> 0 \<le> fst x \<and> fst x < max_instant"
  using assms(1)
proof (induction rule: shaky_reach.induct)
  case (empty t r)
  then show ?case using cached_services.empty_service_ok [OF assms(3)] by simp
next
  case (further x y)
  then show ?case using shaky_step_keeps [OF _ assms(2-4)] by (cases x; cases y) auto
qed

lemma follow_call_safe:
  assumes "former_ok E look now w" "fst (redirect_call E cfg now req c (connect p loaded w)) = Inr target"
  shows "is_safe_url target"
proof -
  have "fst (redirect E cfg now req c w) = Inr target"
    using assms(2) by (cases rule: redirect_call_cases [of E cfg now req c "connect p loaded w"]) auto
  then show ?thesis
    using follow_former [OF assms(1), of req c] by (auto simp: redirect_follow split: sum.splits prod.splits)
qed

section \<open>A click whose tasks fail\<close>

text \<open>The tasks before the click is queued leave the queue alone, and the first that fails is the last.\<close>

lemma tasks_append:
  "run_tasks_call E cfg now (ts @ us) = and_then (run_tasks_call E cfg now ts) (\<lambda>_. run_tasks_call E cfg now us)"
proof (induction ts)
  case Nil
  then show ?case by (rule ext) (simp add: and_then_def returning_def)
next
  case (Cons t ts)
  show ?case by (rule ext) (simp add: Cons and_then_def split: prod.split sum.split)
qed

context services
begin

lemma queue_before_click:
  assumes "events_queued (keys (server (w_redis w))) now es" "\<And>t i ip agent refer. t \<in> set ts \<Longrightarrow> t \<noteq> EnqueueClick i ip agent refer"
  shows "events_queued (keys (server (w_redis (snd (run_tasks_call E cfg now ts w))))) now es"
proof -
  let ?I = "\<lambda>w. events_queued (w_redis w) now es"
  have frame: "events_queued r' now es" if "events_queued r now es" "same_look look (- url_keys) now r r'" for r r'
    by (rule queued_frame [OF that(1)]) (use same_lookD [OF that(2)] in simp)
  have hot: "same_look look (- url_keys) now r (snd (redis_incr E now (hot_key c) r))"
    "same_look look (- url_keys) now r (redis_expire E now (hot_key c) 3600 r)"
    "same_look look (- url_keys) now r (redis_expire E now (url_key c) (URL_CACHE_TTL cfg * 2) r)" for c r
    by (auto simp: same_look_def url_keys_def look_expire intro!: look_incr_other)
  have "harmless (\<lambda>_. True) ?I db (run_tasks_call E cfg now ts)" for db
    using assms(2)
  proof (induction ts)
    case Nil
    then show ?case by (simp add: harmless_quiet)
  next
    case (Cons t ts)
    have "harmless (\<lambda>_. True) ?I db (run_task_call E cfg now t)"
    proof (cases t)
      case (CacheSet c v)
      then show ?thesis using frame [OF _ same_url_set] by (auto intro: harmless_sending)
    next
      case (TrackClick c)
      then show ?thesis
        using frame [OF _ hot(1)] frame [OF _ hot(2)] frame [OF _ hot(3)]
        by (auto simp: track_click_call_def intro!: harmless_then harmless_call harmless_sending harmless_quiet)
    qed (use Cons.prems in auto)
    then show ?case using Cons by (auto intro: harmless_then)
  qed
  from this [unfolded harmless_def, rule_format, of w] assms(1) show ?thesis by simp
qed

end

lemma second_fails:
  assumes "sent (w_redis w) = 1" "plan (w_redis w) 1 \<noteq> None \<or> plan (w_redis w) 2 \<noteq> None"
  shows "\<exists>e. fst (run_tasks_call E cfg now (if hit then [TrackClick c] else [CacheSet c v, TrackClick c]) w) = Inl e"
proof (cases "plan (w_redis w) 1")
  case None
  then have "plan (w_redis w) (Suc 1) \<noteq> None" using assms(2) by (simp add: numeral_2_eq_2)
  then obtain f where "plan (w_redis w) (Suc 1) = Some f" by auto
  then show ?thesis
    using assms(1) None
    by (cases f) (simp_all add: and_then_def sending_def track_click_call_def call_simps on_keys_def split: prod.split)
next
  case (Some f)
  then show ?thesis
    using assms(1) by (cases f) (simp_all add: and_then_def sending_def track_click_call_def call_simps)
qed

section \<open>A creation without an answer\<close>

text \<open>
  The one failure that breaks the agreement of cache and table: a creation whose last command is executed but not
  answered is rolled back and answered 500, and its code redirects nevertheless.
\<close>

lemma unanswered_creation_redirects:
  assumes "services E look cfg" "plan (w_redis w) (sent (w_redis w)) = Some Unanswered"
    and "url_create E cfg now i rng data owner (plain w) = (Inr r, w1)"
    and "c_expires_at data = None" "r_short_code r \<notin> set reserved_paths"
    and "with_session (url_create_call E cfg now i rng data owner) w = (res, w2)"
  shows "res = Inl RedisConnectionError \<and> w_db w2 = w_db w \<and>
    (\<exists>tasks. follow E now req (r_short_code r) (plain w2) = Inr (r_original_url r, tasks))"
proof -
  obtain sc url db' where c: "create_read cfg rng data (w_db w) = Inr sc" "create_write now i data owner sc (w_db w) = Inr (url, db')"
    "r = to_response cfg url"
    using assms(3) unfolding url_create_steps
    by (auto simp: and_then_def reading_def writing_def updating_def returning_def split: sum.splits prod.splits)
  have url: "short_code url = sc" "original_url url = c_original_url data" "expires_at url = None"
    using c(2) assms(4) by (auto simp: create_write_def create_with_Inr new_short_url_def)
  have w2: "res = Inl RedisConnectionError" "w_db w2 = w_db w"
    "w_redis (plain w2) = url_cache_set E cfg now sc (serialize url) None (w_redis (plain w))"
    using assms(2,6) c
    by (auto simp: url_create_call_def and_then_def reading_def writing_def sending_def call_simps on_keys_def with_session_def)
  have "0 < timedelta_seconds (URL_CACHE_TTL cfg)"
    using services.axioms(1) [OF assms(1)] by (simp add: shortener_redis_def shortener_redis_axioms_def timedelta_seconds_def usec_def)
  then have "url_cache_get E now sc (w_redis (plain w2)) = Inr (Some (serialize url))"
    unfolding w2(3) using shortener_redis.read_after_write [OF services.axioms(1) [OF assms(1)] serialize_wf order_refl] by simp
  then show ?thesis
    using follow_cached [of E now sc "plain w2" url req] assms(5) w2 url c(3) by (simp add: to_response_def)
qed

section \<open>Properties\<close>

text \<open>
  C6. In every state that the service reaches while any commands to Redis fail, sent or not, the tables satisfy every
  constraint, every stored target passed the safety check, the counters are the numbers of stored clicks, the queue
  holds well-formed events, and a redirect leads to a target that passed the check.  As long as no command is executed
  without an answer, a cached payload is moreover the current row of its code.
\<close>

theorem unreliable_states_ok:
  assumes "deployment E look cfg" "shaky_reach E look cfg fails (t, s, w)"
  shows "links_ok (w_db w) \<and> targets_safe (w_db w) \<and> counts_agree (w_db w) \<and> queue_ok E look t (w_redis w) \<and>
    (\<forall>p loaded req c target.
       fst (redirect_call E cfg t req c (connect p loaded w)) = Inr target \<longrightarrow> is_safe_url target) \<and>
    ((\<forall>p. fails p \<longrightarrow> answered p) \<longrightarrow> world_ok E t w)"
proof -
  note d = deploymentD(1) [OF assms(1)]
  have former: "former_ok E look t w"
    using shaky_reach_ok [OF assms(2,1) services.cached_services_former [OF d]] by (simp add: tolerates_def)
  moreover have "world_ok E t w" if "\<forall>p. fails p \<longrightarrow> answered p"
    using shaky_reach_ok [OF assms(2,1) services.cached_services_agree [OF d]] that
    by (auto simp: tolerates_def intro: service_ok_world)
  ultimately show ?thesis using service_okD [OF former] follow_call_safe by blast
qed

theorem unreliable_states_ok_witness:
  "targets_safe (w_db (snd (serve_call sample_env default_settings 5 (CreateUrl 9 1 (\<lambda>i j. j) sample_request None sample_body)
     (connect (\<lambda>n. if n = 2 then Some Unanswered else None) [] empty_world))))"
proof -
  have "shaky_reach sample_env store_look default_settings (\<lambda>_. True) (5, Stopped, empty_world)"
    using shaky_reach.empty [of 5 store_look "\<lambda>_. None" sample_env default_settings "\<lambda>_. True"]
    by (simp add: empty_world_def max_instant_def usec_def store_look_def)
  note shaky_reach.further [OF this shaky_step.request [OF TrueI sample_call_ok]]
  from unreliable_states_ok [OF sample_deployment this] show ?thesis by simp
qed

text \<open>
  C27. A failed task loses the click: once the cache has answered, the visitor is redirected whatever happens, but when
  one of the next two commands (filling the cache, counting the click for the hot links) fails, the event is not even
  offered to the queue, although the task that queues it catches its own exceptions.
\<close>

theorem failed_task_drops_click:
  assumes "services E look cfg" "world_ok E now w" "c \<notin> set reserved_paths" "links (w_db w) c = Some s" "live now s"
    and "redis_server.events_queued look (w_redis w) now es" "p 0 = None"
    and "redirect_call E cfg now req c (connect p loaded w) = (res, w')"
  shows "res = Inr (original_url s) \<and> w_db w' = w_db w \<and>
    (p 1 \<noteq> None \<or> p 2 \<noteq> None \<longrightarrow> redis_server.events_queued look (w_redis (plain w')) now es) \<and>
    ((\<forall>n. p n = None) \<longrightarrow> redis_server.events_queued look (w_redis (plain w')) now
       (es @ [clicked_event E now (row_id s) (redirect_ip req) (h_user_agent req) (h_referer req)]))"
proof -
  let ?w = "connect p loaded w" and ?ip = "redirect_ip req" and ?ua = "h_user_agent req" and ?ref = "h_referer req"
  define hit where "hit \<longleftrightarrow> url_cache_get E now c (w_redis w) \<noteq> Inr None"
  obtain w1 where q: "querying (url_cache_get E now c) ?w = (Inr (url_cache_get E now c (w_redis w)), w1)"
    "plain w1 = w" "sent (w_redis w1) = 1" "plan (w_redis w1) = p"
    using assms(7) by (auto simp: querying_def call_def connect_def on_keys_def plain_def)
  have db: "w_db w1 = w_db w" using arg_cong [OF q(2), of w_db] by simp
  have "resolve E now c ?ip ?ua ?ref w = Inr (original_url s, resolve_tasks hit c s ?ip ?ua ?ref)"
    using resolve_world_ok [OF assms(2) hit_def, of ?ip ?ua ?ref] assms(4,5) by simp
  then obtain answer where answer: "url_cache_get E now c (w_redis w) = Inr answer"
    "resolve_from now c ?ip ?ua ?ref answer (w_db w) = Inr (original_url s, resolve_tasks hit c s ?ip ?ua ?ref)"
    by (auto simp: resolve_def split: sum.splits)
  let ?pre = "if hit then [TrackClick c] else [CacheSet c (serialize s), TrackClick c]"
  let ?tasks = "?pre @ [EnqueueClick (row_id s) ?ip ?ua ?ref]"
  have out: "res = Inr (original_url s)" "w' = snd (run_tasks_call E cfg now ?tasks w1)"
    using assms(3,8) q(1) answer db
    by (auto simp: redirect_call_def and_then_def returning_def reading_def catching_def resolve_tasks_def)
  have "redis_server.events_queued look (w_redis (plain w')) now es" if "p 1 \<noteq> None \<or> p 2 \<noteq> None"
  proof -
    have "plan (w_redis w1) 1 \<noteq> None \<or> plan (w_redis w1) 2 \<noteq> None" using that q(4) by simp
    then obtain e where "fst (run_tasks_call E cfg now ?pre w1) = Inl e"
      using second_fails [OF q(3), of E cfg now hit c "serialize s"] by blast
    then have "w' = snd (run_tasks_call E cfg now ?pre w1)"
      unfolding out(2) tasks_append by (auto simp: and_then_def split: prod.splits)
    then show ?thesis
      using services.queue_before_click [OF assms(1), of w1 now es ?pre] arg_cong [OF q(2), of w_redis] assms(6)
      by (auto split: if_splits)
  qed
  moreover have "redis_server.events_queued look (w_redis (plain w')) now
       (es @ [clicked_event E now (row_id s) ?ip ?ua ?ref])" if "\<forall>n. p n = None"
  proof -
    have "healthy ?w" using that by (simp add: healthy_def)
    then have "plain w' = snd (redirect E cfg now req c w)"
      using assms(8) by (cases rule: redirect_call_cases [of E cfg now req c ?w]) simp_all
    then show ?thesis
      using redirect_queues [OF assms(1-6), of req] by (metis prod.collapse)
  qed
  ultimately show ?thesis using out tasks_frame [of E cfg now ?tasks w1] db by simp
qed

theorem failed_task_drops_click_witness:
  "sample.events_queued (w_redis (plain (snd (redirect_call sample_env default_settings 5 sample_request ''my-link''
     (connect (\<lambda>n. if n = 1 then Some Unsent else None) [] sample_world))))) 5 []"
proof -
  have "sample.events_queued (w_redis sample_world) 5 []"
    by (simp add: sample.events_queued_def sample_world_def wrap_list_def)
  from failed_task_drops_click [OF sample.services_axioms sample_world_ok sample_not_reserved sample_lookup sample_live this _
      prod.collapse [symmetric], of "\<lambda>n. if n = 1 then Some Unsent else None"]
  show ?thesis by simp
qed

end
