(* ===== verification/Spec2Isabelle.thy ===== *)
theory Spec2Isabelle
  imports Application Inserts Unreliable Alembic_Env
begin

text \<open>
  Verification library for the URL shortener: a FastAPI service (\<open>app/\<close>) that stores links in PostgreSQL,
  caches them in Redis, redirects visitors, queues a record of every click in Redis and moves the queue into
  PostgreSQL with a background worker.

  \<^bold>\<open>The program and the theories.\<close>  Paths are relative to \<open>src/\<close>.

  \<^item> \<open>Prelude\<close>: Python strings (a list of Latin-1 characters), results, list facts, and the collection
    \<open>invariant_intros\<close> that the component theories fill.
  \<^item> \<open>Py_Net\<close>, \<open>Py_Time\<close>, \<open>Py_Json\<close>, \<open>Py_Float\<close>: the standard library as the program uses it: \<open>urlparse\<close> and
    \<open>ipaddress\<close>, \<open>datetime\<close> (microseconds since 1970, ISO text and back), \<open>json.dumps\<close> and \<open>json.loads\<close>, and
    double arithmetic for \<open>round(n / total * 100, 1)\<close>.
  \<^item> \<open>App_Core\<close>: \<open>app/core/exceptions.py\<close>, \<open>app/core/config.py\<close>, \<open>app/utils/short_code.py\<close> and the exception
    handlers of \<open>app/main.py\<close>.
  \<^item> \<open>Url_Validator\<close>: \<open>app/utils/url_validator.py\<close>, the check that keeps internal hosts out.
  \<^item> \<open>Redis\<close>: the commands the program sends, as a record that every definition takes as an argument, and the
    locale \<open>redis_server\<close> with their documented laws, interpreted on an executable key space.
  \<^item> \<open>Url_Cache\<close>, \<open>Rate_Limiter\<close>, \<open>Analytics_Cache\<close>: \<open>app/cache\<close>.  The two caches are instances of the locale
    \<open>ttl_cache\<close>, the queue of the locale \<open>event_queue\<close>, both derived from \<open>redis_server\<close> by \<open>sublocale\<close>.
  \<^item> \<open>Configuration\<close>: what the modules set up when they are loaded: the log, the engine and its sessions, the Redis
    client, the application object and CORS.
  \<^item> \<open>Database\<close>, \<open>Repositories\<close>: \<open>app/models\<close>, \<open>alembic/versions\<close> and \<open>app/repositories\<close>.  A table is a list of
    records; every insert checks column widths, uniqueness and foreign keys, and returns the error of the driver
    as a value.  The locale \<open>link_table\<close> is the contract of the link queries.
  \<^item> \<open>Schemas\<close>: \<open>app/schemas\<close>, request bodies with their validators.  \<open>Summary_Json\<close>: a JSON form of the summaries for
    the witnesses; in the model it is pydantic's, an argument.
  \<^item> \<open>World\<close>: the state of a deployment (\<open>world\<close>: database and Redis), the third-party functions (\<open>ext\<close>), the
    session of a request (\<open>app/db/session.py\<close>) and the locale \<open>services\<close>, what the environment guarantees.
  \<^item> \<open>Url_Service\<close>, \<open>Events\<close>, \<open>Redirect\<close>, \<open>Auth\<close>, \<open>Processor\<close>, \<open>Analytics_Service\<close>, \<open>Qr\<close>: \<open>app/services\<close>,
    \<open>app/core/security.py\<close>, \<open>app/dependencies/auth.py\<close>, \<open>app/analytics\<close>, \<open>app/tasks\<close> and
    \<open>app/utils/user_agent_parser.py\<close>.
  \<^item> \<open>Endpoints\<close>: \<open>app/api/v1/endpoints\<close>: dependencies, rate limit, validation, handler and session of every route.
  \<^item> \<open>Invariants\<close>: the invariant of the service, kept by every endpoint and by the worker, for two promises about
    the cache (locale \<open>cache_promise\<close>): a cached payload is the current row of its code, or some former row.
  \<^item> \<open>System\<close>: the routes as one function and the service as a step relation with its reachable states; a request is
    one step and the stronger promise holds.
  \<^item> \<open>Interleaving\<close>: the same with background tasks that run late or never and with requests between the two halves
    of a flush; the weaker promise holds, and the account of clicks.
  \<^item> \<open>Phases\<close>: every operation that writes, cut into its lookups (\<open>_read\<close>) and its statements (\<open>_write\<close>), and every
    endpoint that writes into what it does before its first statement (\<open>prepare\<close>) and its transaction (\<open>txn\<close>).
  \<^item> \<open>Transactions\<close>: the service of \<open>Interleaving\<close> with open transactions.  A transaction has done its lookups; its
    statements run on a later database and are followed by its commands to Redis; its effect on the database appears
    with the commit, or never.  This is READ COMMITTED with the row locks of PostgreSQL: what a statement has changed
    nobody else changes before the commit, so the statements are evaluated once more there, at the time they ran.
  \<^item> \<open>Races\<close>: two requests that looked up the same rows: refreshes, creations of an alias, updates of a link.
  \<^item> \<open>Catalog\<close>, \<open>Migration\<close>, \<open>Conformance\<close>: the data definition language of the migration, the migration and the
    declarations of \<open>app/models\<close> as data, the transaction of \<open>alembic/env.py\<close> around the statements, and the proof that
    the constraints and cascades of \<open>Database\<close> are those of the migration.
  \<^item> \<open>Inserts\<close>: an \<open>INSERT\<close> as the attributes that the code names, the defaults of the models and the server defaults of
    the migration, compared with the rows that \<open>Repositories\<close> writes out in full.
  \<^item> \<open>Alembic_Env\<close>: the rest of \<open>alembic/env.py\<close>: how a migration finds its database, over the values with references
    of \<open>configparser\<close>.  The locale \<open>alembic_library\<close> is what the module needs of alembic and SQLAlchemy.
  \<^item> \<open>Application\<close>: \<open>app/middleware/logging.py\<close>, the order of the layers around an endpoint, \<open>app/cache/client.py\<close>
    and the start and end of the process (\<open>lifespan\<close> of \<open>app/main.py\<close>).
  \<^item> \<open>Connections\<close>: the program on a connection to Redis that can fail.  Every operation that talks to Redis is given
    once more, with one \<open>call\<close> per command in the order of the code; the plan of a connection says which commands get
    their answer, which are lost before the server sees them (\<open>Unsent\<close>) and which after (\<open>Unanswered\<close>).  Here the
    limiter is the object of \<open>app/cache/rate_limiter.py\<close> that loads its script and calls it by its digest.
  \<^item> \<open>Outages\<close>: these operations refine the ones of the services (\<open>abides\<close>), and what an outage of Redis leaves.
  \<^item> \<open>Failures\<close>, \<open>Unreliable\<close>: the invariant of the service under any failures of commands, for the two promises
    about the cache, and the reachable states of a service on unreliable connections.

  An operation is a function from the state to a result and the new state.  A result is \<open>Inl\<close> of an exception (of
  the program, of Python or of the driver) or \<open>Inr\<close> of the value, so every \<open>raise\<close> is a branch.  The clock, new
  identifiers and random draws are arguments.

  \<^bold>\<open>What the lemmas show.\<close>  The outcome of every endpoint and service operation, on every branch and with its
  effect on the tables, the cache and the queue; the invariant of the tables (\<open>schema_ok\<close>), of tables and cache
  together (\<open>world_ok\<close>) and of the whole service (\<open>service_ok\<close>), kept by every operation; the agreement of the
  limiter with a log of admissions, of the retry loop with the first free draw, of the safety check with the
  intervals of public addresses; round trips of timestamps, JSON, identifiers, base64 and summaries; the queue as
  a sequence of events; the path of a click from the redirect to its row and its counter; that under every
  interleaving of requests, transactions, background tasks and flushes the tables stay in order, redirects lead to
  safe targets and no click is counted twice; what overlapping requests do to each other; that a request whose commands
  to Redis fail changes the database completely or not at all; that the migration makes the tables the models declare
  and reaches the database of the application, that the rows of the model are typed by it, and that every insert of the
  program makes the row of the model or is refused with it; and the flaws that the
  code has, as theorems about what it does.

  \<^bold>\<open>Assumptions.\<close>  Third-party code is an argument: the Redis commands (\<open>redis_server\<close>: what a key holds after
  each command, and expiry), \<open>passlib\<close> and \<open>jose\<close> (\<open>auth_library\<close>: a token decodes to its claims until it
  expires), SHA-256, the digest by which Redis names a script, the parsers of URLs, addresses and user agents, the library that
  draws the images, pydantic's JSON form of a summary (locale \<open>services\<close>: what it dumps it takes back), the options of
  alembic (\<open>alembic_library\<close>), the time zone of the server.  The sessions of the database are in UTC, as in the image of
  PostgreSQL that \<open>docker-compose.yml\<close> starts, so \<open>func.date\<close> of a click is its day in UTC.  The locales
  are interpreted on concrete functions, on which every witness is computed.  The random function of the short codes
  is an arbitrary function of the attempt and the position.  Recursions are structural or on the length of a list.
  There are two bounds: that of the program's own retry loop, the setting \<open>MAX_COLLISION_RETRIES\<close>, and the depth of
  references in \<open>configparser\<close>, which the library limits to ten.

  \<^bold>\<open>Not modelled.\<close>  Log lines outside the middleware and the set-up of the log of a migration; what Starlette makes
  of the CORS options, SQLAlchemy of the pool options and structlog of its processors; deadlocks and serialization
  failures (the program never asks for a stricter isolation level); lost connections to PostgreSQL, except as a
  transaction that is rolled back at any point; commands to Redis that fail while requests interleave: the theories of
  interleavings have a good connection, and the ones of failures run a request or a flush in one step; zero bytes in
  text columns, and over-long texts of which only blanks exceed the column, which PostgreSQL cuts off (here every
  over-long text is refused); counters beyond 64 bits, except in \<open>Conformance\<close>; ties in \<open>ORDER BY\<close> other than in the
  listing of an owner, which are broken by table order; the dependencies of \<open>app/dependencies/cache.py\<close>
  other than the limiter's, which only wrap the Redis client; the tests.  A handler reads the clock once, and the
  clock of Redis is the clock of the program.  Characters beyond Latin-1 are left out.  The requests that write
  nothing to the database run in one step.
\<close>

end
